(* ===== verification/Prelude.thy ===== *)
theory Prelude
  imports Main "HOL-Library.AList" "HOL-Library.Char_ord" "HOL-Library.List_Lexorder"
    "HOL-Library.Product_Lexorder" "HOL-Library.Sublist"
begin

text \<open>
  Shared vocabulary of the development: the collections of rewrite rules, results that may be
  an error, the operations of Python's \<^verbatim>\<open>str\<close>, \<^verbatim>\<open>bytes\<close>, \<^verbatim>\<open>int\<close> and \<^verbatim>\<open>dict\<close> that the sources
  call, and two interfaces used by several components: a key-value store and a transition
  system with an invariant.

  A Python string is a \<^typ>\<open>string\<close>: one \<^typ>\<open>char\<close> is one code point below 256, and for
  \<^verbatim>\<open>bytes\<close> one byte. Case conversion is ASCII. A \<^verbatim>\<open>dict\<close> is an association list in insertion
  order with distinct keys, updated by \<^const>\<open>AList.update\<close> (an existing key keeps its place,
  a new one goes last) and \<^const>\<open>AList.delete\<close>.
\<close>

named_theorems res_iff \<open>when a computation that may fail returns a value\<close>
named_theorems pystr \<open>equations of the string operations\<close>

section \<open>Results\<close>

definition rbind :: "'e + 'a \<Rightarrow> ('a \<Rightarrow> 'e + 'b) \<Rightarrow> 'e + 'b" where
  "rbind m f = (case m of Inl e \<Rightarrow> Inl e | Inr x \<Rightarrow> f x)"

lemma rbind_simps [simp]:
  "rbind (Inl e) f = Inl e"
  "rbind (Inr x) f = f x"
  by (simp_all add: rbind_def)

lemma rbind_Inr_iff [res_iff]: "rbind m f = Inr y \<longleftrightarrow> (\<exists>x. m = Inr x \<and> f x = Inr y)"
  by (cases m) auto

lemma rbind_Inl_iff: "rbind m f = Inl e \<longleftrightarrow> m = Inl e \<or> (\<exists>x. m = Inr x \<and> f x = Inl e)"
  by (cases m) auto

text \<open>A comprehension whose element expression may raise: the first error wins.\<close>

fun rtraverse :: "('a \<Rightarrow> 'e + 'b) \<Rightarrow> 'a list \<Rightarrow> 'e + 'b list" where
  "rtraverse f [] = Inr []"
| "rtraverse f (x # xs) = rbind (f x) (\<lambda>y. rbind (rtraverse f xs) (\<lambda>ys. Inr (y # ys)))"

lemma rtraverse_Inr_iff [res_iff]:
  "rtraverse f xs = Inr ys \<longleftrightarrow> list_all2 (\<lambda>x y. f x = Inr y) xs ys"
  by (induction xs arbitrary: ys) (auto simp: res_iff list_all2_Cons1)

lemma rtraverse_total: "(\<And>x. x \<in> set xs \<Longrightarrow> f x = Inr (g x)) \<Longrightarrow> rtraverse f xs = Inr (map g xs)"
  by (induction xs) auto

section \<open>Strings\<close>

definition starts_with :: "string \<Rightarrow> string \<Rightarrow> bool" where
  "starts_with p s \<longleftrightarrow> take (length p) s = p"

definition ends_with :: "string \<Rightarrow> string \<Rightarrow> bool" where
  "ends_with p s \<longleftrightarrow> length p \<le> length s \<and> drop (length s - length p) s = p"

lemma starts_with_iff: "starts_with p s \<longleftrightarrow> (\<exists>t. s = p @ t)"
  unfolding starts_with_def by (metis append_eq_conv_conj)

lemma starts_with_simps [simp]:
  "starts_with [] s"
  "starts_with (c # p) (d # s) \<longleftrightarrow> c = d \<and> starts_with p s"
  "\<not> starts_with (c # p) []"
  by (auto simp: starts_with_def)

fun contains_sub :: "string \<Rightarrow> string \<Rightarrow> bool" where
  "contains_sub p [] \<longleftrightarrow> p = []"
| "contains_sub p (c # s) \<longleftrightarrow> starts_with p (c # s) \<or> contains_sub p s"

lemma contains_sub_iff: "contains_sub p s \<longleftrightarrow> (\<exists>a b. s = a @ p @ b)"
proof (induction s)
  case (Cons c s)
  show ?case
  proof
    assume "contains_sub p (c # s)"
    then consider "starts_with p (c # s)" | "contains_sub p s" by auto
    then show "\<exists>a b. c # s = a @ p @ b"
    proof cases
      case 1
      then obtain b where "c # s = [] @ p @ b" by (auto simp: starts_with_iff)
      then show ?thesis by blast
    next
      case 2
      then obtain a b where "c # s = (c # a) @ p @ b" using Cons.IH by auto
      then show ?thesis by blast
    qed
  next
    assume "\<exists>a b. c # s = a @ p @ b"
    then obtain a b where ab: "c # s = a @ p @ b" by blast
    show "contains_sub p (c # s)"
    proof (cases a)
      case Nil
      with ab have "starts_with p (c # s)" by (auto simp: starts_with_iff)
      then show ?thesis by simp
    next
      case (Cons d a')
      with ab have "s = a' @ p @ b" by simp
      with Cons.IH show ?thesis by auto
    qed
  qed
qed auto

lemma contains_sub_single: "contains_sub [c] s \<longleftrightarrow> c \<in> set s"
  by (induction s) auto

text \<open>\<^verbatim>\<open>s.partition(sep)\<close>: the text before the first separator, whether there is one, the rest.\<close>

fun py_partition :: "string \<Rightarrow> string \<Rightarrow> string \<times> bool \<times> string" where
  "py_partition sep [] = ([], sep = [], [])"
| "py_partition sep (c # s) =
     (if starts_with sep (c # s) then ([], True, drop (length sep) (c # s))
      else case py_partition sep s of (a, f, b) \<Rightarrow> (c # a, f, b))"

lemma py_partition_found:
  "py_partition sep s = (a, True, b) \<Longrightarrow> s = a @ sep @ b"
proof (induction s arbitrary: a b)
  case (Cons c s)
  then show ?case
    by (auto simp: starts_with_iff split: if_splits prod.splits)
qed auto

lemma py_partition_not_found:
  "py_partition sep s = (a, False, b) \<Longrightarrow> a = s \<and> b = [] \<and> \<not> contains_sub sep s"
  by (induction s arbitrary: a b) (auto split: if_splits prod.splits)

lemma py_partition_less [termination_simp]:
  "py_partition sep s = (a, True, b) \<Longrightarrow> sep \<noteq> [] \<Longrightarrow> length b < length s"
  by (drule py_partition_found) (cases sep, auto)

text \<open>A single-character separator that the prefix does not contain is found where it stands.\<close>

lemma py_partition_char:
  "c \<notin> set a \<Longrightarrow> py_partition [c] (a @ c # b) = (a, True, b)"
  by (induction a) auto

lemma py_partition_char_none: "c \<notin> set a \<Longrightarrow> py_partition [c] a = (a, False, [])"
  by (induction a) auto

lemma py_partition_char_cases:
  assumes "py_partition [c] s = (a, f, b)"
  shows "c \<notin> set a \<and> (if f then s = a @ c # b else s = a \<and> b = [])"
  using assms by (induction s arbitrary: a b) (auto split: if_splits prod.splits)

text \<open>\<^verbatim>\<open>s.split(sep)\<close> and \<^verbatim>\<open>s.split(sep, 1)\<close>.\<close>

function split_str :: "string \<Rightarrow> string \<Rightarrow> string list" where
  "split_str sep s =
     (case py_partition sep s of (a, f, b) \<Rightarrow>
        if f \<and> sep \<noteq> [] then a # split_str sep b else [s])"
  by pat_completeness auto
termination
  by (relation "measure (length \<circ> snd)") (auto dest!: sym [THEN py_partition_less])

declare split_str.simps [simp del]

definition split_once :: "string \<Rightarrow> string \<Rightarrow> string list" where
  "split_once sep s = (case py_partition sep s of (a, f, b) \<Rightarrow> if f then [a, b] else [s])"

lemma split_str_char_last: "c \<notin> set s \<Longrightarrow> split_str [c] s = [s]"
  by (subst split_str.simps) (simp add: py_partition_char_none)

lemma split_str_char_cons: "c \<notin> set a \<Longrightarrow> split_str [c] (a @ c # b) = a # split_str [c] b"
  by (subst split_str.simps) (simp add: py_partition_char)

lemma split_str_nonempty: "split_str sep s \<noteq> []"
  by (subst split_str.simps) (auto split: prod.splits)

text \<open>\<^verbatim>\<open>sep.join(xs)\<close>\<close>

fun py_join :: "string \<Rightarrow> string list \<Rightarrow> string" where
  "py_join sep [] = []"
| "py_join sep [x] = x"
| "py_join sep (x # y # zs) = x @ sep @ py_join sep (y # zs)"

lemma split_str_join:
  "xs \<noteq> [] \<Longrightarrow> \<forall>x \<in> set xs. c \<notin> set x \<Longrightarrow> split_str [c] (py_join [c] xs) = xs"
  by (induction "[c]" xs rule: py_join.induct)
    (auto simp: split_str_char_last split_str_char_cons)

lemma py_join_split_str: "py_join [c] (split_str [c] s) = s"
proof (induction "[c]" s rule: split_str.induct)
  case (1 s)
  obtain a f b where p: "py_partition [c] s = (a, f, b)" by (cases "py_partition [c] s")
  show ?case
  proof (cases f)
    case True
    with p 1 have "py_join [c] (split_str [c] b) = b" by simp
    moreover from True p have "s = a @ c # b" by (auto dest: py_partition_found)
    moreover obtain y ys where "split_str [c] b = y # ys"
      using split_str_nonempty by (cases "split_str [c] b") auto
    ultimately show ?thesis using True p by (subst split_str.simps) auto
  next
    case False
    with p show ?thesis by (subst split_str.simps) auto
  qed
qed

lemma split_str_char_free: "x \<in> set (split_str [c] s) \<Longrightarrow> c \<notin> set x"
proof (induction "[c]" s arbitrary: x rule: split_str.induct)
  case (1 s)
  obtain a f b where p: "py_partition [c] s = (a, f, b)" by (cases "py_partition [c] s")
  from py_partition_char_cases[OF this] 1 show ?case
    by (subst (asm) (2) split_str.simps) (auto simp: p split: if_splits)
qed

text \<open>\<^verbatim>\<open>s.replace(old, new)\<close> for a non-empty \<^verbatim>\<open>old\<close>.\<close>

function py_replace :: "string \<Rightarrow> string \<Rightarrow> string \<Rightarrow> string" where
  "py_replace old new s =
     (case py_partition old s of (a, f, b) \<Rightarrow>
        if f \<and> old \<noteq> [] then a @ new @ py_replace old new b else s)"
  by pat_completeness auto
termination
  by (relation "measure (length \<circ> snd \<circ> snd)") (auto dest!: sym [THEN py_partition_less])

declare py_replace.simps [simp del]

lemma py_replace_absent: "\<not> contains_sub old s \<Longrightarrow> py_replace old new s = s"
  by (subst py_replace.simps)
    (auto split: prod.splits dest!: py_partition_found simp: contains_sub_iff)

text \<open>Stripping, with the characters to strip as a predicate; \<^verbatim>\<open>str.strip()\<close> and
  \<^verbatim>\<open>bytes.strip()\<close> differ in what counts as white space.\<close>

definition lstrip_by :: "(char \<Rightarrow> bool) \<Rightarrow> string \<Rightarrow> string" where
  "lstrip_by P s = dropWhile P s"

definition rstrip_by :: "(char \<Rightarrow> bool) \<Rightarrow> string \<Rightarrow> string" where
  "rstrip_by P s = rev (dropWhile P (rev s))"

definition strip_by :: "(char \<Rightarrow> bool) \<Rightarrow> string \<Rightarrow> string" where
  "strip_by P s = rstrip_by P (lstrip_by P s)"

abbreviation code :: "char \<Rightarrow> nat" where
  "code c \<equiv> of_char c"

definition is_ws :: "char \<Rightarrow> bool" where
  "is_ws c \<longleftrightarrow> code c \<in> {9, 10, 11, 12, 13, 28, 29, 30, 31, 32, 133, 160}"

definition is_bws :: "char \<Rightarrow> bool" where
  "is_bws c \<longleftrightarrow> code c \<in> {9, 10, 11, 12, 13, 32}"

abbreviation strip :: "string \<Rightarrow> string" where
  "strip \<equiv> strip_by is_ws"

lemma dropWhile_hd: "(s \<noteq> [] \<Longrightarrow> \<not> P (hd s)) \<Longrightarrow> dropWhile P s = s"
  by (cases s) auto

lemma strip_by_id:
  assumes "s \<noteq> [] \<Longrightarrow> \<not> P (hd s) \<and> \<not> P (last s)"
  shows "strip_by P s = s"
proof -
  from assms have "dropWhile P s = s" "dropWhile P (rev s) = rev s"
    by (auto intro!: dropWhile_hd simp: hd_rev)
  then show ?thesis by (simp add: strip_by_def lstrip_by_def rstrip_by_def)
qed

lemma strip_by_ends: "strip_by P s \<noteq> [] \<Longrightarrow> \<not> P (hd (strip_by P s)) \<and> \<not> P (last (strip_by P s))"
proof -
  define t where "t = dropWhile P s"
  assume "strip_by P s \<noteq> []"
  then have ne: "dropWhile P (rev t) \<noteq> []"
    by (simp add: strip_by_def lstrip_by_def rstrip_by_def t_def)
  then have last: "\<not> P (last (strip_by P s))"
    by (simp add: strip_by_def lstrip_by_def rstrip_by_def t_def last_rev hd_dropWhile)
  from ne have tne: "t \<noteq> []" by auto
  then have "\<not> P (hd t)" by (auto simp: t_def hd_dropWhile)
  moreover have "hd (strip_by P s) = hd t"
  proof -
    from takeWhile_dropWhile_id[of P "rev t"] have "t = rev (dropWhile P (rev t)) @ rev (takeWhile P (rev t))"
      by (metis rev_append rev_rev_ident)
    then show ?thesis using ne
      by (metis strip_by_def lstrip_by_def rstrip_by_def t_def hd_append rev_is_Nil_conv)
  qed
  ultimately show ?thesis using last by simp
qed

lemma strip_by_idem [simp]: "strip_by P (strip_by P s) = strip_by P s"
  by (rule strip_by_id) (rule strip_by_ends)

lemma set_strip_by: "set (strip_by P s) \<subseteq> set s"
  by (auto simp: strip_by_def lstrip_by_def rstrip_by_def dest!: set_dropWhileD)

section \<open>Case, digits and integers\<close>

definition lower_ch :: "char \<Rightarrow> char" where
  "lower_ch c = (if 65 \<le> code c \<and> code c \<le> 90 then char_of (code c + 32) else c)"

definition upper_ch :: "char \<Rightarrow> char" where
  "upper_ch c = (if 97 \<le> code c \<and> code c \<le> 122 then char_of (code c - 32) else c)"

abbreviation lower :: "string \<Rightarrow> string" where
  "lower \<equiv> map lower_ch"

abbreviation upper :: "string \<Rightarrow> string" where
  "upper \<equiv> map upper_ch"

definition is_digit :: "char \<Rightarrow> bool" where
  "is_digit c \<longleftrightarrow> 48 \<le> code c \<and> code c \<le> 57"

definition is_lower_az :: "char \<Rightarrow> bool" where
  "is_lower_az c \<longleftrightarrow> 97 \<le> code c \<and> code c \<le> 122"

definition is_upper_az :: "char \<Rightarrow> bool" where
  "is_upper_az c \<longleftrightarrow> 65 \<le> code c \<and> code c \<le> 90"

definition is_alpha :: "char \<Rightarrow> bool" where
  "is_alpha c \<longleftrightarrow> is_lower_az c \<or> is_upper_az c"

definition is_alnum :: "char \<Rightarrow> bool" where
  "is_alnum c \<longleftrightarrow> is_alpha c \<or> is_digit c"

lemmas char_class_defs =
  is_ws_def is_bws_def is_digit_def is_lower_az_def is_upper_az_def is_alpha_def is_alnum_def

definition digit_ch :: "nat \<Rightarrow> char" where
  "digit_ch d = char_of (48 + d)"

definition digit_val :: "char \<Rightarrow> nat" where
  "digit_val c = code c - 48"

lemma code_digit_ch [simp]: "d < 10 \<Longrightarrow> code (digit_ch d) = 48 + d"
  by (simp add: digit_ch_def)

lemma digit_ch_simps [simp]:
  "d < 10 \<Longrightarrow> digit_val (digit_ch d) = d"
  "d < 10 \<Longrightarrow> is_digit (digit_ch d)"
  by (simp_all add: digit_val_def is_digit_def)

lemma digit_ch_nums [simp]:
  "digit_ch 0 = CHR ''0''" "digit_ch (Suc 0) = CHR ''1''" "digit_ch 1 = CHR ''1''" "digit_ch 2 = CHR ''2''"
  "digit_ch 3 = CHR ''3''" "digit_ch 4 = CHR ''4''" "digit_ch 5 = CHR ''5''" "digit_ch 6 = CHR ''6''"
  "digit_ch 7 = CHR ''7''" "digit_ch 8 = CHR ''8''" "digit_ch 9 = CHR ''9''"
  by code_simp+

text \<open>\<^verbatim>\<open>str(n)\<close> for a non-negative and for any integer.\<close>

fun nat_str :: "nat \<Rightarrow> string" where
  "nat_str n = (if n < 10 then [digit_ch n] else nat_str (n div 10) @ [digit_ch (n mod 10)])"

declare nat_str.simps [simp del]

definition int_str :: "int \<Rightarrow> string" where
  "int_str i = (if i < 0 then CHR ''-'' # nat_str (nat (- i)) else nat_str (nat i))"

definition digits_val :: "string \<Rightarrow> nat" where
  "digits_val s = foldl (\<lambda>a c. 10 * a + digit_val c) 0 s"

lemma nat_str_digits: "\<forall>c \<in> set (nat_str n). is_digit c"
proof (induction n rule: nat_str.induct)
  case (1 n)
  then show ?case by (subst nat_str.simps) auto
qed

lemma nat_str_nonempty [simp]: "nat_str n \<noteq> []"
  by (subst nat_str.simps) auto

lemma digits_val_nat_str [simp]: "digits_val (nat_str n) = n"
proof (induction n rule: nat_str.induct)
  case (1 n)
  show ?case
  proof (cases "n < 10")
    case True
    then show ?thesis by (subst nat_str.simps) (simp add: digits_val_def)
  next
    case False
    then have "digits_val (nat_str n) = 10 * digits_val (nat_str (n div 10)) + n mod 10"
      by (subst nat_str.simps) (simp add: digits_val_def)
    with 1 False show ?thesis by simp
  qed
qed

lemma nat_str_inj [simp]: "nat_str m = nat_str n \<longleftrightarrow> m = n"
  by (metis digits_val_nat_str)

text \<open>\<^verbatim>\<open>int(s)\<close>: surrounding white space, an optional sign, digits with single underscores
  between them; \<^const>\<open>None\<close> is \<^verbatim>\<open>ValueError\<close>.\<close>

definition int_body :: "string \<Rightarrow> nat option" where
  "int_body s =
     (let ps = split_str ''_'' s in
      if \<forall>p \<in> set ps. p \<noteq> [] \<and> (\<forall>c \<in> set p. is_digit c) then Some (digits_val (concat ps)) else None)"

definition py_int :: "string \<Rightarrow> int option" where
  "py_int s =
     (case strip s of
        [] \<Rightarrow> None
      | c # cs \<Rightarrow>
          if c = CHR ''-'' then map_option (\<lambda>n. - int n) (int_body cs)
          else if c = CHR ''+'' then map_option int (int_body cs)
          else map_option int (int_body (c # cs)))"

lemma digit_not:
  "is_digit c \<Longrightarrow> \<not> is_ws c \<and> c \<noteq> CHR ''_'' \<and> c \<noteq> CHR ''-'' \<and> c \<noteq> CHR ''+'' \<and> c \<noteq> CHR '',''"
  by (auto simp: char_class_defs)

lemma int_body_nat_str: "int_body (nat_str n) = Some n"
proof -
  have "CHR ''_'' \<notin> set (nat_str n)" using nat_str_digits digit_not by blast
  then show ?thesis using nat_str_digits by (simp add: int_body_def split_str_char_last)
qed

lemma strip_int_str: "strip (int_str i) = int_str i"
proof (rule strip_by_id)
  have d: "\<not> is_ws (hd (nat_str n)) \<and> \<not> is_ws (last (nat_str n))" for n
    using nat_str_digits[of n] digit_not nat_str_nonempty by (meson hd_in_set last_in_set)
  then show "\<not> is_ws (hd (int_str i)) \<and> \<not> is_ws (last (int_str i))"
    by (simp add: int_str_def is_ws_def)
qed

lemma py_int_int_str [simp]: "py_int (int_str i) = Some i"
proof (cases "i < 0")
  case True
  then have "int_str i = CHR ''-'' # nat_str (nat (- i))" by (simp add: int_str_def)
  with True strip_int_str[of i] show ?thesis by (simp add: py_int_def int_body_nat_str)
next
  case False
  obtain c cs where c: "nat_str (nat i) = c # cs" by (cases "nat_str (nat i)") auto
  with nat_str_digits[of "nat i"] have "is_digit c" by simp
  with digit_not have "c \<noteq> CHR ''-''" "c \<noteq> CHR ''+''" by blast+
  with c False int_body_nat_str[of "nat i"] strip_int_str[of i] show ?thesis
    by (simp add: py_int_def int_str_def)
qed

lemma int_str_inj [simp]: "int_str i = int_str j \<longleftrightarrow> i = j"
  by (metis py_int_int_str option.inject)

lemma int_str_chars: "c \<in> set (int_str i) \<Longrightarrow> is_digit c \<or> c = CHR ''-''"
  using nat_str_digits by (auto simp: int_str_def split: if_splits)

text \<open>\<^verbatim>\<open>str.encode("utf-8")\<close> of code points below 256.\<close>

definition utf8 :: "string \<Rightarrow> string" where
  "utf8 s = concat (map (\<lambda>c. if code c < 128 then [c]
     else [char_of (192 + code c div 64), char_of (128 + code c mod 64)]) s)"

lemma utf8_append [simp]: "utf8 (a @ b) = utf8 a @ utf8 b"
  by (simp add: utf8_def)

text \<open>UTF-8 bytes below 128 are the characters themselves.\<close>

lemma utf8_high:
  "code (char_of (192 + code c div 64)) = 192 + code c div 64" "code (char_of (128 + code c mod 64)) = 128 + code c mod 64"
proof -
  have "code c div 64 < 4" by (simp add: div_less_iff_less_mult)
  then have "192 + code c div 64 < 256" "128 + code c mod 64 < 256" using mod_less_divisor[of 64 "code c"] by linarith+
  then show "code (char_of (192 + code c div 64)) = 192 + code c div 64"
    "code (char_of (128 + code c mod 64)) = 128 + code c mod 64"
    by (simp_all only: of_char_of mod_less)
qed

lemma utf8_ascii: "code d < 128 \<Longrightarrow> d \<in> set (utf8 s) \<longleftrightarrow> d \<in> set s"
proof -
  assume d: "code d < 128"
  have "d \<in> set (utf8 [c]) \<longleftrightarrow> d = c" for c
  proof (cases "code c < 128")
    case False
    have u: "utf8 [c] = [char_of (192 + code c div 64), char_of (128 + code c mod 64)]" using False by (simp add: utf8_def)
    have "code d \<noteq> 192 + code c div 64" "code d \<noteq> 128 + code c mod 64" "d \<noteq> c" using d False by (linarith, linarith, blast)
    then have "d \<noteq> char_of (192 + code c div 64)" "d \<noteq> char_of (128 + code c mod 64)" "d \<noteq> c"
      using utf8_high(1)[of c] utf8_high(2)[of c] by blast+
    then show ?thesis unfolding u list.set insert_iff empty_iff by blast
  qed (simp add: utf8_def)
  then have one: "d \<in> set (utf8 [c]) \<longleftrightarrow> d = c" for c .
  show ?thesis
  proof (induction s)
    case (Cons c s)
    have u: "utf8 (c # s) = utf8 [c] @ utf8 s" by (simp add: utf8_def)
    show ?case unfolding u set_append Un_iff one Cons by simp
  qed (simp add: utf8_def)
qed

lemma utf8_inj: "utf8 a = utf8 b \<longleftrightarrow> a = b"
proof
  have cons: "utf8 (c # s) = (if code c < 128 then c # utf8 s
      else char_of (192 + code c div 64) # char_of (128 + code c mod 64) # utf8 s)" for c s
    by (simp add: utf8_def)
  have nil: "utf8 [] = []" by (simp add: utf8_def)
  have high: "192 + code c div 64 = 192 + code d div 64 \<Longrightarrow> 128 + code c mod 64 = 128 + code d mod 64 \<Longrightarrow> c = d" for c d
  proof -
    assume "192 + code c div 64 = 192 + code d div 64" "128 + code c mod 64 = 128 + code d mod 64"
    then have "code c div 64 = code d div 64" "code c mod 64 = code d mod 64" by simp_all
    then have "code c = code d" using div_mult_mod_eq[of "code c" 64] div_mult_mod_eq[of "code d" 64] by linarith
    then show "c = d" by simp
  qed
  show "utf8 a = utf8 b \<Longrightarrow> a = b"
  proof (induction a arbitrary: b)
    case Nil
    then show ?case by (cases b) (auto simp: cons nil split: if_splits)
  next
    case (Cons c a)
    then obtain d b' where b: "b = d # b'" by (cases b) (auto simp: cons nil split: if_splits)
    consider "code c < 128" "code d < 128" | "code c < 128" "\<not> code d < 128" | "\<not> code c < 128" "code d < 128"
      | "\<not> code c < 128" "\<not> code d < 128" by blast
    then show ?case
    proof cases
      case 1
      then show ?thesis using Cons b by (simp add: cons)
    next
      case 2
      then have "c = char_of (192 + code d div 64)" using Cons.prems b by (simp add: cons)
      then have "code c = 192 + code d div 64" using utf8_high(1)[of d] by simp
      then show ?thesis using 2 by linarith
    next
      case 3
      then have "d = char_of (192 + code c div 64)" using Cons.prems b by (simp add: cons)
      then have "code d = 192 + code c div 64" using utf8_high(1)[of c] by simp
      then show ?thesis using 3 by linarith
    next
      case 4
      then have e: "char_of (192 + code c div 64) = (char_of (192 + code d div 64) :: char)"
        "char_of (128 + code c mod 64) = (char_of (128 + code d mod 64) :: char)" "utf8 a = utf8 b'"
        using Cons.prems unfolding b cons by (simp_all only: if_False list.inject)
      have "192 + code c div 64 = 192 + code d div 64" "128 + code c mod 64 = 128 + code d mod 64"
        using arg_cong[OF e(1), of code] arg_cong[OF e(2), of code] by (simp_all only: utf8_high)
      then have "c = d" by (rule high)
      with Cons.IH[OF e(3)] b show ?thesis by simp
    qed
  qed
qed simp

section \<open>Dictionaries\<close>

type_synonym ('k, 'v) dict = "('k \<times> 'v) list"

abbreviation dget :: "('k, 'v) dict \<Rightarrow> 'k \<Rightarrow> 'v option" where
  "dget \<equiv> map_of"

abbreviation dset :: "'k \<Rightarrow> 'v \<Rightarrow> ('k, 'v) dict \<Rightarrow> ('k, 'v) dict" where
  "dset \<equiv> AList.update"

abbreviation ddel :: "'k \<Rightarrow> ('k, 'v) dict \<Rightarrow> ('k, 'v) dict" where
  "ddel \<equiv> AList.delete"

abbreviation dkeys :: "('k, 'v) dict \<Rightarrow> 'k list" where
  "dkeys \<equiv> map fst"

definition dget_or :: "('k, 'v) dict \<Rightarrow> 'k \<Rightarrow> 'v \<Rightarrow> 'v" where
  "dget_or d k v = (case dget d k of None \<Rightarrow> v | Some x \<Rightarrow> x)"

definition has_key :: "('k, 'v) dict \<Rightarrow> 'k \<Rightarrow> bool" where
  "has_key d k \<longleftrightarrow> dget d k \<noteq> None"

lemmas dict_simps [simp] = update_conv' delete_conv'

lemma distinct_dset [intro]: "distinct (dkeys d) \<Longrightarrow> distinct (dkeys (dset k v d))"
  by (rule distinct_update)

lemma distinct_ddel [intro]: "distinct (dkeys d) \<Longrightarrow> distinct (dkeys (ddel k d))"
  by (rule distinct_delete)

text \<open>\<^verbatim>\<open>dict.update(other)\<close>\<close>

definition dupdate :: "('k, 'v) dict \<Rightarrow> ('k, 'v) dict \<Rightarrow> ('k, 'v) dict" where
  "dupdate d e = fold (\<lambda>(k, v). dset k v) e d"

lemma distinct_dupdate: "distinct (dkeys d) \<Longrightarrow> distinct (dkeys (dupdate d e))"
  unfolding dupdate_def by (induction e arbitrary: d) (auto intro: distinct_update)

lemma dget_dupdate:
  "distinct (dkeys e) \<Longrightarrow> dget (dupdate d e) k = (case dget e k of None \<Rightarrow> dget d k | Some v \<Rightarrow> Some v)"
  unfolding dupdate_def
proof (induction e arbitrary: d)
  case (Cons p e)
  obtain a b where p: "p = (a, b)" by (cases p)
  with Cons.prems have "a \<notin> set (dkeys e)" "distinct (dkeys e)" by auto
  then have "dget e a = None" by (simp add: map_of_eq_None_iff)
  with Cons.IH[OF \<open>distinct (dkeys e)\<close>] p show ?case by (auto split: option.splits)
qed simp

section \<open>Order-preserving removal of duplicates, sorting, sums\<close>

lemma sorted_list_of_set_set: "sorted_list_of_set (set xs) = sort (remdups (xs :: 'a::linorder list))"
  by (rule sorted_list_of_set_sort_remdups)

section \<open>Two interfaces\<close>

text \<open>
  A key-value store as its clients see it: what a lookup returns after a write or a removal.
  \<open>okk\<close> are the keys the provider promises this for, \<open>okv\<close> the values it gives back as they were
  written, \<open>inv\<close> is its invariant.
\<close>

locale kv_store =
  fixes kget :: "'s \<Rightarrow> 'k \<Rightarrow> 'v option"
    and kset :: "'k \<Rightarrow> 'v \<Rightarrow> 's \<Rightarrow> 's"
    and kdel :: "'k \<Rightarrow> 's \<Rightarrow> 's"
    and okk :: "'k \<Rightarrow> bool"
    and okv :: "'v \<Rightarrow> bool"
    and inv :: "'s \<Rightarrow> bool"
  assumes get_set: "inv s \<Longrightarrow> okk k \<Longrightarrow> okv v \<Longrightarrow> kget (kset k v s) k = Some v"
    and get_set_other: "inv s \<Longrightarrow> okk k \<Longrightarrow> k' \<noteq> k \<Longrightarrow> kget (kset k v s) k' = kget s k'"
    and get_del: "inv s \<Longrightarrow> okk k \<Longrightarrow> kget (kdel k s) k' = (if k' = k then None else kget s k')"
    and inv_set: "inv s \<Longrightarrow> okk k \<Longrightarrow> inv (kset k v s)"
    and inv_del: "inv s \<Longrightarrow> okk k \<Longrightarrow> inv (kdel k s)"
begin

text \<open>A list of assignments, \<^const>\<open>None\<close> meaning removal, applied from left to right.\<close>

fun apply_kvs :: "('k \<times> 'v option) list \<Rightarrow> 's \<Rightarrow> 's" where
  "apply_kvs [] s = s"
| "apply_kvs ((k, None) # kvs) s = apply_kvs kvs (kdel k s)"
| "apply_kvs ((k, Some v) # kvs) s = apply_kvs kvs (kset k v s)"

definition ok_kvs :: "('k \<times> 'v option) list \<Rightarrow> bool" where
  "ok_kvs kvs \<longleftrightarrow> list_all (\<lambda>p. okk (fst p)) kvs"

lemma inv_apply_kvs: "inv s \<Longrightarrow> ok_kvs kvs \<Longrightarrow> inv (apply_kvs kvs s)"
  by (induction kvs s rule: apply_kvs.induct) (auto simp: ok_kvs_def inv_set inv_del)

lemma get_apply_kvs_other:
  "inv s \<Longrightarrow> ok_kvs kvs \<Longrightarrow> k \<notin> set (map fst kvs) \<Longrightarrow> kget (apply_kvs kvs s) k = kget s k"
  by (induction kvs s rule: apply_kvs.induct) (auto simp: ok_kvs_def inv_set inv_del get_set_other get_del)

lemma get_apply_kvs:
  "inv s \<Longrightarrow> ok_kvs kvs \<Longrightarrow> distinct (map fst kvs) \<Longrightarrow> map_of kvs k = Some ov \<Longrightarrow> pred_option okv ov \<Longrightarrow>
    kget (apply_kvs kvs s) k = ov"
proof (induction kvs s rule: apply_kvs.induct)
  case (2 k' kvs s)
  then have ok: "ok_kvs kvs" "inv (kdel k' s)" by (auto simp: ok_kvs_def inv_del)
  show ?case
  proof (cases "k = k'")
    case True
    with 2 have "ov = None" "k \<notin> set (map fst kvs)" by auto
    with 2 ok True show ?thesis
      by (auto simp: get_apply_kvs_other get_del ok_kvs_def)
  qed (use 2 ok in auto)
next
  case (3 k' v kvs s)
  then have ok: "ok_kvs kvs" "inv (kset k' v s)" by (auto simp: ok_kvs_def inv_set)
  show ?case
  proof (cases "k = k'")
    case True
    with 3 have "ov = Some v" "k \<notin> set (map fst kvs)" by auto
    with 3 ok True show ?thesis
      by (auto simp: get_apply_kvs_other get_set ok_kvs_def)
  qed (use 3 ok in auto)
qed simp

end

interpretation alist_kv: kv_store map_of AList.update AList.delete "\<lambda>_. True" "\<lambda>_. True"
  "\<lambda>d. distinct (map fst d)"
  by unfold_locales (auto intro: distinct_update distinct_delete)

text \<open>The states a machine can reach, and a property that every step keeps.\<close>

inductive reach :: "('s \<Rightarrow> bool) \<Rightarrow> ('s \<Rightarrow> 's \<Rightarrow> bool) \<Rightarrow> 's \<Rightarrow> bool" for init step where
  reach_init: "init s \<Longrightarrow> reach init step s"
| reach_step: "reach init step s \<Longrightarrow> step s t \<Longrightarrow> reach init step t"

locale invariant_machine =
  fixes init :: "'s \<Rightarrow> bool" and step :: "'s \<Rightarrow> 's \<Rightarrow> bool" and inv :: "'s \<Rightarrow> bool"
  assumes inv_init: "init s \<Longrightarrow> inv s"
    and inv_step: "inv s \<Longrightarrow> step s t \<Longrightarrow> inv t"
begin

lemma reach_inv: "reach init step s \<Longrightarrow> inv s"
  by (induction rule: reach.induct) (auto intro: inv_init inv_step)

end

end
