(* ===== verification/Json.thy ===== *)
theory Json
  imports Prelude
begin

text \<open>
  Python's \<^verbatim>\<open>json\<close> module as far as the sources use it: the values, \<^verbatim>\<open>json.dumps\<close> with
  \<^verbatim>\<open>ensure_ascii\<close>, \<^verbatim>\<open>separators\<close>, \<^verbatim>\<open>indent\<close> and \<^verbatim>\<open>sort_keys\<close>, and \<^verbatim>\<open>json.loads\<close> as a
  recursive-descent parser that returns \<^const>\<open>None\<close> for \<^verbatim>\<open>JSONDecodeError\<close>. A float is kept as
  its lexeme. The main fact is the round trip \<open>loads_dumps\<close>.
\<close>

section \<open>Values\<close>

datatype json =
    JNull
  | JBool bool
  | JInt int
  | JFloat string
  | JStr string
  | JArr "json list"
  | JObj "(string \<times> json) list"

definition is_dict :: "json \<Rightarrow> bool" where
  "is_dict j = (case j of JObj _ \<Rightarrow> True | _ \<Rightarrow> False)"

definition is_str :: "json \<Rightarrow> bool" where
  "is_str j = (case j of JStr _ \<Rightarrow> True | _ \<Rightarrow> False)"

text \<open>\<^verbatim>\<open>d.get(key)\<close> for a dictionary; a missing key and a stored \<^verbatim>\<open>null\<close> both give \<^const>\<open>JNull\<close>.\<close>

definition obj_get :: "(string \<times> json) list \<Rightarrow> string \<Rightarrow> json" where
  "obj_get d k = (case dget d k of None \<Rightarrow> JNull | Some v \<Rightarrow> v)"

text \<open>Python truth values of JSON data.\<close>

definition truthy :: "json \<Rightarrow> bool" where
  "truthy j = (case j of
      JNull \<Rightarrow> False | JBool b \<Rightarrow> b | JInt i \<Rightarrow> i \<noteq> 0 | JFloat t \<Rightarrow> t \<notin> {''0.0'', ''-0.0''}
    | JStr s \<Rightarrow> s \<noteq> [] | JArr xs \<Rightarrow> xs \<noteq> [] | JObj d \<Rightarrow> d \<noteq> [])"

text \<open>A list or an object is no key of a dictionary: \<^verbatim>\<open>TypeError\<close>.\<close>

definition hashable :: "json \<Rightarrow> bool" where
  "hashable j = (case j of JArr _ \<Rightarrow> False | JObj _ \<Rightarrow> False | _ \<Rightarrow> True)"

lemma is_dict_iff: "is_dict j \<longleftrightarrow> (\<exists>d. j = JObj d)"
  by (cases j) (auto simp: is_dict_def)

lemma is_str_iff: "is_str j \<longleftrightarrow> (\<exists>s. j = JStr s)"
  by (cases j) (auto simp: is_str_def)

section \<open>Printing\<close>

datatype jfmt = JFmt (ensure_ascii: bool) (item_pad: string) (key_pad: string) (indent: "nat option")

definition fmt_default :: "bool \<Rightarrow> jfmt" where
  "fmt_default ea = JFmt ea '' '' '' '' None"

definition fmt_compact :: "bool \<Rightarrow> jfmt" where
  "fmt_compact ea = JFmt ea [] [] None"

definition fmt_indent2 :: "bool \<Rightarrow> jfmt" where
  "fmt_indent2 ea = JFmt ea [] '' '' (Some 2)"

definition hex_ch :: "nat \<Rightarrow> char" where
  "hex_ch d = (if d < 10 then char_of (48 + d) else char_of (87 + d))"

definition esc_u :: "char \<Rightarrow> string" where
  "esc_u c = [CHR 0x5C, CHR ''u'', CHR ''0'', CHR ''0'', hex_ch (code c div 16), hex_ch (code c mod 16)]"

definition esc_ch :: "bool \<Rightarrow> char \<Rightarrow> string" where
  "esc_ch ea c =
     (if c = CHR 0x22 then [CHR 0x5C, CHR 0x22]
      else if c = CHR 0x5C then [CHR 0x5C, CHR 0x5C]
      else if c = CHR 0x0A then [CHR 0x5C, CHR ''n'']
      else if c = CHR 0x0D then [CHR 0x5C, CHR ''r'']
      else if c = CHR 0x09 then [CHR 0x5C, CHR ''t'']
      else if c = CHR 0x0C then [CHR 0x5C, CHR ''f'']
      else if c = CHR 0x08 then [CHR 0x5C, CHR ''b'']
      else if code c < 32 \<or> ea \<and> 127 \<le> code c then esc_u c
      else [c])"

definition dump_str :: "bool \<Rightarrow> string \<Rightarrow> string" where
  "dump_str ea s = CHR 0x22 # concat (map (esc_ch ea) s) @ [CHR 0x22]"

definition nl :: "jfmt \<Rightarrow> nat \<Rightarrow> string" where
  "nl f l = (case indent f of None \<Rightarrow> [] | Some n \<Rightarrow> CHR 0x0A # replicate (n * l) CHR '' '')"

definition bracket :: "jfmt \<Rightarrow> nat \<Rightarrow> char \<Rightarrow> char \<Rightarrow> string list \<Rightarrow> string" where
  "bracket f l a b ps =
     (if ps = [] then [a, b]
      else a # nl f (Suc l) @ py_join (CHR '','' # item_pad f @ nl f (Suc l)) ps @ nl f l @ [b])"

fun dump :: "jfmt \<Rightarrow> nat \<Rightarrow> json \<Rightarrow> string" where
  "dump f l JNull = ''null''"
| "dump f l (JBool b) = (if b then ''true'' else ''false'')"
| "dump f l (JInt i) = int_str i"
| "dump f l (JFloat t) = t"
| "dump f l (JStr s) = dump_str (ensure_ascii f) s"
| "dump f l (JArr xs) = bracket f l (CHR ''['') (CHR '']'') (map (dump f (Suc l)) xs)"
| "dump f l (JObj d) = bracket f l (CHR 0x7B) (CHR 0x7D)
     (map (\<lambda>(k, v). dump_str (ensure_ascii f) k @ CHR '':'' # key_pad f @ dump f (Suc l) v) d)"

definition dumps :: "jfmt \<Rightarrow> json \<Rightarrow> string" where
  "dumps f j = dump f 0 j"

text \<open>\<^verbatim>\<open>sort_keys=True\<close> sorts every object, at every depth.\<close>

fun sort_keys :: "json \<Rightarrow> json" where
  "sort_keys (JArr xs) = JArr (map sort_keys xs)"
| "sort_keys (JObj d) = JObj (sort_key fst (map (\<lambda>(k, v). (k, sort_keys v)) d))"
| "sort_keys j = j"

section \<open>Parsing\<close>

definition jws :: "char \<Rightarrow> bool" where
  "jws c \<longleftrightarrow> code c \<in> {32, 9, 10, 13}"

abbreviation skip_ws :: "string \<Rightarrow> string" where
  "skip_ws \<equiv> dropWhile jws"

definition hex_val :: "char \<Rightarrow> nat option" where
  "hex_val c =
     (if is_digit c then Some (code c - 48)
      else if 97 \<le> code c \<and> code c \<le> 102 then Some (code c - 87)
      else if 65 \<le> code c \<and> code c \<le> 70 then Some (code c - 55)
      else None)"

definition unesc :: "char \<Rightarrow> char option" where
  "unesc c =
     (if c \<in> {CHR 0x22, CHR 0x5C, CHR ''/''} then Some c
      else if c = CHR ''b'' then Some (CHR 0x08)
      else if c = CHR ''f'' then Some (CHR 0x0C)
      else if c = CHR ''n'' then Some (CHR 0x0A)
      else if c = CHR ''r'' then Some (CHR 0x0D)
      else if c = CHR ''t'' then Some (CHR 0x09)
      else None)"

text \<open>The text after the opening quote: the decoded string and what follows the closing quote.
  Code points above 255 have no \<^typ>\<open>char\<close>; an escape of one gives \<^const>\<open>None\<close>.\<close>

fun pstr :: "string \<Rightarrow> (string \<times> string) option" where
  "pstr [] = None"
| "pstr (c # r) =
     (if c = CHR 0x22 then Some ([], r)
      else if c = CHR 0x5C then
        (case r of
           [] \<Rightarrow> None
         | d # r1 \<Rightarrow>
             if d = CHR ''u'' then
               (case r1 of
                  a # b # x # y # r2 \<Rightarrow>
                    (case (hex_val a, hex_val b, hex_val x, hex_val y) of
                       (Some 0, Some 0, Some h, Some l) \<Rightarrow>
                         map_option (apfst ((#) (char_of (16 * h + l)))) (pstr r2)
                     | _ \<Rightarrow> None)
                | _ \<Rightarrow> None)
             else (case unesc d of
                     None \<Rightarrow> None
                   | Some e \<Rightarrow> map_option (apfst ((#) e)) (pstr r1)))
      else if code c < 32 then None
      else map_option (apfst ((#) c)) (pstr r))"

definition span_digits :: "string \<Rightarrow> string \<times> string" where
  "span_digits s = (takeWhile is_digit s, dropWhile is_digit s)"

text \<open>The optional fraction and exponent of a number.\<close>

definition pfrac :: "string \<Rightarrow> string \<times> string" where
  "pfrac s = (case s of
      c # r \<Rightarrow> if c = CHR ''.'' \<and> takeWhile is_digit r \<noteq> []
               then (c # takeWhile is_digit r, dropWhile is_digit r) else ([], s)
    | [] \<Rightarrow> ([], s))"

definition pexp :: "string \<Rightarrow> string \<times> string" where
  "pexp s = (case s of
      c # r \<Rightarrow>
        if c = CHR ''e'' \<or> c = CHR ''E'' then
          (let sg = (case r of d # _ \<Rightarrow> if d = CHR ''+'' \<or> d = CHR ''-'' then [d] else [] | [] \<Rightarrow> []);
               r1 = drop (length sg) r in
           if takeWhile is_digit r1 \<noteq> []
           then (c # sg @ takeWhile is_digit r1, dropWhile is_digit r1) else ([], s))
        else ([], s)
    | [] \<Rightarrow> ([], s))"

definition int_lexeme :: "string \<Rightarrow> string" where
  "int_lexeme s = (case s of
      c # _ \<Rightarrow> if c = CHR ''0'' then [c] else takeWhile is_digit s | [] \<Rightarrow> [])"

definition pnum_rest :: "bool \<Rightarrow> string \<Rightarrow> string \<Rightarrow> (json \<times> string) option" where
  "pnum_rest neg ds r =
     (if ds = [] then None
      else case pfrac r of (fr, r1) \<Rightarrow> (case pexp r1 of (ex, r2) \<Rightarrow>
        if fr = [] \<and> ex = []
        then Some (JInt (if neg then - int (digits_val ds) else int (digits_val ds)), r)
        else Some (JFloat ((if neg then ''-'' else []) @ ds @ fr @ ex), r2)))"

definition pnum :: "string \<Rightarrow> (json \<times> string) option" where
  "pnum s =
     (let neg = (case s of c # _ \<Rightarrow> c = CHR ''-'' | [] \<Rightarrow> False);
          s1 = (if neg then tl s else s) in
      pnum_rest neg (int_lexeme s1) (drop (length (int_lexeme s1)) s1))"

definition plit :: "string \<Rightarrow> (json \<times> string) option" where
  "plit s =
     (if starts_with ''null'' s then Some (JNull, drop 4 s)
      else if starts_with ''true'' s then Some (JBool True, drop 4 s)
      else if starts_with ''false'' s then Some (JBool False, drop 5 s)
      else if starts_with ''NaN'' s then Some (JFloat ''NaN'', drop 3 s)
      else if starts_with ''Infinity'' s then Some (JFloat ''Infinity'', drop 8 s)
      else if starts_with ''-Infinity'' s then Some (JFloat ''-Infinity'', drop 9 s)
      else pnum s)"

lemma dropWhile_Cons_shorter [termination_simp]:
  "dropWhile P r = d # r1 \<Longrightarrow> length r1 < length r"
  by (metis Suc_le_lessD length_Cons length_dropWhile_le)

text \<open>
  A value, the items of an array up to its bracket, the members of an object up to its brace.
  Each returns the rest of the input. The length tests before the recursive calls always hold
  (\<open>pval_shorter\<close> below); they make the recursion visibly decreasing. Members are collected with
  \<^const>\<open>AList.update\<close>, so of two equal keys the last value wins.
\<close>

function pval :: "string \<Rightarrow> (json \<times> string) option"
  and pitems :: "string \<Rightarrow> (json list \<times> string) option"
  and pmembers :: "string \<Rightarrow> ((string \<times> json) list \<times> string) option" where
  "pval s =
     (case s of
        [] \<Rightarrow> None
      | c # r \<Rightarrow>
          if c = CHR 0x22 then map_option (apfst JStr) (pstr r)
          else if c = CHR ''['' then
            (case skip_ws r of
               [] \<Rightarrow> None
             | d # r1 \<Rightarrow> if d = CHR '']'' then Some (JArr [], r1)
                         else map_option (apfst JArr) (pitems (d # r1)))
          else if c = CHR 0x7B then
            (case skip_ws r of
               [] \<Rightarrow> None
             | d # r1 \<Rightarrow> if d = CHR 0x7D then Some (JObj [], r1)
                         else map_option (apfst (\<lambda>ms. JObj (dupdate [] ms))) (pmembers (d # r1)))
          else plit s)"
| "pitems s =
     (case pval s of
        None \<Rightarrow> None
      | Some (v, r) \<Rightarrow>
          (case skip_ws r of
             [] \<Rightarrow> None
           | c # r1 \<Rightarrow>
               if c = CHR '']'' then Some ([v], r1)
               else if c = CHR '','' \<and> length (skip_ws r1) < length s
               then map_option (apfst ((#) v)) (pitems (skip_ws r1))
               else None))"
| "pmembers s =
     (case s of
        [] \<Rightarrow> None
      | q # r \<Rightarrow>
          if q \<noteq> CHR 0x22 then None
          else (case pstr r of
             None \<Rightarrow> None
           | Some (k, r1) \<Rightarrow>
               (case skip_ws r1 of
                  [] \<Rightarrow> None
                | c # r2 \<Rightarrow>
                    if c \<noteq> CHR '':'' \<or> length (skip_ws r2) \<ge> length s then None
                    else (case pval (skip_ws r2) of
                       None \<Rightarrow> None
                     | Some (v, r3) \<Rightarrow>
                         (case skip_ws r3 of
                            [] \<Rightarrow> None
                          | e # r4 \<Rightarrow>
                              if e = CHR 0x7D then Some ([(k, v)], r4)
                              else if e = CHR '','' \<and> length (skip_ws r4) < length s
                              then map_option (apfst ((#) (k, v))) (pmembers (skip_ws r4))
                              else None)))))"
  by pat_completeness auto
termination
  by (relation "measure (\<lambda>x. case x of Inl s \<Rightarrow> 2 * length s | Inr (Inl s) \<Rightarrow> 2 * length s + 1
        | Inr (Inr s) \<Rightarrow> 2 * length s + 1)")
    (auto dest: dropWhile_Cons_shorter)

declare pval.simps [simp del] pitems.simps [simp del] pmembers.simps [simp del]

definition loads :: "string \<Rightarrow> json option" where
  "loads s =
     (case pval (skip_ws s) of
        None \<Rightarrow> None
      | Some (v, r) \<Rightarrow> if skip_ws r = [] then Some v else None)"

section \<open>Round trip\<close>

text \<open>A float lexeme without exponent: an integer, a point, digits.\<close>

definition float_lexeme :: "string \<Rightarrow> bool" where
  "float_lexeme t =
     (let s = (case t of c # r \<Rightarrow> if c = CHR ''-'' then r else t | [] \<Rightarrow> []);
          i = takeWhile is_digit s in
      i \<noteq> [] \<and> (hd i = CHR ''0'' \<longrightarrow> length i = 1) \<and>
      (case dropWhile is_digit s of c # f \<Rightarrow> c = CHR ''.'' \<and> f \<noteq> [] \<and> list_all is_digit f | [] \<Rightarrow> False))"

text \<open>Values whose printed form determines them: floats without exponent, and no key twice in an
  object.\<close>

fun json_exact :: "json \<Rightarrow> bool" where
  "json_exact (JFloat t) \<longleftrightarrow> float_lexeme t"
| "json_exact (JArr xs) \<longleftrightarrow> (\<forall>x \<in> set xs. json_exact x)"
| "json_exact (JObj d) \<longleftrightarrow> distinct (map fst d) \<and> (\<forall>p \<in> set d. json_exact (snd p))"
| "json_exact j \<longleftrightarrow> True"

definition fmt_ok :: "jfmt \<Rightarrow> bool" where
  "fmt_ok f \<longleftrightarrow> (\<forall>c \<in> set (item_pad f) \<union> set (key_pad f). jws c)"

lemma fmt_ok_simps [simp]:
  "fmt_ok (fmt_default ea)" "fmt_ok (fmt_compact ea)" "fmt_ok (fmt_indent2 ea)"
  by (simp_all add: fmt_ok_def fmt_default_def fmt_compact_def fmt_indent2_def jws_def)

text \<open>What may follow a number without becoming part of it.\<close>

definition num_stop :: "string \<Rightarrow> bool" where
  "num_stop s \<longleftrightarrow>
     (case s of [] \<Rightarrow> True | c # _ \<Rightarrow> \<not> is_digit c \<and> c \<notin> {CHR ''.'', CHR ''e'', CHR ''E''})"

lemma num_stop_simps [simp]:
  "num_stop []"
  "num_stop (c # s) \<longleftrightarrow> \<not> is_digit c \<and> c \<notin> {CHR ''.'', CHR ''e'', CHR ''E''}"
  by (simp_all add: num_stop_def)

lemma num_stop_ws: "\<forall>c \<in> set w. jws c \<Longrightarrow> num_stop s \<Longrightarrow> num_stop (w @ s)"
  by (cases w) (auto simp: jws_def char_class_defs)

lemma nl_ws: "\<forall>c \<in> set (nl f l). jws c"
  by (auto simp: nl_def jws_def split: option.splits)

lemma skip_ws_append: "\<forall>c \<in> set w. jws c \<Longrightarrow> skip_ws (w @ s) = skip_ws s"
  by (induction w) auto

lemma skip_ws_id: "s \<noteq> [] \<Longrightarrow> \<not> jws (hd s) \<Longrightarrow> skip_ws s = s"
  by (cases s) auto

subsection \<open>Strings\<close>

lemma hex_val_hex_ch: "d < 16 \<Longrightarrow> hex_val (hex_ch d) = Some d"
  by (auto simp: hex_val_def hex_ch_def is_digit_def)

lemma char_of_halves: "char_of (16 * (code c div 16) + code c mod 16) = c"
  by simp

lemma pstr_esc_ch: "pstr (esc_ch ea c @ t) = map_option (apfst ((#) c)) (pstr t)"
proof (cases "esc_ch ea c = esc_u c")
  case True
  have "code c < 256" by simp
  then have "code c div 16 < 16" "code c mod 16 < 16" by presburger+
  with True show ?thesis
    by (simp add: esc_u_def hex_val_hex_ch hex_val_def[of "CHR ''0''"] is_digit_def)
next
  case False
  then show ?thesis by (auto simp: esc_ch_def unesc_def)
qed

lemma pstr_dump: "pstr (concat (map (esc_ch ea) s) @ CHR 0x22 # rest) = Some (s, rest)"
  by (induction s) (simp_all add: pstr_esc_ch)

subsection \<open>Numbers\<close>

lemma hd_nat_str: "hd (nat_str n) = CHR ''0'' \<longleftrightarrow> n = 0"
proof (induction n rule: nat_str.induct)
  case (1 n)
  show ?case
  proof (cases "n < 10")
    case True
    have "digit_ch n = CHR ''0'' \<longleftrightarrow> code (digit_ch n) = 48"
      using of_char_eq_iff[where 'a = nat, of "digit_ch n" "CHR ''0''"] by simp
    with True show ?thesis by (subst nat_str.simps) simp
  next
    case False
    with 1 show ?thesis by (subst nat_str.simps) simp
  qed
qed

lemma takeWhile_digits:
  "\<forall>c \<in> set ds. is_digit c \<Longrightarrow> num_stop rest \<Longrightarrow> takeWhile is_digit (ds @ rest) = ds"
  by (cases rest) auto

lemma pfrac_stop: "num_stop rest \<Longrightarrow> pfrac rest = ([], rest)"
  by (cases rest) (auto simp: pfrac_def)

lemma pexp_stop: "num_stop rest \<Longrightarrow> pexp rest = ([], rest)"
  by (cases rest) (auto simp: pexp_def)

lemma pnum_rest_stop:
  "num_stop r \<Longrightarrow> ds \<noteq> [] \<Longrightarrow>
    pnum_rest neg ds r = Some (JInt (if neg then - int (digits_val ds) else int (digits_val ds)), r)"
  by (simp add: pnum_rest_def pfrac_stop pexp_stop)

lemma int_lexeme_nat_str:
  assumes "num_stop rest"
  shows "int_lexeme (nat_str n @ rest) = nat_str n"
proof -
  obtain c cs where c: "nat_str n = c # cs" by (cases "nat_str n") auto
  have tw: "takeWhile is_digit (nat_str n @ rest) = nat_str n"
    by (rule takeWhile_digits[OF nat_str_digits assms])
  show ?thesis
  proof (cases "c = CHR ''0''")
    case True
    then have "n = 0" using hd_nat_str[of n] c by simp
    then have "cs = []" using c by (simp add: nat_str.simps[of 0])
    with True c show ?thesis by (simp add: int_lexeme_def)
  next
    case False
    with tw show ?thesis by (simp add: int_lexeme_def c)
  qed
qed

text \<open>The first character of a printed number is a digit or a minus sign that a digit follows.\<close>

lemma nat_str_Cons: obtains c cs where "nat_str n = c # cs" "is_digit c"
  using nat_str_digits[of n] nat_str_nonempty[of n] by (metis list.exhaust list.set_intros(1))

lemma digit_not_lit:
  "is_digit c \<Longrightarrow> c \<notin> {CHR ''n'', CHR ''t'', CHR ''f'', CHR ''N'', CHR ''I'', CHR ''-''}"
  by (auto simp: is_digit_def)

lemma pnum_nat_str:
  assumes "num_stop rest"
  shows "pnum (nat_str n @ rest) = Some (JInt (int n), rest)"
    and "pnum (CHR ''-'' # nat_str n @ rest) = Some (JInt (- int n), rest)"
proof -
  obtain c cs where c: "nat_str n = c # cs" "is_digit c" by (rule nat_str_Cons)
  then have "(case nat_str n @ rest of c # _ \<Rightarrow> c = CHR ''-'' | [] \<Rightarrow> False) = False"
    using digit_not_lit[OF c(2)] by simp
  then show "pnum (nat_str n @ rest) = Some (JInt (int n), rest)"
    by (simp add: pnum_def int_lexeme_nat_str assms pnum_rest_stop)
  show "pnum (CHR ''-'' # nat_str n @ rest) = Some (JInt (- int n), rest)"
    by (simp add: pnum_def int_lexeme_nat_str assms pnum_rest_stop)
qed

lemma pnum_int_str: "num_stop rest \<Longrightarrow> pnum (int_str i @ rest) = Some (JInt i, rest)"
  by (cases "i < 0") (simp_all add: int_str_def pnum_nat_str)

lemma plit_digit: "is_digit c \<Longrightarrow> plit (c # r) = pnum (c # r)"
  using digit_not_lit[of c] by (simp add: plit_def eq_commute[of _ c])

lemma plit_minus: "is_digit c \<Longrightarrow> plit (CHR ''-'' # c # r) = pnum (CHR ''-'' # c # r)"
  using digit_not_lit[of c] by (simp add: plit_def eq_commute[of _ c])

lemma plit_int_str: "plit (int_str i @ rest) = pnum (int_str i @ rest)"
proof (cases "i < 0")
  case True
  obtain c cs where "nat_str (nat (- i)) = c # cs" "is_digit c" by (rule nat_str_Cons)
  with True show ?thesis by (simp add: int_str_def plit_minus)
next
  case False
  obtain c cs where "nat_str (nat i) = c # cs" "is_digit c" by (rule nat_str_Cons)
  with False show ?thesis by (simp add: int_str_def plit_digit)
qed

lemma pfrac_digits:
  assumes "num_stop rest" "f \<noteq> []" "list_all is_digit f"
  shows "pfrac (CHR ''.'' # f @ rest) = (CHR ''.'' # f, rest)"
proof -
  have "takeWhile is_digit (f @ rest) = f"
    using assms by (intro takeWhile_digits) (simp_all add: list_all_iff)
  moreover from this have "dropWhile is_digit (f @ rest) = rest"
    by (metis append_eq_append_conv takeWhile_dropWhile_id)
  ultimately show ?thesis using assms(2) by (simp add: pfrac_def)
qed

lemma int_lexeme_stop:
  assumes "i \<noteq> []" "list_all is_digit i" "hd i = CHR ''0'' \<Longrightarrow> length i = 1" "\<not> is_digit c"
  shows "int_lexeme (i @ c # r) = i"
proof (cases "hd i = CHR ''0''")
  case True
  then have "i = [CHR ''0'']" using assms(1,3) by (cases i) auto
  then show ?thesis by (simp add: int_lexeme_def)
next
  case False
  obtain d ds where "i = d # ds" using assms(1) by (cases i) auto
  with False assms(2,4) show ?thesis by (simp add: int_lexeme_def takeWhile_append list_all_iff)
qed

lemma pnum_rest_float:
  assumes "num_stop rest" "f \<noteq> []" "list_all is_digit f" "i \<noteq> []"
  shows "pnum_rest neg i (CHR ''.'' # f @ rest) =
    Some (JFloat ((if neg then ''-'' else []) @ i @ CHR ''.'' # f), rest)"
  using assms by (simp add: pnum_rest_def pfrac_digits pexp_stop)

lemma float_lexeme_parts:
  assumes "float_lexeme t"
  obtains neg i f where "t = (if neg then ''-'' else []) @ i @ CHR ''.'' # f" "i \<noteq> []" "list_all is_digit i"
    "hd i = CHR ''0'' \<Longrightarrow> length i = 1" "f \<noteq> []" "list_all is_digit f"
proof -
  define neg where "neg = (case t of c # r \<Rightarrow> c = CHR ''-'' | [] \<Rightarrow> False)"
  define s where "s = (case t of c # r \<Rightarrow> if c = CHR ''-'' then r else t | [] \<Rightarrow> [])"
  define i where "i = takeWhile is_digit s"
  have t: "t = (if neg then ''-'' else []) @ s" by (cases t) (auto simp: neg_def s_def)
  from assms obtain f where f: "dropWhile is_digit s = CHR ''.'' # f" "f \<noteq> []" "list_all is_digit f"
    and i: "i \<noteq> []" "hd i = CHR ''0'' \<longrightarrow> length i = 1"
    by (auto simp: float_lexeme_def s_def[symmetric] i_def Let_def split: list.splits)
  have "s = i @ CHR ''.'' # f" using f(1) by (metis i_def takeWhile_dropWhile_id)
  moreover have "list_all is_digit i" by (auto simp: i_def list_all_iff dest: set_takeWhileD)
  ultimately show ?thesis using that t i f by blast
qed

lemma plit_float:
  assumes "float_lexeme t" "num_stop rest"
  shows "plit (t @ rest) = Some (JFloat t, rest)"
proof -
  obtain neg i f where t: "t = (if neg then ''-'' else []) @ i @ CHR ''.'' # f" "i \<noteq> []" "list_all is_digit i"
    "hd i = CHR ''0'' \<Longrightarrow> length i = 1" "f \<noteq> []" "list_all is_digit f"
    using float_lexeme_parts[OF assms(1)] by blast
  obtain d ds where i: "i = d # ds" "is_digit d" using t(2,3) by (cases i) auto
  have il: "int_lexeme (i @ CHR ''.'' # f @ rest) = i"
    by (rule int_lexeme_stop[OF t(2-4)]) (simp_all add: is_digit_def)
  have "plit (t @ rest) = pnum (t @ rest)"
    using i t(1) by (cases neg) (simp_all add: plit_minus plit_digit)
  also have "\<dots> = pnum_rest neg i (CHR ''.'' # f @ rest)"
  proof (cases neg)
    case True
    then show ?thesis using t(1) il by (simp add: pnum_def)
  next
    case False
    have "d \<noteq> CHR ''-''" using digit_not_lit[OF i(2)] by simp
    then have "(case i @ CHR ''.'' # f @ rest of c # _ \<Rightarrow> c = CHR ''-'' | [] \<Rightarrow> False) = False"
      using i by simp
    with False show ?thesis using t(1) il by (simp add: pnum_def)
  qed
  also have "\<dots> = Some (JFloat t, rest)"
    using pnum_rest_float[OF assms(2) t(5,6,2), of neg] t(1) by simp
  finally show ?thesis .
qed

subsection \<open>Values\<close>

definition reads :: "string \<Rightarrow> json \<Rightarrow> bool" where
  "reads d j \<longleftrightarrow>
     d \<noteq> [] \<and> \<not> jws (hd d) \<and> hd d \<notin> {CHR '']'', CHR 0x7D} \<and>
     (\<forall>rest. num_stop rest \<longrightarrow> pval (d @ rest) = Some (j, rest))"

lemma readsD: "reads d j \<Longrightarrow> num_stop rest \<Longrightarrow> pval (d @ rest) = Some (j, rest)"
  by (simp add: reads_def)

lemma skip_ws_reads: "reads d j \<Longrightarrow> skip_ws (d @ rest) = d @ rest"
  by (rule skip_ws_id) (auto simp: reads_def)

lemma pitems_join:
  assumes "list_all2 reads ds xs" "ds \<noteq> []"
    and w: "\<forall>c \<in> set w. jws c" and w': "\<forall>c \<in> set w'. jws c"
  shows "pitems (py_join (CHR '','' # w) ds @ w' @ CHR '']'' # rest) = Some (xs, rest)"
  using assms(1,2)
proof (induction ds xs rule: list_all2_induct)
  case (Cons d ds x xs)
  show ?case
  proof (cases ds)
    case Nil
    with Cons.hyps have "xs = []" by simp
    have "num_stop (w' @ CHR '']'' # rest)"
      by (rule num_stop_ws[OF w']) (simp add: is_digit_def)
    then have "pval (d @ w' @ CHR '']'' # rest) = Some (x, w' @ CHR '']'' # rest)"
      by (rule readsD[OF Cons.hyps(1)])
    moreover have "skip_ws (w' @ CHR '']'' # rest) = CHR '']'' # rest"
      by (simp add: skip_ws_append[OF w'] jws_def)
    ultimately show ?thesis using Nil \<open>xs = []\<close> by (subst pitems.simps) simp
  next
    case (Cons e es)
    define s where "s = py_join (CHR '','' # w) ds @ w' @ CHR '']'' # rest"
    have IH: "pitems s = Some (xs, rest)" using Cons.IH Cons by (simp add: s_def)
    obtain y where "reads e y" using Cons.hyps Cons by (auto simp: list_all2_Cons1)
    then have "skip_ws (w @ s) = s"
      using Cons by (cases es) (auto simp: s_def skip_ws_append[OF w] intro: skip_ws_reads)
    moreover have "pval (d @ CHR '','' # w @ s) = Some (x, CHR '','' # w @ s)"
      by (rule readsD[OF Cons.hyps(1)]) (simp add: is_digit_def)
    ultimately show ?thesis using IH Cons
      by (subst pitems.simps) (simp add: s_def jws_def)
  qed
qed simp

definition reads_member :: "string \<Rightarrow> bool \<Rightarrow> string \<Rightarrow> string \<times> json \<Rightarrow> bool" where
  "reads_member kp ea d p \<longleftrightarrow> (\<exists>dv. d = dump_str ea (fst p) @ CHR '':'' # kp @ dv \<and> reads dv (snd p))"

lemma pmembers_join:
  assumes "list_all2 (reads_member kp ea) ds ps" "ds \<noteq> []"
    and kp: "\<forall>c \<in> set kp. jws c"
    and w: "\<forall>c \<in> set w. jws c" and w': "\<forall>c \<in> set w'. jws c"
  shows "pmembers (py_join (CHR '','' # w) ds @ w' @ CHR 0x7D # rest) = Some (ps, rest)"
  using assms(1,2)
proof (induction ds ps rule: list_all2_induct)
  case (Cons d ds p ps)
  obtain k v where p: "p = (k, v)" by (cases p)
  obtain dv where d: "d = dump_str ea k @ CHR '':'' # kp @ dv" and v: "reads dv v"
    using Cons.hyps(1) p by (auto simp: reads_member_def)
  have sk: "skip_ws (kp @ dv @ t) = dv @ t" for t
    using skip_ws_append[OF kp] skip_ws_reads[OF v] by simp
  show ?case
  proof (cases ds)
    case Nil
    with Cons.hyps have "ps = []" by simp
    have "num_stop (w' @ CHR 0x7D # rest)"
      by (rule num_stop_ws[OF w']) (simp add: is_digit_def)
    then have "pval (dv @ w' @ CHR 0x7D # rest) = Some (v, w' @ CHR 0x7D # rest)"
      by (rule readsD[OF v])
    moreover have "skip_ws (w' @ CHR 0x7D # rest) = CHR 0x7D # rest"
      by (simp add: skip_ws_append[OF w'] jws_def)
    ultimately show ?thesis using Nil \<open>ps = []\<close>
      by (subst pmembers.simps) (simp add: d p dump_str_def pstr_dump sk jws_def)
  next
    case (Cons e es)
    define s where "s = py_join (CHR '','' # w) ds @ w' @ CHR 0x7D # rest"
    have IH: "pmembers s = Some (ps, rest)" using Cons.IH Cons by (simp add: s_def)
    have "hd s = CHR 0x22" "s \<noteq> []" using Cons.hyps Cons
      by (cases es; auto simp: s_def list_all2_Cons1 reads_member_def dump_str_def)+
    then have "skip_ws (w @ s) = s"
      by (simp add: skip_ws_append[OF w] skip_ws_id jws_def)
    moreover have "pval (dv @ CHR '','' # w @ s) = Some (v, CHR '','' # w @ s)"
      by (rule readsD[OF v]) (simp add: is_digit_def)
    ultimately show ?thesis using IH Cons
      by (subst pmembers.simps) (simp add: d p dump_str_def pstr_dump sk s_def jws_def)
  qed
qed simp

lemma dupdate_append: "distinct (map fst (d @ e)) \<Longrightarrow> dupdate d e = d @ e"
proof (induction e arbitrary: d)
  case (Cons p e)
  obtain k v where p: "p = (k, v)" by (cases p)
  with Cons.prems have "dset k v d = d @ [(k, v)]"
    by (induction d) auto
  with Cons p show ?case by (simp add: dupdate_def)
qed (simp add: dupdate_def)

lemma reads_bracket:
  assumes "ds \<noteq> []" and "fmt_ok f"
  shows "list_all2 reads ds xs \<Longrightarrow> reads (bracket f l (CHR ''['') (CHR '']'') ds) (JArr xs)"
    and "list_all2 (reads_member (key_pad f) ea) ds ps \<Longrightarrow> distinct (map fst ps) \<Longrightarrow>
      reads (bracket f l (CHR 0x7B) (CHR 0x7D) ds) (JObj ps)"
proof -
  define w where "w = item_pad f @ nl f (Suc l)"
  have w: "\<forall>c \<in> set w. jws c" using assms(2) nl_ws by (auto simp: w_def fmt_ok_def)
  have kp: "\<forall>c \<in> set (key_pad f). jws c" using assms(2) by (auto simp: fmt_ok_def)
  obtain d ds' where ds: "ds = d # ds'" using assms(1) by (cases ds) auto
  define t where "t rest b = py_join (CHR '','' # w) ds @ nl f l @ b # rest" for rest b
  have br: "bracket f l a b ds @ rest = a # nl f (Suc l) @ t rest b" for a b rest
    using assms(1) by (simp add: bracket_def t_def w_def)
  have hd_t: "\<exists>r. t rest b = d @ r" for rest b by (cases ds') (auto simp: t_def ds)
  {
    assume A: "list_all2 reads ds xs"
    then obtain x where x: "reads d x" using ds by (auto simp: list_all2_Cons1)
    have "pval (bracket f l (CHR ''['') (CHR '']'') ds @ rest) = Some (JArr xs, rest)" for rest
    proof -
      have "pitems (t rest (CHR '']'')) = Some (xs, rest)"
        unfolding t_def by (rule pitems_join[OF A assms(1) w nl_ws])
      moreover obtain r where "t rest (CHR '']'') = d @ r" using hd_t by blast
      moreover have "d \<noteq> []" "hd d \<noteq> CHR '']''" "\<not> jws (hd d)" using x by (auto simp: reads_def)
      ultimately show ?thesis
        by (subst pval.simps, cases d) (auto simp: br skip_ws_append[OF nl_ws])
    qed
    then show "reads (bracket f l (CHR ''['') (CHR '']'') ds) (JArr xs)"
      using assms(1) by (auto simp: reads_def bracket_def jws_def)
  next
    assume A: "list_all2 (reads_member (key_pad f) ea) ds ps" and dist: "distinct (map fst ps)"
    then have hd: "d \<noteq> []" "hd d = CHR 0x22"
      using ds by (auto simp: list_all2_Cons1 reads_member_def dump_str_def)
    have "pval (bracket f l (CHR 0x7B) (CHR 0x7D) ds @ rest) = Some (JObj ps, rest)" for rest
    proof -
      have "pmembers (t rest (CHR 0x7D)) = Some (ps, rest)"
        unfolding t_def by (rule pmembers_join[OF A assms(1) kp w nl_ws])
      moreover obtain r where "t rest (CHR 0x7D) = d @ r" using hd_t by blast
      moreover have "dupdate [] ps = ps" using dupdate_append[of "[]" ps] dist by simp
      ultimately show ?thesis using hd
        by (subst pval.simps, cases d) (auto simp: br skip_ws_append[OF nl_ws] jws_def)
    qed
    then show "reads (bracket f l (CHR 0x7B) (CHR 0x7D) ds) (JObj ps)"
      using assms(1) by (auto simp: reads_def bracket_def jws_def)
  }
qed

lemma reads_scalar:
  "reads ''null'' JNull" "reads ''true'' (JBool True)" "reads ''false'' (JBool False)"
  "reads (int_str i) (JInt i)" "reads (dump_str ea s) (JStr s)"
  "reads [CHR ''['', CHR '']''] (JArr [])" "reads [CHR 0x7B, CHR 0x7D] (JObj [])"
proof -
  have *: "\<exists>c cs. int_str i = c # cs \<and> (is_digit c \<or> c = CHR ''-'')"
    using nat_str_digits[of "nat i"] by (cases "nat_str (nat i)") (auto simp: int_str_def)
  then obtain c cs where c: "int_str i = c # cs" "is_digit c \<or> c = CHR ''-''" by blast
  then have "pval (int_str i @ rest) = plit (int_str i @ rest)" for rest
    by (subst pval.simps) (auto simp: is_digit_def)
  then have "num_stop rest \<longrightarrow> pval (int_str i @ rest) = Some (JInt i, rest)" for rest
    by (simp add: plit_int_str pnum_int_str)
  moreover have "int_str i \<noteq> []" "\<not> jws (hd (int_str i))" "hd (int_str i) \<notin> {CHR '']'', CHR 0x7D}"
    using c by (auto simp: is_digit_def jws_def)
  ultimately show "reads (int_str i) (JInt i)" by (simp add: reads_def)
qed (simp_all add: reads_def pval.simps plit_def jws_def dump_str_def pstr_dump)

lemma reads_float: "float_lexeme t \<Longrightarrow> reads t (JFloat t)"
proof -
  assume fl: "float_lexeme t"
  then obtain neg i f where t: "t = (if neg then ''-'' else []) @ i @ CHR ''.'' # f" "i \<noteq> []" "list_all is_digit i"
    using float_lexeme_parts by metis
  obtain c r where c: "t = c # r" "is_digit c \<or> c = CHR ''-''"
    using t by (cases i; cases neg) auto
  then have "pval (t @ rest) = plit (t @ rest)" for rest
    by (subst pval.simps) (auto simp: is_digit_def)
  then have "num_stop rest \<longrightarrow> pval (t @ rest) = Some (JFloat t, rest)" for rest
    using plit_float[OF fl] by simp
  moreover have "t \<noteq> []" "\<not> jws (hd t)" "hd t \<notin> {CHR '']'', CHR 0x7D}"
    using c by (auto simp: is_digit_def jws_def)
  ultimately show ?thesis by (simp add: reads_def)
qed

lemma reads_dump: "json_exact j \<Longrightarrow> fmt_ok f \<Longrightarrow> reads (dump f l j) j"
proof (induction f l j rule: dump.induct)
  case (6 f l xs)
  show ?case
  proof (cases "xs = []")
    case False
    have "list_all2 reads (map (dump f (Suc l)) xs) xs"
      using 6 by (auto simp: list_all2_conv_all_nth)
    with False 6 show ?thesis by (auto intro: reads_bracket)
  qed (simp add: bracket_def reads_scalar)
next
  case (7 f l d)
  show ?case
  proof (cases "d = []")
    case False
    have "list_all2 (reads_member (key_pad f) (ensure_ascii f))
      (map (\<lambda>(k, v). dump_str (ensure_ascii f) k @ CHR '':'' # key_pad f @ dump f (Suc l) v) d) d"
      unfolding list_all2_map1
    proof (rule list.rel_refl_strong)
      fix p assume p: "p \<in> set d"
      obtain k v where kv: "p = (k, v)" by (cases p)
      with p 7 have "reads (dump f (Suc l) v) v" by force
      with kv show "reads_member (key_pad f) (ensure_ascii f) (case p of (k, v) \<Rightarrow>
          dump_str (ensure_ascii f) k @ CHR '':'' # key_pad f @ dump f (Suc l) v) p"
        by (auto simp: reads_member_def)
    qed
    with False 7 show ?thesis by (auto intro: reads_bracket)
  qed (simp add: bracket_def reads_scalar)
qed (simp_all add: reads_scalar reads_float)

lemma loads_dumps_ws:
  assumes "json_exact j" "fmt_ok f" and w: "\<forall>c \<in> set w. jws c"
  shows "loads (dumps f j @ w) = Some j"
proof -
  have r: "reads (dump f 0 j) j" by (rule reads_dump[OF assms(1,2)])
  have "num_stop w" using num_stop_ws[OF w, of "[]"] by simp
  moreover have "skip_ws w = []" using w by simp
  ultimately show ?thesis
    using skip_ws_reads[OF r, of w] readsD[OF r, of w] by (simp add: loads_def dumps_def)
qed

lemma loads_dumps: "json_exact j \<Longrightarrow> fmt_ok f \<Longrightarrow> loads (dumps f j) = Some j"
  using loads_dumps_ws[of j f "[]"] by simp

section \<open>What a printed value consists of\<close>

text \<open>Every string of the value, keys included, consists of characters with the property.\<close>

fun all_chars :: "(char \<Rightarrow> bool) \<Rightarrow> json \<Rightarrow> bool" where
  "all_chars P (JStr s) \<longleftrightarrow> list_all P s"
| "all_chars P (JArr xs) \<longleftrightarrow> (\<forall>x \<in> set xs. all_chars P x)"
| "all_chars P (JObj d) \<longleftrightarrow> (\<forall>p \<in> set d. list_all P (fst p) \<and> all_chars P (snd p))"
| "all_chars P _ \<longleftrightarrow> True"

lemma hex_ch_code: "d < 16 \<Longrightarrow> 48 \<le> code (hex_ch d) \<and> code (hex_ch d) \<le> 102"
  by (auto simp: hex_ch_def)

lemma py_join_set: "set (py_join sep ps) \<subseteq> set sep \<union> \<Union> (set ` set ps)"
  by (induction sep ps rule: py_join.induct) auto

lemma float_lexeme_chars: "float_lexeme t \<Longrightarrow> c \<in> set t \<Longrightarrow> is_digit c \<or> c = CHR ''.'' \<or> c = CHR ''-''"
proof -
  assume f: "float_lexeme t" and c: "c \<in> set t"
  define s where "s = (case t of c # r \<Rightarrow> if c = CHR ''-'' then r else t | [] \<Rightarrow> [])"
  have "case dropWhile is_digit s of c # f \<Rightarrow> c = CHR ''.'' \<and> f \<noteq> [] \<and> list_all is_digit f | [] \<Rightarrow> False"
    using f unfolding float_lexeme_def Let_def s_def by (elim conjE)
  then obtain fr where fr: "dropWhile is_digit s = CHR ''.'' # fr" "list_all is_digit fr"
    by (cases "dropWhile is_digit s") auto
  have "c = CHR ''-'' \<or> c \<in> set s" using c by (cases t) (auto simp: s_def)
  moreover have "set s = set (takeWhile is_digit s) \<union> set (dropWhile is_digit s)"
    by (simp only: set_append[symmetric] takeWhile_dropWhile_id)
  moreover have "is_digit c" if "c \<in> set (takeWhile is_digit s)" using that set_takeWhileD by metis
  moreover have "is_digit c \<or> c = CHR ''.''" if "c \<in> set (dropWhile is_digit s)"
    using that fr by (auto simp: list_all_iff)
  ultimately show ?thesis by blast
qed

text \<open>A character of the printed form is printable ASCII, or stands in a string.\<close>

definition shown :: "(char \<Rightarrow> bool) \<Rightarrow> char \<Rightarrow> bool" where
  "shown P c \<longleftrightarrow> 32 \<le> code c \<and> (code c < 127 \<or> P c)"

lemma shown_plain: "32 \<le> code c \<Longrightarrow> code c < 127 \<Longrightarrow> shown P c"
  by (simp add: shown_def)

lemma shown_hex: "d < 16 \<Longrightarrow> shown P (hex_ch d)"
  using hex_ch_code[of d] by (intro shown_plain) auto

lemma list_all_if: "(b \<Longrightarrow> list_all Q x) \<Longrightarrow> (\<not> b \<Longrightarrow> list_all Q y) \<Longrightarrow> list_all Q (if b then x else y)"
  by simp

lemma shown_esc: "P c \<Longrightarrow> list_all (shown P) (esc_ch ea c)"
proof -
  assume c: "P c"
  have d: "code c div 16 < 16" "code c mod 16 < 16" by (simp_all add: div_less_iff_less_mult)
  have u: "list_all (shown P) (esc_u c)"
    unfolding esc_u_def list.pred_inject(2) by (intro conjI shown_hex d shown_plain) simp_all
  have k: "list_all (shown P) [CHR 0x5C, x]" if "x \<in> set [CHR 0x22, CHR 0x5C, CHR ''n'', CHR ''r'', CHR ''t'', CHR ''f'', CHR ''b'']" for x
    using that by (auto simp: shown_plain)
  have r: "list_all (shown P) (if code c < 32 \<or> ea \<and> 127 \<le> code c then esc_u c else [c])"
    using u c by (auto simp: shown_def)
  show ?thesis unfolding esc_ch_def by (intro list_all_if k r) simp_all
qed

lemma shown_digit: "is_digit c \<or> c = CHR ''.'' \<or> c = CHR ''-'' \<Longrightarrow> shown P c"
  by (auto simp: shown_def is_digit_def)

lemma shown_str: "list_all P s \<Longrightarrow> list_all (shown P) (dump_str ea s)"
proof -
  assume "list_all P s"
  then have "list_all (shown P) (concat (map (esc_ch ea) s))" by (induction s) (simp_all add: shown_esc)
  then show ?thesis by (simp add: dump_str_def shown_plain)
qed

lemma shown_bracket:
  assumes "\<forall>p \<in> set ps. list_all (shown P) p" "shown P a" "shown P b"
  shows "list_all (shown P) (bracket (fmt_default ea) l a b ps)"
proof -
  have "shown P (CHR '','')" "shown P (CHR '' '')" by (simp_all add: shown_def)
  then have "list_all (shown P) (py_join '', '' ps)"
    using assms(1) py_join_set[of "'', ''" ps] by (auto simp: list_all_iff)
  with assms show ?thesis by (simp add: bracket_def nl_def fmt_default_def)
qed

lemma dump_shown: "json_exact j \<Longrightarrow> all_chars P j \<Longrightarrow> list_all (shown P) (dump (fmt_default ea) l j)"
proof (induction "fmt_default ea" l j rule: dump.induct)
  case (3 l i)
  show ?case unfolding dump.simps list_all_iff using int_str_chars[of _ i] shown_digit by blast
next
  case (4 l t)
  show ?case unfolding dump.simps list_all_iff using float_lexeme_chars[of t] 4(1) shown_digit by auto
next
  case (5 l s)
  then show ?case by (simp add: shown_str)
next
  case (6 l xs)
  then show ?case by (auto intro!: shown_bracket simp: shown_def)
next
  case (7 l d)
  have ea: "ensure_ascii (fmt_default ea) = ea" by (simp add: fmt_default_def)
  have "list_all (shown P) (dump_str ea k @ CHR '':'' # key_pad (fmt_default ea) @ dump (fmt_default ea) (Suc l) v)"
    if "(k, v) \<in> set d" for k v
    proof -
    have "list_all P k" "json_exact v" "all_chars P v" using 7(2,3) that by auto
    moreover from this have "list_all (shown P) (dump (fmt_default ea) (Suc l) v)" using 7(1)[OF that refl] by blast
    ultimately show ?thesis using shown_str[of P k ea] by (simp add: fmt_default_def shown_def)
  qed
  then have "\<forall>p \<in> set (map (\<lambda>(k, v). dump_str ea k @ CHR '':'' # key_pad (fmt_default ea) @ dump (fmt_default ea) (Suc l) v) d).
      list_all (shown P) p" by auto
  then show ?case unfolding dump.simps ea by (rule shown_bracket) (simp_all add: shown_def)
qed (auto simp: shown_def)

end
