(* ===== verification/GatewayPolicy.thy ===== *)
theory GatewayPolicy
  imports Json
begin

text \<open>
  The policy of the MCP gateway (\<^verbatim>\<open>home/rdm/gateway/policy.py\<close>, \<^verbatim>\<open>gateway/data.py\<close>): names of
  exposed tools, the registry that gives every exposed tool a unique key, and the decision on
  one tool call with its lexical path containment. Log lines are not modelled.
\<close>

section \<open>Data\<close>

definition DEFAULT_DENY_SERVERS :: "string list" where
  "DEFAULT_DENY_SERVERS = [''stitch-manager'', ''lgm'', ''ssh'', ''playwright'']"

definition META_TOOL_DENY :: "string list" where
  "META_TOOL_DENY = [''execute_any'', ''list_mcp_commands'', ''import_accounts_payload'',
     ''bulk_export_accounts'', ''import_secrets'']"

definition NETWORK_EGRESS_SERVERS :: "string list" where
  "NETWORK_EGRESS_SERVERS = [''websearch'', ''context7'']"

definition SECRET_TOUCHING_SERVERS :: "string list" where
  "SECRET_TOUCHING_SERVERS = [''stitch-manager'', ''lgm'', ''ssh'', ''playwright'', ''stitch-totp'',
     ''stitch-mail'']"

definition ARG_CONSTRAINTS :: "(string, (string, string) dict) dict" where
  "ARG_CONSTRAINTS = [(''codegraph'', [(''projectPath'', ''project_dir'')])]"

section \<open>Names\<close>

text \<open>\<^verbatim>\<open>[a-z0-9][a-z0-9-]*\<close>, matched against the whole name.\<close>

definition name_ch :: "char \<Rightarrow> bool" where
  "name_ch c \<longleftrightarrow> is_lower_az c \<or> is_digit c"

definition valid_server_name :: "string \<Rightarrow> bool" where
  "valid_server_name s =
     (case s of [] \<Rightarrow> False | c # cs \<Rightarrow> name_ch c \<and> list_all (\<lambda>d. name_ch d \<or> d = CHR ''-'') cs)"

definition TOOL_NAME_MAX :: nat where
  "TOOL_NAME_MAX = 64"

definition exposed_tool_name :: "string \<Rightarrow> string \<Rightarrow> string" where
  "exposed_tool_name name tool = name @ ''__'' @ tool"

definition parse_exposed_tool_name :: "string \<Rightarrow> (string \<times> string) option" where
  "parse_exposed_tool_name exposed =
     (case py_partition ''__'' exposed of (server, sep, tool) \<Rightarrow>
        if \<not> sep \<or> server = [] \<or> tool = [] then None else Some (server, tool))"

lemma valid_server_name_chars:
  "valid_server_name s \<Longrightarrow> s \<noteq> [] \<and> CHR ''_'' \<notin> set s"
  by (auto simp: valid_server_name_def name_ch_def char_class_defs list_all_iff split: list.splits)

lemma py_partition_no_us:
  "CHR ''_'' \<notin> set a \<Longrightarrow> py_partition ''__'' (a @ CHR ''_'' # CHR ''_'' # b) = (a, True, b)"
  by (induction a) auto

lemma parse_exposed:
  assumes "valid_server_name s" "t \<noteq> []"
  shows "parse_exposed_tool_name (exposed_tool_name s t) = Some (s, t)"
  using valid_server_name_chars[OF assms(1)] assms(2) py_partition_no_us[of s t]
  by (simp add: parse_exposed_tool_name_def exposed_tool_name_def)

lemma expose_parsed:
  "parse_exposed_tool_name e = Some (s, t) \<Longrightarrow> exposed_tool_name s t = e"
  by (auto simp: parse_exposed_tool_name_def exposed_tool_name_def split: prod.splits if_splits
      dest!: py_partition_found)

section \<open>The registry\<close>

definition suffixed :: "string \<Rightarrow> nat \<Rightarrow> string" where
  "suffixed e n = e @ CHR ''_'' # nat_str n"

lemma suffixed_inj [simp]: "suffixed e m = suffixed e n \<longleftrightarrow> m = n"
  by (simp add: suffixed_def)

text \<open>The \<^verbatim>\<open>while\<close> loop that looks for the first free suffix. It ends because a registry has
  finitely many keys.\<close>

definition taken_from :: "string list \<Rightarrow> string \<Rightarrow> nat \<Rightarrow> nat set" where
  "taken_from keys e n = {j. n \<le> j \<and> suffixed e j \<in> set keys}"

lemma finite_taken_from: "finite (taken_from keys e n)"
proof (rule finite_subset)
  show "taken_from keys e n \<subseteq> suffixed e -` set keys" by (auto simp: taken_from_def)
  show "finite (suffixed e -` set keys)"
    by (rule finite_vimageI) (auto simp: inj_on_def)
qed

function free_suffix :: "string list \<Rightarrow> string \<Rightarrow> nat \<Rightarrow> nat" where
  "free_suffix keys e n = (if suffixed e n \<in> set keys then free_suffix keys e (Suc n) else n)"
  by pat_completeness auto
termination
proof (relation "measure (\<lambda>(keys, e, n). card (taken_from keys e n))")
  fix keys e n
  assume n: "suffixed e n \<in> set keys"
  have "taken_from keys e (Suc n) = taken_from keys e n - {n}"
    by (auto simp: taken_from_def)
  moreover have "n \<in> taken_from keys e n" using n by (simp add: taken_from_def)
  ultimately show "((keys, e, Suc n), (keys, e, n)) \<in> measure (\<lambda>(keys, e, n). card (taken_from keys e n))"
    using finite_taken_from by (simp del: card_Diff_insert add: card_Diff1_less)
qed simp

declare free_suffix.simps [simp del]

lemma free_suffix_free: "suffixed e (free_suffix keys e n) \<notin> set keys"
proof (induction keys e n rule: free_suffix.induct)
  case (1 keys e n)
  then show ?case by (subst free_suffix.simps) auto
qed

lemma free_suffix_least:
  "n \<le> free_suffix keys e n \<and> (\<forall>j. n \<le> j \<and> j < free_suffix keys e n \<longrightarrow> suffixed e j \<in> set keys)"
proof (induction keys e n rule: free_suffix.induct)
  case (1 keys e n)
  show ?case
  proof (cases "suffixed e n \<in> set keys")
    case True
    then have "free_suffix keys e n = free_suffix keys e (Suc n)"
      by (subst free_suffix.simps) simp
    with 1 True show ?thesis
      by (metis Suc_leD Suc_leI le_neq_implies_less)
  next
    case False
    then show ?thesis by (subst (1 2) free_suffix.simps) auto
  qed
qed

definition registrable :: "string \<Rightarrow> bool" where
  "registrable e = (case parse_exposed_tool_name e of None \<Rightarrow> False | Some (s, _) \<Rightarrow> valid_server_name s)"

definition register_one :: "(string, string) dict \<Rightarrow> string \<Rightarrow> (string, string) dict" where
  "register_one registry entry =
     (if \<not> registrable entry then registry
      else if TOOL_NAME_MAX < length entry \<or> has_key registry entry
      then dset (suffixed entry (free_suffix (dkeys registry) entry 2)) entry registry
      else dset entry entry registry)"

definition register_tools :: "string list \<Rightarrow> (string, string) dict" where
  "register_tools exposed = foldl register_one [] exposed"

lemma dset_new: "k \<notin> set (dkeys d) \<Longrightarrow> dset k v d = d @ [(k, v)]"
  by (induction d) auto

lemma has_key_iff [simp]: "has_key d k \<longleftrightarrow> k \<in> set (dkeys d)"
  by (auto simp: has_key_def map_of_eq_None_iff)

text \<open>A registrable entry is appended under a key that was free: itself, or itself with the
  first free suffix.\<close>

definition fresh_key :: "string list \<Rightarrow> string \<Rightarrow> string" where
  "fresh_key keys e =
     (if TOOL_NAME_MAX < length e \<or> e \<in> set keys then suffixed e (free_suffix keys e 2) else e)"

lemma fresh_key_fresh: "fresh_key keys e \<notin> set keys"
  by (auto simp: fresh_key_def free_suffix_free)

lemma register_one_eq:
  "register_one r e = (if registrable e then r @ [(fresh_key (dkeys r) e, e)] else r)"
proof (cases "registrable e")
  case True
  then have "register_one r e = dset (fresh_key (dkeys r) e) e r"
    by (auto simp: register_one_def fresh_key_def)
  also have "\<dots> = r @ [(fresh_key (dkeys r) e, e)]"
    by (rule dset_new) (rule fresh_key_fresh)
  finally show ?thesis using True by simp
qed (simp add: register_one_def)

lemma register_fold:
  "distinct (dkeys r) \<Longrightarrow>
    distinct (dkeys (foldl register_one r es)) \<and>
    map snd (foldl register_one r es) = map snd r @ filter registrable es"
proof (induction es arbitrary: r)
  case (Cons e es)
  have "distinct (dkeys (register_one r e))"
    using Cons.prems fresh_key_fresh[of "dkeys r" e] by (simp add: register_one_eq)
  from Cons.IH[OF this] show ?case by (simp add: register_one_eq)
qed simp

lemma register_snoc: "register_tools (es @ [e]) = register_one (register_tools es) e"
  by (simp add: register_tools_def)

lemma register_keys:
  "(k, e) \<in> set (register_tools es) \<Longrightarrow> k = e \<and> length e \<le> TOOL_NAME_MAX \<or> (\<exists>n \<ge> 2. k = suffixed e n)"
proof (induction es rule: rev_induct)
  case (snoc x es)
  then show ?case
    using free_suffix_least[of 2 "dkeys (register_tools es)" x]
    by (auto simp: register_snoc register_one_eq fresh_key_def split: if_splits)
qed (simp add: register_tools_def)

section \<open>Paths\<close>

definition drive_prefix :: "string \<Rightarrow> bool" where
  "drive_prefix s = (case s of a # b # _ \<Rightarrow> b = CHR '':'' \<and> is_alpha a | _ \<Rightarrow> False)"

definition path_parts :: "string \<Rightarrow> bool \<times> string list" where
  "path_parts s =
     (let raw = (if drive_prefix s then take 2 s @ ''/'' @ drop 2 s else s);
          replaced = py_replace [CHR 0x5C] ''/'' raw;
          rooted = starts_with ''/'' replaced;
          parts = filter (\<lambda>p. p \<notin> {[], ''.''}) (split_str ''/'' replaced);
          drive = (case parts of p # _ \<Rightarrow> length p = 2 \<and> p ! 1 = CHR '':'' | [] \<Rightarrow> False) in
      (rooted \<or> drive, parts))"

text \<open>The loop keeps the resolved components; \<^const>\<open>None\<close> when \<^verbatim>\<open>..\<close> climbs above the root.\<close>

fun resolve_loop :: "string list \<Rightarrow> string list \<Rightarrow> string list option" where
  "resolve_loop resolved [] = Some resolved"
| "resolve_loop resolved (p # ps) =
     (if p = ''..'' then (if resolved = [] then None else resolve_loop (butlast resolved) ps)
      else resolve_loop (resolved @ [p]) ps)"

definition resolve_parts :: "string list \<Rightarrow> string list option" where
  "resolve_parts parts = resolve_loop [] parts"

definition resolves_inside :: "string \<Rightarrow> string option \<Rightarrow> bool" where
  "resolves_inside v project_dir =
     (case project_dir of
        None \<Rightarrow> False
      | Some pd \<Rightarrow>
          if drive_prefix v \<and> take 1 (drop 2 v) \<notin> {''/'', [CHR 0x5C]} then False
          else (case resolve_parts (snd (path_parts pd)) of
             None \<Rightarrow> False
           | Some base \<Rightarrow>
               if base = [] then False
               else (case path_parts v of (absolute, parts) \<Rightarrow>
                 (case resolve_parts (if absolute then parts else base @ parts) of
                    None \<Rightarrow> False
                  | Some candidate \<Rightarrow> take (length base) candidate = base))))"

lemma resolve_loop_append:
  "resolve_loop r (ps @ qs) =
     (case resolve_loop r ps of None \<Rightarrow> None | Some r' \<Rightarrow> resolve_loop r' qs)"
  by (induction r ps rule: resolve_loop.induct) auto

lemma resolve_loop_plain: "''..'' \<notin> set ps \<Longrightarrow> resolve_loop r ps = Some (r @ ps)"
  by (induction ps arbitrary: r) auto

lemma resolve_loop_no_dotdot:
  "resolve_loop r ps = Some q \<Longrightarrow> ''..'' \<notin> set r \<Longrightarrow> ''..'' \<notin> set q"
  by (induction r ps rule: resolve_loop.induct) (auto split: if_splits dest: in_set_butlastD)

lemma resolve_parts_no_dotdot: "resolve_parts ps = Some q \<Longrightarrow> ''..'' \<notin> set q"
  unfolding resolve_parts_def by (erule resolve_loop_no_dotdot) simp

text \<open>Resolving a relative path below a resolved base is resolving its components from there.\<close>

lemma resolve_parts_below:
  "resolve_parts bs = Some base \<Longrightarrow> resolve_parts (base @ ps) = resolve_loop base ps"
  using resolve_parts_no_dotdot[of bs base]
  by (simp add: resolve_parts_def resolve_loop_append resolve_loop_plain)

lemma path_parts_clean: "p \<in> set (snd (path_parts s)) \<Longrightarrow> p \<noteq> [] \<and> p \<noteq> ''.'' \<and> CHR ''/'' \<notin> set p"
  by (auto simp: path_parts_def Let_def dest: split_str_char_free)

section \<open>The decision\<close>

datatype call_verdict =
    CallOk
  | DefaultDeny
  | MetaToolDeny
  | EmptyAllowlist
  | ToolNotAllowed
  | ArgOutsideProject

fun arg_violates :: "(string, json) dict option \<Rightarrow> string option \<Rightarrow> string \<times> string \<Rightarrow> bool" where
  "arg_violates args project_dir (arg, bound) =
     (if bound \<noteq> ''project_dir'' then False
      else case args of
        None \<Rightarrow> False
      | Some d \<Rightarrow>
          (case dget d arg of
             None \<Rightarrow> False
           | Some (JStr v) \<Rightarrow> \<not> resolves_inside v project_dir
           | Some _ \<Rightarrow> True))"

definition check_call ::
  "string \<Rightarrow> string \<Rightarrow> string list option \<Rightarrow> (string, json) dict option \<Rightarrow> string option \<Rightarrow> call_verdict" where
  "check_call server tool tool_allow args project_dir =
     (if server \<in> set DEFAULT_DENY_SERVERS then DefaultDeny
      else if tool \<in> set META_TOOL_DENY then MetaToolDeny
      else let allowed = (case tool_allow of None \<Rightarrow> [] | Some l \<Rightarrow> l) in
        if allowed = [] then EmptyAllowlist
        else if tool \<notin> set allowed then ToolNotAllowed
        else if list_ex (arg_violates args project_dir) (dget_or ARG_CONSTRAINTS server [])
        then ArgOutsideProject
        else CallOk)"

text \<open>The reason string the code returns beside the boolean.\<close>

definition reason_str :: "call_verdict \<Rightarrow> string" where
  "reason_str v = (case v of
      CallOk \<Rightarrow> ''ok'' | DefaultDeny \<Rightarrow> ''default-deny'' | MetaToolDeny \<Rightarrow> ''meta-tool-deny''
    | EmptyAllowlist \<Rightarrow> ''empty-allowlist'' | ToolNotAllowed \<Rightarrow> ''tool-not-allowed''
    | ArgOutsideProject \<Rightarrow> ''arg-outside-project'')"

section \<open>Properties\<close>

text \<open>Where a path argument may lead, said without the code's control flow.\<close>

definition below_project :: "string \<Rightarrow> string \<Rightarrow> bool" where
  "below_project pd v \<longleftrightarrow>
     \<not> (drive_prefix v \<and> take 1 (drop 2 v) \<notin> {''/'', [CHR 0x5C]}) \<and>
     (\<exists>base rest. base \<noteq> [] \<and> resolve_parts (snd (path_parts pd)) = Some base \<and>
        (if fst (path_parts v) then resolve_loop [] (snd (path_parts v)) = Some (base @ rest)
         else resolve_loop base (snd (path_parts v)) = Some (base @ rest)))"

lemma take_prefix_iff: "take (length b) c = b \<longleftrightarrow> (\<exists>r. c = b @ r)"
  by (metis append_eq_conv_conj)

lemma resolves_inside_iff: "resolves_inside v (Some pd) \<longleftrightarrow> below_project pd v"
proof (cases "resolve_parts (snd (path_parts pd))")
  case None
  then show ?thesis by (simp add: resolves_inside_def below_project_def)
next
  case (Some base)
  obtain ab ps where "path_parts v = (ab, ps)" by (cases "path_parts v")
  with Some resolve_parts_below[OF Some] show ?thesis
    by (auto simp: resolves_inside_def below_project_def take_prefix_iff resolve_parts_def
        split: option.splits)
qed


lemma resolve_climb:
  "resolve_loop base (replicate n ''..'') =
     (if n \<le> length base then Some (take (length base - n) base) else None)"
proof (induction n arbitrary: base)
  case (Suc n)
  then show ?case by (cases base rule: rev_cases) (auto simp: Suc_diff_le)
qed simp

text \<open>
  Traversal: a relative path that climbs \<open>n\<close> levels from the project directory is accepted
  exactly when it comes back down by the names of the levels it left; climbing above the root is
  always refused.
\<close>

theorem resolves_inside_climb:
  assumes "resolve_parts (snd (path_parts pd)) = Some base" "base \<noteq> []" "\<not> drive_prefix v"
    and "path_parts v = (False, replicate n ''..'' @ rest)" "''..'' \<notin> set rest"
  shows "resolves_inside v (Some pd) \<longleftrightarrow>
    n \<le> length base \<and> (\<exists>r. rest = drop (length base - n) base @ r)"
proof -
  define up where "up = take (length base - n) base"
  have "resolve_loop base (replicate n ''..'' @ rest) =
      (if n \<le> length base then Some (up @ rest) else None)"
    using assms(5) by (simp add: resolve_loop_append resolve_climb resolve_loop_plain up_def)
  moreover have "up @ rest = base @ r \<longleftrightarrow> rest = drop (length base - n) base @ r" for r
    by (metis append.assoc append_take_drop_id same_append_eq up_def)
  ultimately show ?thesis using assms by (auto simp: resolves_inside_iff below_project_def)
qed

text \<open>
  Every exposed name whose server part is valid is in the registry exactly once per
  occurrence, in order, under a key of its own: no tool shadows another.
\<close>

theorem register_tools_complete:
  "distinct (dkeys (register_tools es)) \<and> map snd (register_tools es) = filter registrable es"
  using register_fold[of "[]" es] by (simp add: register_tools_def)

text \<open>
  The name the gateway shows for a tool determines the server and the tool: for a valid
  server name and a non-empty tool name, parsing the exposed name gives both back, and no other
  name parses to them.
\<close>

theorem exposed_name_roundtrip:
  assumes "valid_server_name s" "t \<noteq> []"
  shows "parse_exposed_tool_name e = Some (s, t) \<longleftrightarrow> e = exposed_tool_name s t"
  by (metis expose_parsed parse_exposed[OF assms])

text \<open>
  The suffix that is meant to keep a registered name within the limit of 64 characters makes
  it longer: an entry above the limit is registered under an even longer key.
\<close>

theorem register_tools_too_long:
  assumes "(k, e) \<in> set (register_tools es)" "TOOL_NAME_MAX < length e"
  shows "length e + 2 \<le> length k"
proof -
  from register_keys[OF assms(1)] assms(2) obtain n where "k = suffixed e n" by auto
  moreover have "1 \<le> length (nat_str n)" by (simp add: Suc_le_eq)
  ultimately show ?thesis by (simp add: suffixed_def)
qed

end
