(* ===== verification/Profiles.thy ===== *)
theory Profiles
  imports GatewayPolicy
begin

text \<open>
  Typed profiles (\<^verbatim>\<open>home/rdm/profiles.py\<close>, lines 1-335 without \<^verbatim>\<open>validate\<close>): where profile
  files are looked up, the dataclasses, and the construction of a profile from parsed JSON with
  its case-insensitive keys and conversions. \<^verbatim>\<open>ValueError\<close> is an \<open>Inl\<close>; the Russian message texts
  are constructors. The file system is a parameter: a test for existing paths, and the text of
  a file.
\<close>

section \<open>Where profiles live\<close>

definition path_join :: "string \<Rightarrow> string \<Rightarrow> string" where
  "path_join a b =
     (if starts_with ''/'' b then b
      else if a = [] then b
      else if ends_with ''/'' a then a @ b
      else a @ ''/'' @ b)"

definition projects_dirs :: "string option \<Rightarrow> string \<Rightarrow> string \<Rightarrow> string list" where
  "projects_dirs env_dir home repo =
     (case env_dir of None \<Rightarrow> [] | Some d \<Rightarrow> if d = [] then [] else [d]) @
     [path_join (path_join home ''.devbox'') ''projects'', path_join repo ''projects'']"

definition profile_file :: "string \<Rightarrow> string \<Rightarrow> string" where
  "profile_file directory name = path_join directory (name @ ''.json'')"

definition find_profile :: "(string \<Rightarrow> bool) \<Rightarrow> string list \<Rightarrow> string \<Rightarrow> string option" where
  "find_profile exists dirs name = find exists (map (\<lambda>d. profile_file d name) dirs)"

text \<open>The path for a new profile, and the directory that had to be created, if any.\<close>

definition new_path :: "(string \<Rightarrow> bool) \<Rightarrow> string list \<Rightarrow> string \<Rightarrow> string \<times> string option" where
  "new_path is_dir dirs name =
     (case find is_dir dirs of
        Some d \<Rightarrow> (profile_file d name, None)
      | None \<Rightarrow> (profile_file (hd dirs) name, Some (hd dirs)))"

text \<open>\<open>glob d\<close> are the stems of the \<^verbatim>\<open>*.json\<close> files of \<open>d\<close>; \<^const>\<open>None\<close> is an \<^verbatim>\<open>OSError\<close>.\<close>

definition available :: "(string \<Rightarrow> string list option) \<Rightarrow> string list \<Rightarrow> string list" where
  "available glob dirs =
     (let names = concat (map (\<lambda>d. case glob d of None \<Rightarrow> [] | Some ns \<Rightarrow> ns) dirs) in
      sort (filter (\<lambda>n. \<not> starts_with ''_'' n) (remdups names)))"

definition runner_tool_name :: "string \<Rightarrow> string" where
  "runner_tool_name name = ''run_'' @ py_replace ''-'' ''_'' (py_replace '':'' ''_'' name)"

definition runner_kill_tool_name :: "string \<Rightarrow> string" where
  "runner_kill_tool_name name = runner_tool_name name @ ''_kill''"

section \<open>The dataclasses\<close>

record host_service =
  hs_port :: int
  hs_auth :: string
  hs_cwd :: string
  hs_cmd :: string

record arg_spec =
  as_type :: string
  as_position :: string

record runner_command =
  rc_name :: string
  rc_cmd :: "string list"
  rc_description :: string
  rc_args :: "(string \<times> arg_spec) list"
  rc_background :: bool
  rc_port :: "int option"
  rc_timeout :: "int option"

record setup_command =
  sc_cmd :: string
  sc_marker :: string
  sc_required :: bool

record script =
  sp_name :: string
  sp_cmd :: "string list"
  sp_description :: string

record exposed_mcp =
  em_name :: string
  em_mode :: string
  em_tool_allow :: "string list"

record profile =
  project_dir :: string
  toolchain :: string
  git_name :: string
  git_email :: string
  preview_origin :: string
  mode :: string
  ui_port :: "int option"
  host_services :: "host_service list"
  runner_commands :: "runner_command list"
  runner_port :: "int option"
  allowed_ports :: "int list"
  port_ranges :: "(int \<times> int) list"
  port_deny :: "int list"
  deny_mounts :: "string list"
  setup_cmds :: "setup_command list"
  scripts :: "script list"
  gateway_port :: "int option"
  exposed_mcps :: "exposed_mcp list"

definition BRIDGE_PORT :: int where
  "BRIDGE_PORT = 8787"

definition MAX_PORT_RANGES :: nat where
  "MAX_PORT_RANGES = 32"

definition TOP_KEYS :: "(string, string) dict" where
  "TOP_KEYS =
    [(''projectdir'', ''project_dir''), (''toolchain'', ''toolchain''), (''gitname'', ''git_name''),
     (''gitemail'', ''git_email''), (''previeworigin'', ''preview_origin''), (''uiport'', ''ui_port''),
     (''mode'', ''mode''), (''hostservices'', ''host_services''),
     (''runnercommands'', ''runner_commands''), (''runnerport'', ''runner_port''),
     (''allowedports'', ''allowed_ports''), (''portranges'', ''port_ranges''),
     (''portdeny'', ''port_deny''), (''denymounts'', ''deny_mounts''), (''setupcmds'', ''setup_cmds''),
     (''scripts'', ''scripts''), (''gatewayport'', ''gateway_port''), (''exposedmcps'', ''exposed_mcps'')]"

definition HOST_KEYS :: "(string, string) dict" where
  "HOST_KEYS = [(''port'', ''port''), (''auth'', ''auth''), (''cwd'', ''cwd''), (''cmd'', ''cmd'')]"

definition RUNNER_KEYS :: "(string, string) dict" where
  "RUNNER_KEYS =
    [(''name'', ''name''), (''cmd'', ''cmd''), (''description'', ''description''), (''args'', ''args''),
     (''background'', ''background''), (''port'', ''port''), (''timeout'', ''timeout'')]"

definition SETUP_KEYS :: "(string, string) dict" where
  "SETUP_KEYS = [(''cmd'', ''cmd''), (''marker'', ''marker''), (''required'', ''required'')]"

definition SCRIPT_KEYS :: "(string, string) dict" where
  "SCRIPT_KEYS = [(''name'', ''name''), (''cmd'', ''cmd''), (''description'', ''description'')]"

definition ARGSPEC_KEYS :: "(string, string) dict" where
  "ARGSPEC_KEYS = [(''type'', ''type''), (''position'', ''position'')]"

definition EXPOSED_KEYS :: "(string, string) dict" where
  "EXPOSED_KEYS = [(''name'', ''name''), (''mode'', ''mode''), (''toolallow'', ''tool_allow'')]"

section \<open>Conversions\<close>

datatype profile_error =
    ExpectedObject string
  | UnknownKeys string "string list"
  | ExpectedList string
  | ExpectedRange
  | BadInt string
  | BadJson
  | Rejected nat

text \<open>Lower case, then only letters and digits stay.\<close>

definition norm_key :: "string \<Rightarrow> string" where
  "norm_key key = filter (\<lambda>c. is_lower_az c \<or> is_digit c) (lower key)"

text \<open>The loop over the items of a JSON object: recognised values and unknown keys.\<close>

fun fields_loop ::
  "(string, string) dict \<Rightarrow> (string \<times> json) list \<Rightarrow> (string, json) dict \<times> string list
     \<Rightarrow> (string, json) dict \<times> string list" where
  "fields_loop table [] acc = acc"
| "fields_loop table ((key, val) # items) (vals, unknown) =
     fields_loop table items
       (case dget table (norm_key key) of
          None \<Rightarrow> (vals, unknown @ [key])
        | Some name \<Rightarrow> (dset name val vals, unknown))"

definition fields_of :: "json \<Rightarrow> (string, string) dict \<Rightarrow> string \<Rightarrow> profile_error + (string, json) dict" where
  "fields_of raw table loc =
     (case raw of
        JObj items \<Rightarrow>
          (case fields_loop table items ([], []) of (vals, unknown) \<Rightarrow>
             if unknown \<noteq> [] then Inl (UnknownKeys loc (sort unknown)) else Inr vals)
      | _ \<Rightarrow> Inl (ExpectedObject loc))"

text \<open>Python's \<^verbatim>\<open>str\<close> and \<^verbatim>\<open>repr\<close> of parsed JSON. A float keeps its lexeme.\<close>

definition repr_ch :: "char \<Rightarrow> char \<Rightarrow> string" where
  "repr_ch q c =
     (if c = q \<or> c = CHR 0x5C then [CHR 0x5C, c]
      else if c = CHR 0x0A then [CHR 0x5C, CHR ''n'']
      else if c = CHR 0x0D then [CHR 0x5C, CHR ''r'']
      else if c = CHR 0x09 then [CHR 0x5C, CHR ''t'']
      else if code c < 32 \<or> 127 \<le> code c \<and> code c \<le> 160 \<or> code c = 173
      then [CHR 0x5C, CHR ''x'', hex_ch (code c div 16), hex_ch (code c mod 16)]
      else [c])"

definition repr_str :: "string \<Rightarrow> string" where
  "repr_str s =
     (let q = (if CHR 0x27 \<in> set s \<and> CHR 0x22 \<notin> set s then CHR 0x22 else CHR 0x27) in
      q # concat (map (repr_ch q) s) @ [q])"

fun py_repr :: "json \<Rightarrow> string" where
  "py_repr JNull = ''None''"
| "py_repr (JBool b) = (if b then ''True'' else ''False'')"
| "py_repr (JInt i) = int_str i"
| "py_repr (JFloat t) = t"
| "py_repr (JStr s) = repr_str s"
| "py_repr (JArr xs) = ''['' @ py_join '', '' (map py_repr xs) @ '']''"
| "py_repr (JObj d) = CHR 0x7B # py_join '', '' (map (\<lambda>(k, v). repr_str k @ '': '' @ py_repr v) d) @ [CHR 0x7D]"

definition py_str :: "json \<Rightarrow> string" where
  "py_str j = (case j of JStr s \<Rightarrow> s | _ \<Rightarrow> py_repr j)"

text \<open>\<^verbatim>\<open>_str(values, key, default)\<close>\<close>

definition str_of :: "(string, json) dict \<Rightarrow> string \<Rightarrow> string \<Rightarrow> string" where
  "str_of vals key deflt = (case dget vals key of None \<Rightarrow> deflt | Some v \<Rightarrow> py_str v)"

text \<open>\<^verbatim>\<open>_int\<close>: a boolean is an integer in Python; everything else goes through \<^verbatim>\<open>int(str(value))\<close>.\<close>

definition int_of_json :: "json \<Rightarrow> profile_error + int" where
  "int_of_json v =
     (case v of
        JInt i \<Rightarrow> Inr i
      | JBool b \<Rightarrow> Inr (if b then 1 else 0)
      | _ \<Rightarrow> (case py_int (py_str v) of None \<Rightarrow> Inl (BadInt (py_str v)) | Some i \<Rightarrow> Inr i))"

definition opt_int :: "(string, json) dict \<Rightarrow> string \<Rightarrow> profile_error + int option" where
  "opt_int vals key =
     (case dget vals key of
        None \<Rightarrow> Inr None
      | Some v \<Rightarrow> if v = JNull then Inr None else rbind (int_of_json v) (\<lambda>i. Inr (Some i)))"

definition seq_of :: "(string, json) dict \<Rightarrow> string \<Rightarrow> profile_error + json list" where
  "seq_of vals key =
     (case dget vals key of
        None \<Rightarrow> Inr []
      | Some v \<Rightarrow> (case v of JNull \<Rightarrow> Inr [] | JArr xs \<Rightarrow> Inr xs | _ \<Rightarrow> Inl (ExpectedList key)))"

definition cmd_of :: "(string, json) dict \<Rightarrow> profile_error + string list" where
  "cmd_of vals = rbind (seq_of vals ''cmd'') (\<lambda>xs. Inr (map py_str xs))"

definition port_range_of :: "json \<Rightarrow> profile_error + int \<times> int" where
  "port_range_of raw =
     (case raw of
        JArr [a, b] \<Rightarrow> rbind (int_of_json a) (\<lambda>lo. rbind (int_of_json b) (\<lambda>hi. Inr (lo, hi)))
      | _ \<Rightarrow> Inl ExpectedRange)"

definition bool_of :: "(string, json) dict \<Rightarrow> string \<Rightarrow> bool" where
  "bool_of vals key = (case dget vals key of None \<Rightarrow> False | Some v \<Rightarrow> truthy v)"

section \<open>Building the records\<close>

definition build_host_service :: "json \<Rightarrow> profile_error + host_service" where
  "build_host_service raw =
     rbind (fields_of raw HOST_KEYS ''hostservice'') (\<lambda>vals.
     rbind (int_of_json (dget_or vals ''port'' (JInt 0))) (\<lambda>port.
     Inr \<lparr>hs_port = port, hs_auth = str_of vals ''auth'' [], hs_cwd = str_of vals ''cwd'' [],
          hs_cmd = str_of vals ''cmd'' []\<rparr>))"

definition build_argspec :: "json \<Rightarrow> profile_error + arg_spec" where
  "build_argspec raw =
     rbind (fields_of raw ARGSPEC_KEYS ''argspec'') (\<lambda>vals.
     Inr \<lparr>as_type = str_of vals ''type'' ''str'', as_position = str_of vals ''position'' ''append''\<rparr>)"

definition build_args :: "json \<Rightarrow> profile_error + (string \<times> arg_spec) list" where
  "build_args raw =
     (case raw of
        JNull \<Rightarrow> Inr []
      | JObj items \<Rightarrow> rtraverse (\<lambda>(name, spec). rbind (build_argspec spec) (\<lambda>a. Inr (name, a))) items
      | _ \<Rightarrow> Inl (ExpectedObject ''args''))"

definition build_runner :: "json \<Rightarrow> profile_error + runner_command" where
  "build_runner raw =
     rbind (fields_of raw RUNNER_KEYS ''runnercommand'') (\<lambda>vals.
     rbind (cmd_of vals) (\<lambda>cmd.
     rbind (build_args (obj_get vals ''args'')) (\<lambda>args.
     rbind (opt_int vals ''port'') (\<lambda>port.
     rbind (opt_int vals ''timeout'') (\<lambda>timeout.
     Inr \<lparr>rc_name = str_of vals ''name'' [], rc_cmd = cmd,
          rc_description = str_of vals ''description'' [], rc_args = args,
          rc_background = bool_of vals ''background'', rc_port = port, rc_timeout = timeout\<rparr>)))))"

definition build_setup :: "json \<Rightarrow> profile_error + setup_command" where
  "build_setup raw =
     rbind (fields_of raw SETUP_KEYS ''setupcmd'') (\<lambda>vals.
     Inr \<lparr>sc_cmd = str_of vals ''cmd'' [], sc_marker = str_of vals ''marker'' [],
          sc_required = bool_of vals ''required''\<rparr>)"

definition build_script :: "json \<Rightarrow> profile_error + script" where
  "build_script raw =
     rbind (fields_of raw SCRIPT_KEYS ''script'') (\<lambda>vals.
     rbind (cmd_of vals) (\<lambda>cmd.
     Inr \<lparr>sp_name = str_of vals ''name'' [], sp_cmd = cmd,
          sp_description = str_of vals ''description'' []\<rparr>))"

definition build_exposed :: "json \<Rightarrow> profile_error + exposed_mcp" where
  "build_exposed raw =
     rbind (fields_of raw EXPOSED_KEYS ''exposedmcp'') (\<lambda>vals.
     rbind (seq_of vals ''tool_allow'') (\<lambda>tools.
     Inr \<lparr>em_name = str_of vals ''name'' [], em_mode = str_of vals ''mode'' ''readonly'',
          em_tool_allow = map py_str tools\<rparr>))"

definition seq_map :: "(string, json) dict \<Rightarrow> string \<Rightarrow> (json \<Rightarrow> profile_error + 'a) \<Rightarrow> profile_error + 'a list" where
  "seq_map vals key f = rbind (seq_of vals key) (rtraverse f)"

definition build_profile :: "(string, json) dict \<Rightarrow> profile_error + profile" where
  "build_profile vals =
     rbind (opt_int vals ''ui_port'') (\<lambda>ui.
     rbind (seq_map vals ''host_services'' build_host_service) (\<lambda>hosts.
     rbind (seq_map vals ''runner_commands'' build_runner) (\<lambda>runners.
     rbind (opt_int vals ''runner_port'') (\<lambda>rport.
     rbind (seq_map vals ''allowed_ports'' int_of_json) (\<lambda>allowed.
     rbind (seq_map vals ''port_ranges'' port_range_of) (\<lambda>ranges.
     rbind (seq_map vals ''port_deny'' int_of_json) (\<lambda>deny.
     rbind (seq_map vals ''deny_mounts'' (\<lambda>j. Inr (py_str j))) (\<lambda>mounts.
     rbind (seq_map vals ''setup_cmds'' build_setup) (\<lambda>setups.
     rbind (seq_map vals ''scripts'' build_script) (\<lambda>scrs.
     rbind (opt_int vals ''gateway_port'') (\<lambda>gport.
     rbind (seq_map vals ''exposed_mcps'' build_exposed) (\<lambda>exposed.
     Inr \<lparr>project_dir = str_of vals ''project_dir'' [], toolchain = str_of vals ''toolchain'' [],
          git_name = str_of vals ''git_name'' [], git_email = str_of vals ''git_email'' [],
          preview_origin = str_of vals ''preview_origin'' [], mode = str_of vals ''mode'' ''standard'',
          ui_port = ui, host_services = hosts, runner_commands = runners, runner_port = rport,
          allowed_ports = allowed, port_ranges = ranges, port_deny = deny, deny_mounts = mounts,
          setup_cmds = setups, scripts = scrs, gateway_port = gport, exposed_mcps = exposed\<rparr>))))))))))))"

definition build_top :: "json \<Rightarrow> profile_error + profile" where
  "build_top raw = rbind (fields_of raw TOP_KEYS ''profile'') build_profile"

text \<open>\<^verbatim>\<open>load\<close> on the text of the file.\<close>

definition load_profile :: "string \<Rightarrow> profile_error + profile" where
  "load_profile text = (case loads text of None \<Rightarrow> Inl BadJson | Some raw \<Rightarrow> build_top raw)"

section \<open>Facts about the conversions\<close>

lemma fields_loop_spec:
  "fields_loop table items (vals, unknown) =
     (fold (\<lambda>(k, v). dset k v)
        (List.map_filter (\<lambda>(k, v). map_option (\<lambda>n. (n, v)) (dget table (norm_key k))) items) vals,
      unknown @ filter (\<lambda>k. dget table (norm_key k) = None) (map fst items))"
  by (induction table items "(vals, unknown)" arbitrary: vals unknown rule: fields_loop.induct)
    (auto split: option.splits)

lemma fields_of_Inr_iff [res_iff]:
  "fields_of raw table loc = Inr vals \<longleftrightarrow>
     (\<exists>items. raw = JObj items \<and> (\<forall>(k, v) \<in> set items. dget table (norm_key k) \<noteq> None) \<and>
        vals = fst (fields_loop table items ([], [])))"
proof (cases raw)
  case (JObj items)
  then show ?thesis
    by (simp add: fields_of_def fields_loop_spec filter_empty_conv split_beta) blast
qed (auto simp: fields_of_def)

lemma fields_of_unknown:
  assumes "(k, v) \<in> set items" "dget table (norm_key k) = None"
  shows "\<exists>ks. fields_of (JObj items) table loc = Inl (UnknownKeys loc ks) \<and> k \<in> set ks"
  using assms by (force simp: fields_of_def fields_loop_spec filter_empty_conv)

lemma norm_key_case: "norm_key (map upper_ch key) = norm_key key"
proof -
  have "lower_ch (upper_ch c) = lower_ch c" for c
  proof (cases "97 \<le> code c \<and> code c \<le> 122")
    case True
    moreover have "code c - 32 < 256" using True by linarith
    ultimately have "code (upper_ch c) = code c - 32" by (simp add: upper_ch_def)
    moreover have "65 \<le> code c - 32" "code c - 32 \<le> 90" "code c - 32 + 32 = code c"
      using True by linarith+
    ultimately have "lower_ch (upper_ch c) = char_of (code c)" by (simp add: lower_ch_def)
    with True show ?thesis by (simp add: lower_ch_def)
  next
    case False
    then have "upper_ch c = c" unfolding upper_ch_def by (rule if_not_P)
    then show ?thesis by simp
  qed
  then show ?thesis by (simp add: norm_key_def o_def)
qed

lemma find_profile_first:
  "find_profile exists dirs name = Some p \<longleftrightarrow>
     (\<exists>i < length dirs. p = profile_file (dirs ! i) name \<and> exists p \<and>
        (\<forall>j < i. \<not> exists (profile_file (dirs ! j) name)))"
  by (auto simp: find_profile_def find_Some_iff)

lemma available_iff:
  "n \<in> set (available glob dirs) \<longleftrightarrow>
     \<not> starts_with ''_'' n \<and> (\<exists>d \<in> set dirs. \<exists>ns. glob d = Some ns \<and> n \<in> set ns)"
  by (auto simp: available_def Let_def eq_commute[of "Some _" "glob _"] split: option.splits)

lemma available_sorted: "sorted (available glob dirs) \<and> distinct (available glob dirs)"
  by (simp add: available_def Let_def)

end
