(* ===== verification/Ports.thy ===== *)
theory Ports
  imports Profiles
begin

text \<open>
  The port policy of the ingress (\<^verbatim>\<open>home/rdm/ports.py\<close>) and the start commands it takes from
  \<^verbatim>\<open>home/rdm/freeze.py\<close>. Whether the program is frozen, the interpreter and the platform are
  the record \<open>runtime\<close>. A set that the code sorts into a tuple is a sorted list without
  duplicates.
\<close>

section \<open>Frozen and source layout\<close>

record runtime =
  frozen :: bool
  executable :: string
  win32 :: bool
  module_home :: string
  exe_parent :: string

definition app_dir :: "runtime \<Rightarrow> string" where
  "app_dir rt = (if frozen rt then exe_parent rt else module_home rt)"

definition cli_entry :: "runtime \<Rightarrow> string list" where
  "cli_entry rt =
     (if frozen rt then [path_join (app_dir rt) (if win32 rt then ''devbox.exe'' else ''devbox'')]
      else [executable rt, path_join (app_dir rt) ''devbox.py''])"

definition spawn_entry :: "runtime \<Rightarrow> string \<Rightarrow> string list \<Rightarrow> string list" where
  "spawn_entry rt subcommand args =
     (if frozen rt then executable rt # subcommand # args else cli_entry rt @ subcommand # args)"

section \<open>The policy\<close>

definition DEFAULT_RUNNER_PORT :: int where
  "DEFAULT_RUNNER_PORT = 8796"

definition DEFAULT_GATEWAY_PORT :: int where
  "DEFAULT_GATEWAY_PORT = 8794"

definition COCKPIT_PORT :: int where
  "COCKPIT_PORT = 8793"

lemmas port_consts =
  BRIDGE_PORT_def DEFAULT_RUNNER_PORT_def DEFAULT_GATEWAY_PORT_def COCKPIT_PORT_def

record port_policy =
  self_authed :: "int list"
  allowed :: "int list"
  pol_runner_port :: "int option"
  ranges :: "(int \<times> int) list"
  denied :: "int list"

definition runner_http_port :: "port_policy \<Rightarrow> int option" where
  "runner_http_port policy = map_option (\<lambda>p. p + 1) (pol_runner_port policy)"

definition in_range :: "int \<Rightarrow> int \<times> int \<Rightarrow> bool" where
  "in_range port r \<longleftrightarrow> fst r \<le> port \<and> port \<le> snd r"

definition protected_ports :: "port_policy \<Rightarrow> int list" where
  "protected_ports policy = COCKPIT_PORT # concat (map (\<lambda>p. [p, p + 1]) (self_authed policy))"

definition is_port_allowed :: "port_policy \<Rightarrow> int \<Rightarrow> bool" where
  "is_port_allowed policy port =
     (if port \<in> set (denied policy) \<or> port \<in> set (protected_ports policy) then False
      else port \<in> set (allowed policy) \<or> list_ex (in_range port) (ranges policy))"

text \<open>\<^verbatim>\<open>value or default\<close> for an optional port: \<^verbatim>\<open>None\<close> and 0 are false.\<close>

definition port_or :: "int option \<Rightarrow> int \<Rightarrow> int" where
  "port_or p d = (case p of None \<Rightarrow> d | Some i \<Rightarrow> if i = 0 then d else i)"

definition quoted_exe :: "runtime \<Rightarrow> string \<Rightarrow> string" where
  "quoted_exe rt sub = CHR 0x22 # executable rt @ CHR 0x22 # CHR '' '' # sub"

definition with_runner_service :: "runtime \<Rightarrow> profile \<Rightarrow> profile" where
  "with_runner_service rt p =
     (if runner_commands p = [] then p
      else p\<lparr>host_services := host_services p @
        [\<lparr>hs_port = port_or (runner_port p) DEFAULT_RUNNER_PORT, hs_auth = ''bearer'',
          hs_cwd = app_dir rt,
          hs_cmd = (if frozen rt then quoted_exe rt ''runner'' else ''python host/runner-mcp.py'')\<rparr>]\<rparr>)"

definition with_gateway_service :: "runtime \<Rightarrow> profile \<Rightarrow> profile" where
  "with_gateway_service rt p =
     (if exposed_mcps p = [] then p
      else p\<lparr>host_services := host_services p @
        [\<lparr>hs_port = port_or (gateway_port p) DEFAULT_GATEWAY_PORT, hs_auth = ''bearer'',
          hs_cwd = app_dir rt,
          hs_cmd = (if frozen rt then quoted_exe rt ''gateway'' else ''python -m rdm.gateway'')\<rparr>]\<rparr>)"

definition sorted_set :: "'a::linorder list \<Rightarrow> 'a list" where
  "sorted_set xs = sort (remdups xs)"

definition compute_port_policy :: "profile \<Rightarrow> port_policy" where
  "compute_port_policy p =
     (let rport = (if runner_commands p \<noteq> [] then Some (port_or (runner_port p) DEFAULT_RUNNER_PORT) else None);
          self0 = BRIDGE_PORT # map hs_port (filter (\<lambda>s. hs_auth s = ''bearer'') (host_services p));
          self1 = (case rport of None \<Rightarrow> self0 | Some r \<Rightarrow> self0 @ [r]);
          allowed0 = allowed_ports p @
            map hs_port (filter (\<lambda>s. hs_auth s \<noteq> ''bearer'') (host_services p)) @
            concat (map (\<lambda>c. case rc_port c of None \<Rightarrow> [] | Some q \<Rightarrow> if q = 0 then [] else [q])
              (runner_commands p)) in
      \<lparr>self_authed = sorted_set self1, allowed = sorted_set allowed0, pol_runner_port = rport,
       ranges = port_ranges p, denied = port_deny p\<rparr>)"

section \<open>What the policy lets in\<close>

lemma set_sorted_set [simp]: "set (sorted_set xs) = set xs"
  by (simp add: sorted_set_def)

lemma sorted_set_sorted [simp]: "sorted (sorted_set xs)" "distinct (sorted_set xs)"
  by (simp_all add: sorted_set_def)

text \<open>Ports that answer with their own authorization.\<close>

definition bearer_ports :: "profile \<Rightarrow> int set" where
  "bearer_ports p = set (map hs_port (filter (\<lambda>s. hs_auth s = ''bearer'') (host_services p)))"

definition runner_ports :: "profile \<Rightarrow> int set" where
  "runner_ports p =
     (if runner_commands p = [] then {} else {port_or (runner_port p) DEFAULT_RUNNER_PORT})"

lemma self_authed_compute:
  "set (self_authed (compute_port_policy p)) = insert BRIDGE_PORT (bearer_ports p \<union> runner_ports p)"
  by (auto simp: compute_port_policy_def Let_def bearer_ports_def runner_ports_def split: option.splits)

definition open_ports :: "profile \<Rightarrow> int set" where
  "open_ports p = set (allowed_ports p) \<union>
     set (map hs_port (filter (\<lambda>s. hs_auth s \<noteq> ''bearer'') (host_services p))) \<union>
     {q. q \<noteq> 0 \<and> Some q \<in> rc_port ` set (runner_commands p)}"

lemma allowed_compute: "set (allowed (compute_port_policy p)) = open_ports p"
  by (auto simp: compute_port_policy_def Let_def open_ports_def image_iff eq_commute[of "Some _"]
      split: option.splits)

lemma compute_simps [simp]:
  "ranges (compute_port_policy p) = port_ranges p"
  "denied (compute_port_policy p) = port_deny p"
  "pol_runner_port (compute_port_policy p) =
     (if runner_commands p = [] then None else Some (port_or (runner_port p) DEFAULT_RUNNER_PORT))"
  by (simp_all add: compute_port_policy_def Let_def)

lemma protected_iff:
  "q \<in> set (protected_ports policy) \<longleftrightarrow>
     q = COCKPIT_PORT \<or> q \<in> set (self_authed policy) \<or> q - 1 \<in> set (self_authed policy)"
  by (force simp: protected_ports_def)

text \<open>
  C30. The ingress opens a port to a holder of the ingress token exactly when the profile lists it
  (an allowed port, the port of a service without its own authorization, the port of a runner
  command, or a port range), it is not denied, and it is neither the cockpit port nor a
  self-authorized port nor the unprotected backend one above such a port.
\<close>

theorem is_port_allowed_iff:
  "is_port_allowed (compute_port_policy p) q \<longleftrightarrow>
     (q \<in> open_ports p \<or> (\<exists>(lo, hi) \<in> set (port_ranges p). lo \<le> q \<and> q \<le> hi)) \<and>
     q \<notin> set (port_deny p) \<and> q \<noteq> COCKPIT_PORT \<and>
     {q, q - 1} \<inter> insert BRIDGE_PORT (bearer_ports p \<union> runner_ports p) = {}"
  by (auto simp: is_port_allowed_def protected_iff self_authed_compute allowed_compute
      list_ex_iff in_range_def split_beta)

text \<open>Adding the runner as a service does not change the policy: \<^verbatim>\<open>compute_port_policy\<close> already
  counts it.\<close>

lemma bearer_ports_with_runner:
  "bearer_ports (with_runner_service rt p) = bearer_ports p \<union> runner_ports p"
  by (cases "runner_commands p = []")
    (simp_all add: bearer_ports_def runner_ports_def with_runner_service_def del: set_filter)

lemma with_runner_fields [simp]:
  "runner_commands (with_runner_service rt p) = runner_commands p"
  "runner_port (with_runner_service rt p) = runner_port p"
  "allowed_ports (with_runner_service rt p) = allowed_ports p"
  "port_ranges (with_runner_service rt p) = port_ranges p"
  "port_deny (with_runner_service rt p) = port_deny p"
  by (simp_all add: with_runner_service_def)

lemma open_ports_with_runner: "open_ports (with_runner_service rt p) = open_ports p"
  by (auto simp: open_ports_def with_runner_service_def)

lemma sorted_set_cong: "set xs = set ys \<Longrightarrow> sorted_set xs = sorted_set ys"
  by (simp add: sorted_set_def sorted_list_of_set_sort_remdups[symmetric])

lemma sorted_set_unique: "sorted xs \<Longrightarrow> distinct xs \<Longrightarrow> sorted_set xs = xs"
  by (simp add: sorted_set_def distinct_remdups_id sort_key_id_if_sorted)

lemma policy_sorted:
  "sorted_set (self_authed (compute_port_policy p)) = self_authed (compute_port_policy p)"
  "sorted_set (allowed (compute_port_policy p)) = allowed (compute_port_policy p)"
  by (rule sorted_set_unique; simp add: compute_port_policy_def Let_def)+

theorem policy_with_runner_service:
  "compute_port_policy (with_runner_service rt p) = compute_port_policy p"
proof (rule port_policy.equality)
  show "self_authed (compute_port_policy (with_runner_service rt p)) = self_authed (compute_port_policy p)"
    using sorted_set_cong[of "self_authed (compute_port_policy (with_runner_service rt p))"
        "self_authed (compute_port_policy p)"]
    by (simp add: policy_sorted self_authed_compute bearer_ports_with_runner)
      (simp add: runner_ports_def)
  show "allowed (compute_port_policy (with_runner_service rt p)) = allowed (compute_port_policy p)"
    using sorted_set_cong[of "allowed (compute_port_policy (with_runner_service rt p))"
        "allowed (compute_port_policy p)"]
    by (simp add: policy_sorted allowed_compute open_ports_with_runner)
qed simp_all

end
