(* ===== verification/ProfileValidate.thy ===== *)
theory ProfileValidate
  imports Ports
begin

text \<open>
  \<^verbatim>\<open>validate\<close> of \<^verbatim>\<open>home/rdm/profiles.py\<close> (rules R1-R42), section by section in the order of the
  source, and \<^verbatim>\<open>write_raw\<close>. A problem is named after its rule and carries the values its
  message shows; the rules whose message starts with \<^verbatim>\<open>WARN\<close> are \<open>W16\<close>, \<open>W18\<close>, \<open>W19\<close>, \<open>W26\<close>.
  Existence of a path is a parameter. \<^verbatim>\<open>shlex.split(cmd, posix=False)\<close> raises \<^verbatim>\<open>ValueError\<close> on an
  unclosed quote, and so does \<^verbatim>\<open>validate\<close>: the result is then \<^const>\<open>None\<close>.
\<close>

section \<open>Splitting a command line\<close>

definition shlex_ws :: "char \<Rightarrow> bool" where
  "shlex_ws c \<longleftrightarrow> code c \<in> {32, 9, 13, 10}"

definition shlex_quote :: "char \<Rightarrow> bool" where
  "shlex_quote c \<longleftrightarrow> c = CHR 0x27 \<or> c = CHR 0x22"

text \<open>Between tokens, inside a word, inside a quoted token opened by \<open>q\<close>; \<open>tok\<close> is the token so
  far. A quoted token ends at its closing quote; a quote inside a word is part of the word.\<close>

fun shlex_gap :: "string \<Rightarrow> string list option"
  and shlex_word :: "string \<Rightarrow> string \<Rightarrow> string list option"
  and shlex_quoted :: "char \<Rightarrow> string \<Rightarrow> string \<Rightarrow> string list option" where
  "shlex_gap [] = Some []"
| "shlex_gap (c # s) =
     (if shlex_ws c then shlex_gap s
      else if shlex_quote c then shlex_quoted c [c] s
      else shlex_word [c] s)"
| "shlex_word tok [] = Some [tok]"
| "shlex_word tok (c # s) =
     (if shlex_ws c then map_option ((#) tok) (shlex_gap s) else shlex_word (tok @ [c]) s)"
| "shlex_quoted q tok [] = None"
| "shlex_quoted q tok (c # s) =
     (if c = q then map_option ((#) (tok @ [c])) (shlex_gap s) else shlex_quoted q (tok @ [c]) s)"

section \<open>Problems\<close>

text \<open>What a message shows beside its rule: nothing, the position in a list, a name, ports.\<close>

datatype detail =
    Plain
  | At nat
  | AtName nat string
  | AtPort nat int
  | Text string
  | Clash string string string
  | Port int
  | Span int int
  | SpanPort int int int
  | Spans "int \<times> int" "int \<times> int"

text \<open>The rule, which of its messages, and the detail.\<close>

datatype problem = Rule nat string detail | Warn nat string detail

abbreviation R1 :: "problem" where
  "R1 \<equiv> Rule 1 '''' Plain"

abbreviation R2 :: "string \<Rightarrow> problem" where
  "R2 s \<equiv> Rule 2 '''' (Text s)"

abbreviation R4 :: "problem" where
  "R4 \<equiv> Rule 4 '''' Plain"

abbreviation R5 :: "problem" where
  "R5 \<equiv> Rule 5 '''' Plain"

abbreviation R22 :: "problem" where
  "R22 \<equiv> Rule 22 '''' Plain"

abbreviation R6_port :: "nat \<Rightarrow> problem" where
  "R6_port i \<equiv> Rule 6 ''port'' (At i)"

abbreviation R6_cmd :: "nat \<Rightarrow> problem" where
  "R6_cmd i \<equiv> Rule 6 ''cmd'' (At i)"

abbreviation R7 :: "problem" where
  "R7 \<equiv> Rule 7 '''' Plain"

abbreviation W18 :: "nat \<Rightarrow> problem" where
  "W18 i \<equiv> Warn 18 '''' (At i)"

abbreviation W26 :: "nat \<Rightarrow> string \<Rightarrow> problem" where
  "W26 i s \<equiv> Warn 26 '''' (AtName i s)"

abbreviation R8_name :: "nat \<Rightarrow> problem" where
  "R8_name i \<equiv> Rule 8 ''name'' (At i)"

abbreviation R8_cmd :: "nat \<Rightarrow> problem" where
  "R8_cmd i \<equiv> Rule 8 ''cmd'' (At i)"

abbreviation R9 :: "string \<Rightarrow> problem" where
  "R9 s \<equiv> Rule 9 '''' (Text s)"

abbreviation R10_name :: "problem" where
  "R10_name \<equiv> Rule 10 ''name'' Plain"

abbreviation R10_tool :: "string \<Rightarrow> string \<Rightarrow> string \<Rightarrow> problem" where
  "R10_tool s t u \<equiv> Rule 10 ''tool'' (Clash s t u)"

abbreviation R23_type :: "nat \<Rightarrow> string \<Rightarrow> problem" where
  "R23_type i s \<equiv> Rule 23 ''type'' (AtName i s)"

abbreviation R23_position :: "nat \<Rightarrow> string \<Rightarrow> problem" where
  "R23_position i s \<equiv> Rule 23 ''position'' (AtName i s)"

abbreviation R23_argv0 :: "nat \<Rightarrow> string \<Rightarrow> problem" where
  "R23_argv0 i s \<equiv> Rule 23 ''argv0'' (AtName i s)"

abbreviation R25 :: "nat \<Rightarrow> problem" where
  "R25 i \<equiv> Rule 25 '''' (At i)"

abbreviation R36 :: "nat \<Rightarrow> string \<Rightarrow> problem" where
  "R36 i s \<equiv> Rule 36 '''' (AtName i s)"

abbreviation R37 :: "nat \<Rightarrow> problem" where
  "R37 i \<equiv> Rule 37 '''' (At i)"

abbreviation R38_empty :: "nat \<Rightarrow> problem" where
  "R38_empty i \<equiv> Rule 38 ''empty'' (At i)"

abbreviation R38_dup :: "nat \<Rightarrow> problem" where
  "R38_dup i \<equiv> Rule 38 ''dup'' (At i)"

abbreviation R39 :: "problem" where
  "R39 \<equiv> Rule 39 '''' Plain"

abbreviation R40 :: "nat \<Rightarrow> string \<Rightarrow> problem" where
  "R40 i s \<equiv> Rule 40 '''' (AtName i s)"

abbreviation R41 :: "problem" where
  "R41 \<equiv> Rule 41 '''' Plain"

abbreviation R11 :: "problem" where
  "R11 \<equiv> Rule 11 '''' Plain"

abbreviation R12_range :: "int \<Rightarrow> problem" where
  "R12_range q \<equiv> Rule 12 ''range'' (Port q)"

abbreviation R12_dup :: "problem" where
  "R12_dup \<equiv> Rule 12 ''dup'' Plain"

abbreviation R13 :: "int \<Rightarrow> problem" where
  "R13 q \<equiv> Rule 13 '''' (Port q)"

abbreviation R29 :: "problem" where
  "R29 \<equiv> Rule 29 '''' Plain"

abbreviation R27 :: "int \<Rightarrow> int \<Rightarrow> problem" where
  "R27 a b \<equiv> Rule 27 '''' (Span a b)"

abbreviation R28 :: "int \<Rightarrow> int \<Rightarrow> problem" where
  "R28 a b \<equiv> Rule 28 '''' (Span a b)"

abbreviation R31 :: "int \<Rightarrow> int \<Rightarrow> problem" where
  "R31 a b \<equiv> Rule 31 '''' (Span a b)"

abbreviation R34 :: "int \<Rightarrow> int \<Rightarrow> int \<Rightarrow> problem" where
  "R34 a b q \<equiv> Rule 34 '''' (SpanPort a b q)"

abbreviation R30 :: "(int \<times> int) \<Rightarrow> (int \<times> int) \<Rightarrow> problem" where
  "R30 a b \<equiv> Rule 30 '''' (Spans a b)"

abbreviation R32 :: "int \<Rightarrow> problem" where
  "R32 q \<equiv> Rule 32 '''' (Port q)"

abbreviation R35_allowed :: "problem" where
  "R35_allowed \<equiv> Rule 35 ''allowed'' Plain"

abbreviation R35_range :: "int \<Rightarrow> int \<Rightarrow> problem" where
  "R35_range a b \<equiv> Rule 35 ''range'' (Span a b)"

abbreviation R35_service :: "problem" where
  "R35_service \<equiv> Rule 35 ''service'' Plain"

abbreviation R35_runner :: "problem" where
  "R35_runner \<equiv> Rule 35 ''runner'' Plain"

abbreviation R35_command :: "nat \<Rightarrow> problem" where
  "R35_command i \<equiv> Rule 35 ''command'' (At i)"

abbreviation R42_port :: "int \<Rightarrow> problem" where
  "R42_port q \<equiv> Rule 42 ''port'' (Port q)"

abbreviation R42_bridge :: "int \<Rightarrow> problem" where
  "R42_bridge q \<equiv> Rule 42 ''bridge'' (Port q)"

abbreviation R42_runner :: "int \<Rightarrow> problem" where
  "R42_runner q \<equiv> Rule 42 ''runner'' (Port q)"

abbreviation R42_cockpit :: "int \<Rightarrow> problem" where
  "R42_cockpit q \<equiv> Rule 42 ''cockpit'' (Port q)"

abbreviation R42_service :: "int \<Rightarrow> problem" where
  "R42_service q \<equiv> Rule 42 ''service'' (Port q)"

abbreviation R42_allowed :: "int \<Rightarrow> problem" where
  "R42_allowed q \<equiv> Rule 42 ''allowed'' (Port q)"

abbreviation R42_range :: "int \<Rightarrow> int \<Rightarrow> int \<Rightarrow> problem" where
  "R42_range a b q \<equiv> Rule 42 ''range'' (SpanPort a b q)"

abbreviation R33 :: "int \<Rightarrow> problem" where
  "R33 q \<equiv> Rule 33 '''' (Port q)"

abbreviation R14 :: "int \<Rightarrow> problem" where
  "R14 q \<equiv> Rule 14 '''' (Port q)"

abbreviation R15 :: "int \<Rightarrow> problem" where
  "R15 q \<equiv> Rule 15 '''' (Port q)"

abbreviation R20_bridge :: "int \<Rightarrow> problem" where
  "R20_bridge q \<equiv> Rule 20 ''bridge'' (Port q)"

abbreviation R20_allowed :: "int \<Rightarrow> problem" where
  "R20_allowed q \<equiv> Rule 20 ''allowed'' (Port q)"

abbreviation R20_service :: "int \<Rightarrow> problem" where
  "R20_service q \<equiv> Rule 20 ''service'' (Port q)"

abbreviation R20_command :: "nat \<Rightarrow> int \<Rightarrow> problem" where
  "R20_command i q \<equiv> Rule 20 ''command'' (AtPort i q)"

abbreviation R21 :: "string \<Rightarrow> problem" where
  "R21 s \<equiv> Rule 21 '''' (Text s)"

abbreviation W16 :: "string \<Rightarrow> problem" where
  "W16 s \<equiv> Warn 16 '''' (Text s)"

abbreviation R17 :: "nat \<Rightarrow> problem" where
  "R17 i \<equiv> Rule 17 '''' (At i)"

abbreviation W19 :: "problem" where
  "W19 \<equiv> Warn 19 '''' Plain"

fun is_warn :: "problem \<Rightarrow> bool" where
  "is_warn (Rule _ _ _) = False"
| "is_warn (Warn _ _ _) = True"

section \<open>The sections of the check\<close>

definition enum1 :: "'a list \<Rightarrow> (nat \<times> 'a) list" where
  "enum1 xs = List.enumerate 1 xs"

definition emit_if :: "bool \<Rightarrow> 'a \<Rightarrow> 'a list" where
  "emit_if b x = (if b then [x] else [])"

definition port_ok :: "int \<Rightarrow> bool" where
  "port_ok p \<longleftrightarrow> 1 \<le> p \<and> p \<le> 65535"

definition toolchain_ch :: "char \<Rightarrow> bool" where
  "toolchain_ch c \<longleftrightarrow> is_alnum c \<or> c \<in> set ''._:-+ ''"

definition mount_ch :: "char \<Rightarrow> bool" where
  "mount_ch c \<longleftrightarrow> is_alnum c \<or> c \<in> set ''._-/''"

definition v_base :: "(string \<Rightarrow> bool) \<Rightarrow> profile \<Rightarrow> problem list" where
  "v_base exists p =
     (if project_dir p = [] then [R1] else emit_if (\<not> exists (project_dir p)) (R2 (project_dir p))) @
     emit_if (\<not> list_all toolchain_ch (toolchain p)) R22 @
     emit_if (git_name p = []) R4 @
     emit_if (git_email p = [] \<or> CHR ''@'' \<notin> set (git_email p)) R5"

definition strip_quotes :: "string \<Rightarrow> string" where
  "strip_quotes = strip_by (\<lambda>c. c = CHR 0x22)"

definition has_slash :: "string \<Rightarrow> bool" where
  "has_slash t \<longleftrightarrow> CHR 0x5C \<in> set t \<or> CHR ''/'' \<in> set t"

definition space_path :: "(string \<Rightarrow> bool) \<Rightarrow> string list \<Rightarrow> string option" where
  "space_path exists tokens =
     map_option (\<lambda>(l, r). strip_quotes l @ '' '' @ strip_quotes r)
       (find (\<lambda>(l, r). has_slash l \<and> has_slash r \<and> exists (strip_quotes l @ '' '' @ strip_quotes r))
          (zip tokens (tl tokens)))"

definition v_service :: "(string \<Rightarrow> bool) \<Rightarrow> nat \<times> host_service \<Rightarrow> problem list option" where
  "v_service exists = (\<lambda>(i, s).
     let pre = emit_if (\<not> port_ok (hs_port s)) (R6_port i);
         post = emit_if (list_ex (\<lambda>op. contains_sub op (hs_cmd s)) [''&&'', ''||'', '';'', ''|'']) (W18 i) in
     if hs_cmd s = [] then Some (pre @ [R6_cmd i] @ post)
     else map_option (\<lambda>tokens.
            pre @ (case space_path exists tokens of None \<Rightarrow> [] | Some j \<Rightarrow> [W26 i j]) @ post)
          (shlex_gap (hs_cmd s)))"

fun oconcat :: "'a list option list \<Rightarrow> 'a list option" where
  "oconcat [] = Some []"
| "oconcat (x # xs) = (case x of None \<Rightarrow> None | Some a \<Rightarrow> map_option ((@) a) (oconcat xs))"

definition service_ports :: "profile \<Rightarrow> int list" where
  "service_ports p = filter port_ok (map hs_port (host_services p))"

definition v_services :: "(string \<Rightarrow> bool) \<Rightarrow> profile \<Rightarrow> problem list option" where
  "v_services exists p =
     map_option (\<lambda>ps. ps @ emit_if (\<not> distinct (service_ports p)) R7)
       (oconcat (map (v_service exists) (enum1 (host_services p))))"

definition metachars :: string where
  "metachars = ''|&;$()<>%!'' @ [CHR 0x27, CHR 0x22]"

definition v_command :: "nat \<times> runner_command \<Rightarrow> problem list" where
  "v_command = (\<lambda>(i, c).
     emit_if (rc_name c = []) (R8_name i) @
     (if rc_cmd c = [] then [R8_cmd i]
      else map R9 (filter (list_ex (\<lambda>ch. ch \<in> set metachars)) (rc_cmd c))) @
     concat (map (\<lambda>(arg_name, spec).
        emit_if (as_type spec \<notin> {''str'', ''path''}) (R23_type i arg_name) @
        emit_if (as_position spec \<notin> {''append'', ''template''}) (R23_position i arg_name) @
        emit_if (rc_cmd c \<noteq> [] \<and> hd (rc_cmd c) = CHR 0x7B # arg_name @ [CHR 0x7D]) (R23_argv0 i arg_name))
       (rc_args c)) @
     emit_if (case rc_timeout c of None \<Rightarrow> False | Some t \<Rightarrow> \<not> (1 \<le> t \<and> t \<le> 86400)) (R25 i))"

definition tool_sources :: "profile \<Rightarrow> (string \<times> string) list" where
  "tool_sources p =
     map (\<lambda>c. (rc_name c, runner_tool_name (rc_name c))) (runner_commands p) @
     map (\<lambda>s. (sp_name s, runner_tool_name (''script:'' @ sp_name s))) (scripts p)"

fun v_tools :: "(string, string) dict \<Rightarrow> (string \<times> string) list \<Rightarrow> problem list" where
  "v_tools owners [] = []"
| "v_tools owners ((raw, tool) # rest) =
     (case dget owners tool of
        Some o' \<Rightarrow> if o' \<noteq> raw then R10_tool o' raw tool # v_tools owners rest
                  else v_tools (dset tool raw owners) rest
      | None \<Rightarrow> v_tools (dset tool raw owners) rest)"

definition v_commands :: "profile \<Rightarrow> problem list" where
  "v_commands p =
     concat (map v_command (enum1 (runner_commands p))) @
     emit_if (\<not> distinct (filter (\<lambda>n. n \<noteq> []) (map rc_name (runner_commands p)))) R10_name @
     v_tools [] (tool_sources p)"

definition v_exposed_one :: "nat \<times> exposed_mcp \<Rightarrow> problem list" where
  "v_exposed_one = (\<lambda>(i, m).
     emit_if (\<not> valid_server_name (em_name m)) (R36 i (em_name m)) @
     emit_if (em_mode m \<notin> {''readonly'', ''full''}) (R37 i) @
     emit_if ([] \<in> set (em_tool_allow m)) (R38_empty i) @
     emit_if (\<not> distinct (em_tool_allow m)) (R38_dup i) @
     emit_if (em_name m \<in> set DEFAULT_DENY_SERVERS) (R40 i (em_name m)))"

definition exposed_names :: "profile \<Rightarrow> string list" where
  "exposed_names p = filter valid_server_name (map em_name (exposed_mcps p))"

definition v_exposed :: "profile \<Rightarrow> problem list" where
  "v_exposed p =
     concat (map v_exposed_one (enum1 (exposed_mcps p))) @
     emit_if (\<not> distinct (exposed_names p)) R39 @
     emit_if (list_ex (\<lambda>n. n \<in> set NETWORK_EGRESS_SERVERS) (exposed_names p) \<and>
           list_ex (\<lambda>n. n \<in> set SECRET_TOUCHING_SERVERS) (exposed_names p)) R41"

text \<open>\<^verbatim>\<open>runner_port\<close> as a truth value: \<^verbatim>\<open>None\<close> and 0 are false.\<close>

definition runner_port' :: "profile \<Rightarrow> int option" where
  "runner_port' p = (case runner_port p of Some r \<Rightarrow> if r = 0 then None else Some r | None \<Rightarrow> None)"

definition v_runner_port :: "profile \<Rightarrow> problem list" where
  "v_runner_port p =
     emit_if (runner_commands p \<noteq> [] \<and> (case runner_port' p of None \<Rightarrow> True | Some r \<Rightarrow> \<not> port_ok r)) R11"

definition ok_allowed :: "profile \<Rightarrow> int list" where
  "ok_allowed p = filter port_ok (allowed_ports p)"

definition v_allowed :: "profile \<Rightarrow> problem list" where
  "v_allowed p =
     map R12_range (filter (\<lambda>q. \<not> port_ok q) (allowed_ports p)) @
     emit_if (\<not> distinct (ok_allowed p)) R12_dup @
     map R13 (filter (\<lambda>q. q \<in> set (ok_allowed p)) (service_ports p))"

definition guards :: "profile \<Rightarrow> int list" where
  "guards p = sorted_set ([BRIDGE_PORT, BRIDGE_PORT + 1] @
     concat (map (\<lambda>s. [hs_port s, hs_port s + 1]) (filter (\<lambda>s. hs_auth s = ''bearer'') (host_services p))) @
     (case runner_port' p of None \<Rightarrow> [] | Some r \<Rightarrow> [r, r + 1]))"

definition v_range :: "int list \<Rightarrow> int \<times> int \<Rightarrow> problem list" where
  "v_range gs = (\<lambda>(lo, hi).
     if \<not> port_ok lo \<or> \<not> port_ok hi then [R27 lo hi]
     else if lo > hi then [R28 lo hi]
     else emit_if (in_range BRIDGE_PORT (lo, hi)) (R31 lo hi) @
       map (R34 lo hi) (filter (\<lambda>g. g \<noteq> BRIDGE_PORT \<and> in_range g (lo, hi)) gs))"

definition ordered_ranges :: "profile \<Rightarrow> (int \<times> int) list" where
  "ordered_ranges p = sort (filter (\<lambda>(lo, hi). port_ok lo \<and> port_ok hi \<and> lo \<le> hi) (port_ranges p))"

definition v_ranges :: "profile \<Rightarrow> problem list" where
  "v_ranges p =
     emit_if (MAX_PORT_RANGES < length (port_ranges p)) R29 @
     concat (map (v_range (guards p)) (port_ranges p)) @
     map (\<lambda>(a, b). R30 a b)
       (filter (\<lambda>(a, b). fst b \<le> snd a) (zip (ordered_ranges p) (tl (ordered_ranges p)))) @
     map R32 (filter (\<lambda>q. \<not> port_ok q) (port_deny p))"

definition v_cockpit :: "profile \<Rightarrow> problem list" where
  "v_cockpit p =
     emit_if (COCKPIT_PORT \<in> set (allowed_ports p)) R35_allowed @
     map (\<lambda>(lo, hi). R35_range lo hi) (filter (in_range COCKPIT_PORT) (ordered_ranges p)) @
     emit_if (list_ex (\<lambda>s. hs_port s = COCKPIT_PORT) (host_services p)) R35_service @
     emit_if (runner_port p = Some COCKPIT_PORT) R35_runner @
     map (\<lambda>(i, c). R35_command i)
       (filter (\<lambda>(i, c). rc_port c = Some COCKPIT_PORT) (enum1 (runner_commands p)))"

definition v_gateway_port :: "profile \<Rightarrow> int \<Rightarrow> problem list" where
  "v_gateway_port p q =
     emit_if (q \<in> {BRIDGE_PORT, BRIDGE_PORT + 1}) (R42_bridge q) @
     emit_if (case runner_port' p of None \<Rightarrow> False | Some r \<Rightarrow> q \<in> {r, r + 1}) (R42_runner q) @
     emit_if (q = COCKPIT_PORT) (R42_cockpit q) @
     emit_if (q \<in> set (service_ports p)) (R42_service q) @
     emit_if (q \<in> set (ok_allowed p)) (R42_allowed q) @
     map (\<lambda>(lo, hi). R42_range q lo hi) (filter (in_range q) (ordered_ranges p))"

definition v_gateway :: "profile \<Rightarrow> problem list" where
  "v_gateway p =
     (if exposed_mcps p = [] then []
      else let g = port_or (gateway_port p) DEFAULT_GATEWAY_PORT in
        if \<not> (1 \<le> g \<and> g \<le> 65534) then [R42_port g]
        else v_gateway_port p g @ v_gateway_port p (g + 1))"

definition v_ui_port :: "profile \<Rightarrow> problem list" where
  "v_ui_port p =
     (case ui_port p of
        None \<Rightarrow> []
      | Some u \<Rightarrow>
          emit_if (\<not> (u \<in> set (allowed_ports p) \<or> list_ex (in_range u) (port_ranges p)) \<or>
                u \<in> set (port_deny p)) (R33 u))"

definition v_runner_conflicts :: "profile \<Rightarrow> problem list" where
  "v_runner_conflicts p =
     (case runner_port' p of
        None \<Rightarrow> []
      | Some r \<Rightarrow>
          emit_if (r \<in> set (ok_allowed p)) (R14 r) @
          emit_if (r \<in> set (service_ports p)) (R15 r) @
          emit_if (r = BRIDGE_PORT \<or> r + 1 = BRIDGE_PORT) (R20_bridge r) @
          emit_if (r + 1 \<in> set (ok_allowed p)) (R20_allowed (r + 1)) @
          emit_if (r + 1 \<in> set (service_ports p)) (R20_service (r + 1)) @
          map (\<lambda>(i, c). R20_command i (r + 1))
            (filter (\<lambda>(i, c). rc_port c = Some (r + 1)) (enum1 (runner_commands p))))"

definition v_mounts :: "(string \<Rightarrow> bool) \<Rightarrow> profile \<Rightarrow> problem list" where
  "v_mounts exists p = concat (map (\<lambda>m.
     if m = [] \<or> \<not> list_all mount_ch m then [R21 m]
     else emit_if (\<not> exists (path_join (project_dir p) m)) (W16 m)) (deny_mounts p))"

definition v_setup :: "profile \<Rightarrow> problem list" where
  "v_setup p = map (\<lambda>(i, s). R17 i) (filter (\<lambda>(i, s). sc_cmd s = []) (enum1 (setup_cmds p)))"

definition validate :: "(string \<Rightarrow> bool) \<Rightarrow> profile \<Rightarrow> problem list option" where
  "validate exists p =
     map_option (\<lambda>sv.
       v_base exists p @ sv @ v_commands p @ v_exposed p @ v_runner_port p @ v_allowed p @ v_ranges p @
       v_cockpit p @ v_gateway p @ v_ui_port p @ v_runner_conflicts p @ v_mounts exists p @ v_setup p @
       emit_if (preview_origin p = []) W19)
     (v_services exists p)"

definition valid_profile :: "(string \<Rightarrow> bool) \<Rightarrow> profile \<Rightarrow> bool" where
  "valid_profile exists p = (case validate exists p of None \<Rightarrow> False | Some ps \<Rightarrow> list_all is_warn ps)"

text \<open>\<^verbatim>\<open>write_raw\<close>: the text written to the target file, or the error. The temporary file and the
  rename are one atomic replacement of the text. \<^const>\<open>Rejected\<close> carries the number of problems;
  \<^verbatim>\<open>ValueError\<close> from \<^verbatim>\<open>shlex\<close> is \<open>Rejected 0\<close>.\<close>

definition write_raw :: "(string \<Rightarrow> bool) \<Rightarrow> json \<Rightarrow> profile_error + string" where
  "write_raw exists data =
     rbind (build_top data) (\<lambda>p.
       case validate exists p of
         None \<Rightarrow> Inl (Rejected 0)
       | Some ps \<Rightarrow>
           (let problems = filter (\<lambda>q. \<not> is_warn q) ps in
            if problems \<noteq> [] then Inl (Rejected (length problems))
            else Inr (dumps (fmt_indent2 False) data @ [CHR 0x0A])))"

section \<open>What a valid profile guarantees\<close>

named_theorems warn \<open>when a section reports nothing but warnings\<close>

lemma warn_emit_if [warn]: "list_all is_warn (emit_if b x) \<longleftrightarrow> (b \<longrightarrow> is_warn x)"
  by (simp add: emit_if_def)

lemma warn_map [warn]: "list_all is_warn (map f xs) \<longleftrightarrow> (\<forall>x \<in> set xs. is_warn (f x))"
  by (simp add: list_all_iff)

lemma warn_concat_map [warn]: "list_all is_warn (concat (map f xs)) \<longleftrightarrow> (\<forall>x \<in> set xs. list_all is_warn (f x))"
  by (auto simp: list_all_iff)

lemma set_enum1: "(i, x) \<in> set (enum1 xs) \<longleftrightarrow> 1 \<le> i \<and> i \<le> length xs \<and> xs ! (i - 1) = x"
  by (auto simp: enum1_def in_set_enumerate_eq)

lemma enum1_all: "(\<forall>(i, x) \<in> set (enum1 xs). P x) \<longleftrightarrow> (\<forall>x \<in> set xs. P x)"
proof
  assume A: "\<forall>(i, x) \<in> set (enum1 xs). P x"
  show "\<forall>x \<in> set xs. P x"
  proof
    fix x assume "x \<in> set xs"
    then obtain n where "n < length xs" "xs ! n = x" by (auto simp: in_set_conv_nth)
    then have "(Suc n, x) \<in> set (enum1 xs)" by (simp add: set_enum1)
    with A show "P x" by auto
  qed
qed (auto simp: set_enum1)

lemma valid_profile_sections:
  assumes "valid_profile exists p"
  shows "list_all is_warn (v_base exists p)" "list_all is_warn (v_commands p)"
    "list_all is_warn (v_exposed p)" "list_all is_warn (v_runner_port p)"
    "list_all is_warn (v_allowed p)" "list_all is_warn (v_ranges p)" "list_all is_warn (v_cockpit p)"
    "list_all is_warn (v_gateway p)" "list_all is_warn (v_ui_port p)"
    "list_all is_warn (v_runner_conflicts p)" "list_all is_warn (v_mounts exists p)"
    "list_all is_warn (v_setup p)" "\<exists>sv. v_services exists p = Some sv \<and> list_all is_warn sv"
  using assms by (auto simp: valid_profile_def validate_def split: option.splits)

lemma oconcat_Some: "oconcat xs = Some ys \<Longrightarrow> x \<in> set xs \<Longrightarrow> \<exists>y. x = Some y \<and> set y \<subseteq> set ys"
proof (induction xs arbitrary: ys)
  case (Cons a xs)
  then obtain b c where "a = Some b" "oconcat xs = Some c" "ys = b @ c" by (auto split: option.splits)
  with Cons show ?case by fastforce
qed simp

lemma valid_service_ports:
  assumes "valid_profile exists p" "s \<in> set (host_services p)"
  shows "port_ok (hs_port s)"
proof -
  obtain sv where sv: "v_services exists p = Some sv" "list_all is_warn sv"
    using valid_profile_sections(13)[OF assms(1)] by blast
  then obtain ps where ps: "oconcat (map (v_service exists) (enum1 (host_services p))) = Some ps"
    and w: "list_all is_warn ps" by (auto simp: v_services_def)
  obtain n where n: "n < length (host_services p)" "host_services p ! n = s"
    using assms(2) by (auto simp: in_set_conv_nth)
  then have "(Suc n, s) \<in> set (enum1 (host_services p))" by (simp add: set_enum1)
  then have "v_service exists (Suc n, s) \<in> set (map (v_service exists) (enum1 (host_services p)))" by simp
  from oconcat_Some[OF ps this] obtain y where "v_service exists (Suc n, s) = Some y" "set y \<subseteq> set ps" by blast
  with w have "list_all is_warn y" "v_service exists (Suc n, s) = Some y" by (auto simp: list_all_iff)
  then show ?thesis by (auto simp: v_service_def warn Let_def split: if_splits)
qed

lemma service_ports_all:
  "valid_profile exists p \<Longrightarrow> service_ports p = map hs_port (host_services p)"
  using valid_service_ports by (auto simp: service_ports_def filter_id_conv)

subsection \<open>Ranges\<close>

definition range_wf :: "int \<times> int \<Rightarrow> bool" where
  "range_wf r \<longleftrightarrow> 1 \<le> fst r \<and> fst r \<le> snd r \<and> snd r \<le> 65535"

definition ranges_disjoint :: "int \<times> int \<Rightarrow> int \<times> int \<Rightarrow> bool" where
  "ranges_disjoint a b \<longleftrightarrow> snd a < fst b \<or> snd b < fst a"

lemma adjacent_sorted_wrt:
  assumes "\<forall>r \<in> set xs. range_wf r" "\<forall>(a, b) \<in> set (zip xs (tl xs)). snd a < fst b"
  shows "sorted_wrt (\<lambda>a b. snd a < fst b) xs"
  using assms
proof (induction xs)
  case (Cons a xs)
  show ?case
  proof (cases xs)
    case (Cons b ys)
    with Cons.prems have ab: "snd a < fst b" and wfb: "range_wf b" by auto
    have IH: "sorted_wrt (\<lambda>a b. snd a < fst b) xs"
      using Cons.IH Cons.prems Cons by (cases ys) auto
    moreover have "snd a < fst c" if "c \<in> set xs" for c
      using that ab wfb IH Cons by (auto simp: range_wf_def)
    ultimately show ?thesis by simp
  qed simp
qed simp

lemma sorted_wrt_disjoint:
  assumes "sorted_wrt (\<lambda>a b. snd a < fst b) xs" "\<forall>r \<in> set xs. range_wf r"
  shows "distinct xs \<and> (\<forall>a \<in> set xs. \<forall>b \<in> set xs. a \<noteq> b \<longrightarrow> ranges_disjoint a b)"
  using assms by (induction xs) (auto simp: ranges_disjoint_def range_wf_def)

lemma valid_range_section:
  assumes "valid_profile exists p" "r \<in> set (port_ranges p)"
  shows "range_wf r" and "g \<in> set (guards p) \<Longrightarrow> \<not> in_range g r"
proof -
  from valid_profile_sections(6)[OF assms(1)] assms(2)
  have w: "list_all is_warn (v_range (guards p) r)" by (auto simp: v_ranges_def warn)
  obtain lo hi where r: "r = (lo, hi)" by (cases r)
  with w have ok: "port_ok lo" "port_ok hi" "lo \<le> hi"
    by (auto simp: v_range_def split: if_splits)
  with r show "range_wf r" by (simp add: range_wf_def port_ok_def)
  assume "g \<in> set (guards p)"
  with w ok r show "\<not> in_range g r"
    by (auto simp: v_range_def warn split: if_splits)
qed

lemma valid_ordered:
  assumes "valid_profile exists p"
  shows "ordered_ranges p = sort (port_ranges p)"
proof -
  have "filter (\<lambda>(lo, hi). port_ok lo \<and> port_ok hi \<and> lo \<le> hi) (port_ranges p) = port_ranges p"
    using valid_range_section(1)[OF assms] by (fastforce simp: filter_id_conv range_wf_def port_ok_def)
  then show ?thesis by (simp add: ordered_ranges_def)
qed

lemma valid_cockpit_ranges:
  assumes "valid_profile exists p" "r \<in> set (port_ranges p)"
  shows "\<not> in_range COCKPIT_PORT r"
  using valid_profile_sections(7)[OF assms(1)] assms(2)
  by (cases r) (auto simp: v_cockpit_def warn valid_ordered[OF assms(1)])

lemma valid_ranges_disjoint:
  assumes "valid_profile exists p"
  shows "distinct (port_ranges p)"
    and "a \<in> set (port_ranges p) \<Longrightarrow> b \<in> set (port_ranges p) \<Longrightarrow> a \<noteq> b \<Longrightarrow> ranges_disjoint a b"
proof -
  let ?xs = "sort (port_ranges p)"
  have wf: "\<forall>r \<in> set ?xs. range_wf r" using valid_range_section(1)[OF assms] by simp
  have "\<forall>(a, b) \<in> set (zip ?xs (tl ?xs)). snd a < fst b"
    using valid_profile_sections(6)[OF assms]
    by (force simp: v_ranges_def warn valid_ordered[OF assms])
  from sorted_wrt_disjoint[OF adjacent_sorted_wrt[OF wf this] wf]
  have *: "distinct ?xs" "\<forall>a \<in> set ?xs. \<forall>b \<in> set ?xs. a \<noteq> b \<longrightarrow> ranges_disjoint a b" by auto
  then show "distinct (port_ranges p)" by simp
  show "a \<in> set (port_ranges p) \<Longrightarrow> b \<in> set (port_ranges p) \<Longrightarrow> a \<noteq> b \<Longrightarrow> ranges_disjoint a b"
    using *(2) by simp
qed

text \<open>Every port the policy protects is a guard of the range check, or the cockpit port.\<close>

lemma guards_cover:
  assumes "valid_profile exists p" "q \<in> set (protected_ports (compute_port_policy p))"
  shows "q = COCKPIT_PORT \<or> q \<in> set (guards p)"
proof -
  have r: "runner_ports p \<subseteq> set_option (runner_port' p)"
    using valid_profile_sections(4)[OF assms(1)]
    by (auto simp: v_runner_port_def warn runner_ports_def runner_port'_def port_or_def
        split: option.splits if_splits)
  have g: "x \<in> set (guards p) \<and> x + 1 \<in> set (guards p)"
    if "x \<in> insert BRIDGE_PORT (bearer_ports p \<union> set_option (runner_port' p))" for x
    using that by (auto simp: guards_def bearer_ports_def split: option.splits)
  from assms(2) r g[of q] g[of "q - 1"] show ?thesis
    by (auto simp: protected_iff self_authed_compute)
qed

subsection \<open>Tool names\<close>

lemma v_tools_owner:
  assumes "list_all is_warn (v_tools owners src)" "dget owners tool = Some raw" "(raw', tool) \<in> set src"
  shows "raw' = raw"
  using assms
proof (induction owners src rule: v_tools.induct)
  case (2 owners r t rest)
  show ?case
  proof (cases "t = tool")
    case True
    with 2 have "r = raw" "list_all is_warn (v_tools (dset t r owners) rest)"
      by (auto split: option.splits if_splits)
    with 2 True show ?thesis by (auto split: option.splits)
  next
    case False
    with 2 show ?thesis by (auto split: option.splits if_splits)
  qed
qed simp

lemma v_tools_functional:
  assumes "list_all is_warn (v_tools owners src)" "(r1, tool) \<in> set src" "(r2, tool) \<in> set src"
  shows "r1 = r2"
  using assms
proof (induction owners src rule: v_tools.induct)
  case (2 owners r t rest)
  then have w: "list_all is_warn (v_tools (dset t r owners) rest)"
    by (auto split: option.splits if_splits)
  have own: "r' = r" if "(r', t) \<in> set rest" for r'
    using v_tools_owner[OF w _ that] by simp
  from 2 w own show ?case by (auto split: option.splits if_splits)
qed simp

lemma runner_tool_name_script: "runner_tool_name (''script:'' @ n) \<noteq> runner_tool_name n"
proof -
  have len: "length (py_replace [c] ''_'' s) = length s" for c s
  proof (induction "[c]" "''_''" s rule: py_replace.induct)
    case (1 s)
    obtain a f b where ab: "py_partition [c] s = (a, f, b)" by (cases "py_partition [c] s")
    from py_partition_char_cases[OF this] 1 ab show ?case
      by (subst py_replace.simps) (auto split: if_splits)
  qed
  have "length (runner_tool_name (''script:'' @ n)) \<noteq> length (runner_tool_name n)"
    by (simp add: runner_tool_name_def len)
  then show ?thesis by metis
qed

section \<open>Properties\<close>

text \<open>A profile that the rules accept, for the applications below.\<close>

definition sample_profile :: profile where
  "sample_profile =
    \<lparr>project_dir = ''/srv/app'', toolchain = ''python:3.12'', git_name = ''dev'', git_email = ''dev@x'',
     preview_origin = ''https://x'', mode = ''standard'', ui_port = Some 5173,
     host_services = [\<lparr>hs_port = 8800, hs_auth = ''bearer'', hs_cwd = [], hs_cmd = ''srv run''\<rparr>,
       \<lparr>hs_port = 8900, hs_auth = [], hs_cwd = [], hs_cmd = ''srv two''\<rparr>],
     runner_commands = [\<lparr>rc_name = ''test'', rc_cmd = [''pytest''], rc_description = [], rc_args = [],
       rc_background = False, rc_port = None, rc_timeout = Some 60\<rparr>],
     runner_port = Some 8796, allowed_ports = [3000], port_ranges = [(5170, 5179), (4000, 4010)],
     port_deny = [5175], deny_mounts = [''.git''], setup_cmds = [],
     scripts = [\<lparr>sp_name = ''lint'', sp_cmd = [''ruff''], sp_description = []\<rparr>],
     gateway_port = None,
     exposed_mcps = [\<lparr>em_name = ''codegraph'', em_mode = ''readonly'', em_tool_allow = [''find'']\<rparr>]\<rparr>"

lemma sample_profile_valid: "valid_profile (\<lambda>_. True) sample_profile"
  by code_simp

text \<open>
  In a valid profile the port ranges are at most 32 well-formed intervals within 1-65535, pairwise
  disjoint, and each port of a range that is not denied is really open: no range port is
  cut off by the protection of self-authorized services, their backends or the cockpit.
\<close>

theorem valid_ranges_open:
  assumes "valid_profile exists p"
  shows "length (port_ranges p) \<le> MAX_PORT_RANGES \<and> list_all range_wf (port_ranges p) \<and>
    distinct (port_ranges p) \<and>
    (\<forall>a \<in> set (port_ranges p). \<forall>b \<in> set (port_ranges p). a \<noteq> b \<longrightarrow> ranges_disjoint a b) \<and>
    (\<forall>r \<in> set (port_ranges p). \<forall>q. in_range q r \<longrightarrow>
       is_port_allowed (compute_port_policy p) q = (q \<notin> set (port_deny p)))"
proof -
  have "length (port_ranges p) \<le> MAX_PORT_RANGES"
    using valid_profile_sections(6)[OF assms] by (simp add: v_ranges_def warn)
  moreover have "is_port_allowed (compute_port_policy p) q = (q \<notin> set (port_deny p))"
    if "r \<in> set (port_ranges p)" "in_range q r" for r q
    using that guards_cover[OF assms, of q] valid_range_section(2)[OF assms that(1), of q]
      valid_cockpit_ranges[OF assms that(1)]
    by (auto simp: is_port_allowed_def list_ex_iff)
  ultimately show ?thesis
    using valid_range_section(1)[OF assms] valid_ranges_disjoint[OF assms] by (simp add: list_all_iff)
qed

text \<open>
  In a valid profile the tools of the runner are told apart by name: two commands at different
  positions never share a tool name, and a command never shares one with a script.
\<close>

theorem valid_tool_names:
  assumes "valid_profile exists p"
  shows "distinct (map (\<lambda>c. runner_tool_name (rc_name c)) (runner_commands p)) \<and>
    set (map (\<lambda>c. runner_tool_name (rc_name c)) (runner_commands p)) \<inter>
      set (map (\<lambda>s. runner_tool_name (''script:'' @ sp_name s)) (scripts p)) = {}"
proof -
  have c: "list_all is_warn (v_commands p)" by (rule valid_profile_sections(2)[OF assms])
  have t: "list_all is_warn (v_tools [] (tool_sources p))" using c by (simp add: v_commands_def)
  have "rc_name c \<noteq> []" if "c \<in> set (runner_commands p)" for c
  proof -
    have "\<forall>(i, c) \<in> set (enum1 (runner_commands p)). rc_name c \<noteq> []"
      using c by (auto simp: v_commands_def warn v_command_def)
    with that show ?thesis by (simp add: enum1_all)
  qed
  then have "filter (\<lambda>n. n \<noteq> []) (map rc_name (runner_commands p)) = map rc_name (runner_commands p)"
    by (simp add: filter_id_conv)
  then have d: "distinct (map rc_name (runner_commands p))"
    using c by (simp add: v_commands_def warn)
  have "inj_on runner_tool_name (set (map rc_name (runner_commands p)))"
    by (rule inj_onI, rule v_tools_functional[OF t]) (auto simp: tool_sources_def image_iff)
  with d have "distinct (map runner_tool_name (map rc_name (runner_commands p)))"
    by (subst distinct_map) simp
  moreover have "runner_tool_name (rc_name c) \<noteq> runner_tool_name (''script:'' @ sp_name s)"
    if "c \<in> set (runner_commands p)" "s \<in> set (scripts p)" for c s
  proof
    assume eq: "runner_tool_name (rc_name c) = runner_tool_name (''script:'' @ sp_name s)"
    have "rc_name c = sp_name s"
      by (rule v_tools_functional[OF t, of _ "runner_tool_name (rc_name c)"])
        (use that in \<open>auto simp: tool_sources_def eq\<close>)
    with eq runner_tool_name_script[of "sp_name s"] show False by simp
  qed
  ultimately show ?thesis by (auto simp: o_def)
qed

text \<open>
  A profile written by \<^verbatim>\<open>write_raw\<close> reads back: the file text parses to the same data, gives the
  profile that was checked, and that profile is valid.
\<close>

theorem write_load_roundtrip:
  assumes "json_exact data" "write_raw exists data = Inr out"
  shows "loads out = Some data \<and> (\<exists>p. load_profile out = Inr p \<and> build_top data = Inr p \<and> valid_profile exists p)"
proof -
  from assms(2) obtain p ps where p: "build_top data = Inr p" "validate exists p = Some ps"
    "filter (\<lambda>q. \<not> is_warn q) ps = []" and out: "out = dumps (fmt_indent2 False) data @ [CHR 0x0A]"
    by (auto simp: write_raw_def res_iff Let_def split: option.splits if_splits)
  have "loads out = Some data"
    unfolding out by (rule loads_dumps_ws[OF assms(1)]) (simp_all add: jws_def)
  with p show ?thesis
    by (auto simp: load_profile_def valid_profile_def list_all_iff filter_empty_conv)
qed

definition sample_data :: json where
  "sample_data = JObj [(''ProjectDir'', JStr ''/srv/app''), (''git_name'', JStr ''dev''),
     (''GitEmail'', JStr ''a@b''), (''AllowedPorts'', JArr [JInt 3000, JStr ''3001''])]"

text \<open>The gateway port is closed in the policy of a valid profile.\<close>

lemma gateway_port_closed:
  assumes "valid_profile exists p" "exposed_mcps p \<noteq> []"
    and "g = port_or (gateway_port p) DEFAULT_GATEWAY_PORT"
    and "Some g \<notin> rc_port ` set (runner_commands p)"
  shows "g \<notin> set (self_authed (compute_port_policy p)) \<and> \<not> is_port_allowed (compute_port_policy p) g"
proof -
  from valid_profile_sections(8)[OF assms(1)] assms(2,3)
  have w: "list_all is_warn (v_gateway_port p g)" "1 \<le> g" "g \<le> 65534"
    by (auto simp: v_gateway_def Let_def split: if_splits)
  from w(1) have not: "g \<noteq> BRIDGE_PORT" "g \<notin> set (service_ports p)" "g \<notin> set (ok_allowed p)"
    "runner_port' p \<noteq> Some g"
    and rng: "\<And>r. r \<in> set (port_ranges p) \<Longrightarrow> \<not> in_range g r"
    by (auto simp: v_gateway_port_def warn valid_ordered[OF assms(1)] split: option.splits)
  have sv: "g \<notin> hs_port ` set (host_services p)"
    using not(2) by (simp add: service_ports_all[OF assms(1)])
  have al: "g \<notin> set (allowed_ports p)" using not(3) w(2,3) by (auto simp: ok_allowed_def port_ok_def)
  have "runner_ports p \<subseteq> set_option (runner_port' p)"
    using valid_profile_sections(4)[OF assms(1)]
    by (auto simp: v_runner_port_def warn runner_ports_def runner_port'_def port_or_def
        split: option.splits if_splits)
  then have "g \<notin> runner_ports p" using not(4) by auto
  then show ?thesis
    using not(1) sv al rng assms(4)
    by (auto simp: self_authed_compute bearer_ports_def is_port_allowed_def allowed_compute
        open_ports_def list_ex_iff)
qed

end
