(* ===== verification/Envfile.thy ===== *)
theory Envfile
  imports Prelude
begin

text \<open>
  The \<^verbatim>\<open>.env\<close> file (\<^verbatim>\<open>home/rdm/envfile.py\<close>) as the lines it was loaded with, the index of the first line
  of each key and the values still to be appended. The text is what \<^verbatim>\<open>read_text\<close> returns after
  dropping a byte order mark; the temporary file, the permissions and the rename of \<^verbatim>\<open>write\<close> are one
  atomic replacement by the rendered text.
\<close>

section \<open>Definitions\<close>

definition key_ch :: "char \<Rightarrow> bool" where
  "key_ch c \<longleftrightarrow> is_alnum c \<or> c = CHR ''_''"

text \<open>\<^verbatim>\<open>^\s*([A-Za-z0-9_]+)=\<close>\<close>

definition key_line :: "string \<Rightarrow> string option" where
  "key_line line =
     (let s = dropWhile is_ws line; k = takeWhile key_ch s in
      case dropWhile key_ch s of
        c # _ \<Rightarrow> if k \<noteq> [] \<and> c = CHR ''='' then Some k else None
      | [] \<Rightarrow> None)"

definition CANONICAL_ORDER :: "string list" where
  "CANONICAL_ORDER =
     [''PROJECT_DIR'', ''TOOLCHAIN'', ''GIT_NAME'', ''GIT_EMAIL'', ''PREVIEW_ORIGIN'', ''UI_PORT'',
      ''COCKPIT_PORT'', ''SELF_AUTHED_PORTS'', ''ALLOWED_PORTS'', ''ALLOWED_PORT_RANGES'', ''DENIED_PORTS'',
      ''OPENCODE_MCP_PERMISSIONS'', ''SETUP_SCRIPT_B64'', ''PUBLIC_URL'', ''ACTIVE_PROFILE'',
      ''MCP_BEARER_TOKEN'', ''MCP_PUBLIC_TOKEN'', ''INGRESS_TOKEN'', ''VLESS_SUB_URL'',
      ''JOB_TIMEOUT_SECONDS'', ''TUNNEL_TOKEN'', ''TUNNEL_TAIL'']"

record env_file =
  ef_lines :: "string list"
  ef_key_pos :: "(string, nat) dict"
  ef_pending :: "(string, string) dict"

fun index_from :: "nat \<Rightarrow> string list \<Rightarrow> (string, nat) dict \<Rightarrow> (string, nat) dict" where
  "index_from i [] d = d"
| "index_from i (line # rest) d =
     index_from (Suc i) rest
       (case key_line line of
          None \<Rightarrow> d
        | Some k \<Rightarrow> if has_key d k then d else dset k i d)"

definition index_key_lines :: "string list \<Rightarrow> (string, nat) dict" where
  "index_key_lines ls = index_from 0 ls []"

definition ef_empty :: env_file where
  "ef_empty = \<lparr>ef_lines = [], ef_key_pos = [], ef_pending = []\<rparr>"

definition text_lines :: "string \<Rightarrow> string list" where
  "text_lines t =
     (let n = py_replace [CHR 0x0D, CHR 0x0A] [CHR 0x0A] t;
          ls = (if n \<noteq> [] then split_str [CHR 0x0A] n else []) in
      if ends_with [CHR 0x0A] n then butlast ls else ls)"

text \<open>\<^const>\<open>None\<close>: the file does not exist.\<close>

definition ef_load :: "string option \<Rightarrow> env_file" where
  "ef_load t =
     (case t of
        None \<Rightarrow> ef_empty
      | Some s \<Rightarrow> \<lparr>ef_lines = text_lines s, ef_key_pos = index_key_lines (text_lines s), ef_pending = []\<rparr>)"

definition line_value :: "string \<Rightarrow> string" where
  "line_value line = strip (last (split_once ''='' line))"

definition ef_get :: "env_file \<Rightarrow> string \<Rightarrow> string option" where
  "ef_get e k =
     (case dget (ef_key_pos e) k of
        Some pos \<Rightarrow> Some (line_value (ef_lines e ! pos))
      | None \<Rightarrow> dget (ef_pending e) k)"

definition assignment :: "string \<Rightarrow> string \<Rightarrow> string" where
  "assignment k v = k @ CHR ''='' # v"

definition ef_set :: "string \<Rightarrow> string \<Rightarrow> env_file \<Rightarrow> env_file" where
  "ef_set k v e =
     (case dget (ef_key_pos e) k of
        Some pos \<Rightarrow> e\<lparr>ef_lines := (ef_lines e)[pos := assignment k v]\<rparr>
      | None \<Rightarrow> e\<lparr>ef_pending := dset k v (ef_pending e)\<rparr>)"

definition ef_remove :: "string \<Rightarrow> env_file \<Rightarrow> env_file" where
  "ef_remove k e =
     (let e1 = (case dget (ef_key_pos e) k of
                  Some pos \<Rightarrow>
                    let ls = take pos (ef_lines e) @ drop (Suc pos) (ef_lines e) in
                    e\<lparr>ef_lines := ls, ef_key_pos := index_key_lines ls\<rparr>
                | None \<Rightarrow> e) in
      e1\<lparr>ef_pending := ddel k (ef_pending e1)\<rparr>)"

definition ef_as_map :: "env_file \<Rightarrow> (string, string) dict" where
  "ef_as_map e =
     dupdate
       (fold (\<lambda>(i, line). \<lambda>d.
          case key_line line of
            None \<Rightarrow> d
          | Some k \<Rightarrow> if dget (ef_key_pos e) k = Some i then dset k (line_value line) d else d)
          (List.enumerate 0 (ef_lines e)) [])
       (ef_pending e)"

definition pending_order :: "(string, string) dict \<Rightarrow> string list" where
  "pending_order p =
     filter (\<lambda>k. has_key p k) CANONICAL_ORDER @
     sort (remdups (filter (\<lambda>k. k \<notin> set CANONICAL_ORDER) (dkeys p)))"

definition ef_render :: "env_file \<Rightarrow> string" where
  "ef_render e =
     (let appended = map (\<lambda>k. assignment k (the (dget (ef_pending e) k))) (pending_order (ef_pending e));
          ls = ef_lines e @ appended in
      if ls = [] then [] else py_join [CHR 0x0A] ls @ [CHR 0x0A])"

section \<open>The index\<close>

lemma key_not_eq: "key_ch c \<Longrightarrow> c \<noteq> CHR ''='' \<and> \<not> is_ws c \<and> c \<noteq> CHR 0x0A \<and> c \<noteq> CHR 0x0D"
  by (auto simp: key_ch_def char_class_defs)

definition ok_key :: "string \<Rightarrow> bool" where
  "ok_key k \<longleftrightarrow> k \<noteq> [] \<and> list_all key_ch k"

lemma key_line_assignment: "ok_key k \<Longrightarrow> key_line (assignment k v) = Some k"
proof -
  assume ok: "ok_key k"
  then have "\<forall>c \<in> set k. key_ch c" "k \<noteq> []" by (auto simp: ok_key_def list_all_iff)
  moreover have "\<not> key_ch (CHR ''='')" using key_not_eq by blast
  ultimately have "takeWhile key_ch (k @ CHR ''='' # v) = k" "dropWhile key_ch (k @ CHR ''='' # v) = CHR ''='' # v"
    by (simp_all add: takeWhile_append dropWhile_append)
  moreover have "dropWhile is_ws (k @ CHR ''='' # v) = k @ CHR ''='' # v"
    using ok key_not_eq by (cases k) (auto simp: ok_key_def)
  ultimately show ?thesis using ok by (simp add: key_line_def assignment_def ok_key_def)
qed

lemma key_line_ok: "key_line line = Some k \<Longrightarrow> ok_key k"
  by (auto simp: key_line_def ok_key_def list_all_iff Let_def split: list.splits if_splits
      dest: set_takeWhileD)

lemma line_value_assignment: "ok_key k \<Longrightarrow> line_value (assignment k v) = strip v"
proof -
  assume "ok_key k"
  then have "CHR ''='' \<notin> set k" using key_not_eq by (auto simp: ok_key_def list_all_iff)
  then show ?thesis by (simp add: line_value_def assignment_def split_once_def py_partition_char)
qed

text \<open>The index maps a key to the first line that has it.\<close>

definition first_line :: "string list \<Rightarrow> string \<Rightarrow> nat \<Rightarrow> bool" where
  "first_line ls k i \<longleftrightarrow> i < length ls \<and> key_line (ls ! i) = Some k \<and> (\<forall>j < i. key_line (ls ! j) \<noteq> Some k)"

lemma first_line_Cons:
  "first_line (l # ls) k i \<longleftrightarrow>
     (if key_line l = Some k then i = 0 else (\<exists>j. i = Suc j \<and> first_line ls k j))"
  by (cases i) (auto simp: first_line_def All_less_Suc2)

lemma index_from_get:
  "dget (index_from i ls d) k = Some n \<longleftrightarrow>
     dget d k = Some n \<or> dget d k = None \<and> (\<exists>j. first_line ls k j \<and> n = i + j)"
proof (induction i ls d rule: index_from.induct)
  case (1 i d)
  then show ?case by (simp add: first_line_def)
next
  case (2 i l ls d)
  show ?case
  proof (cases "key_line l")
    case None
    with 2 show ?thesis by (auto simp: first_line_Cons)
  next
    case (Some k')
    with 2 show ?thesis
      by (cases "k = k'"; cases "dget d k") (auto simp: first_line_Cons has_key_def)
  qed
qed

lemma index_get: "dget (index_key_lines ls) k = Some n \<longleftrightarrow> first_line ls k n"
  by (simp add: index_key_lines_def index_from_get)

lemma index_get_None: "dget (index_key_lines ls) k = None \<longleftrightarrow> (\<forall>l \<in> set ls. key_line l \<noteq> Some k)"
proof -
  have "(\<exists>n. first_line ls k n) \<longleftrightarrow> (\<exists>l \<in> set ls. key_line l = Some k)"
    by (induction ls) (auto simp: first_line_Cons, auto simp: first_line_def)
  then show ?thesis using index_get[of ls k] by (metis not_None_eq)
qed

section \<open>Invariant\<close>

text \<open>No key has two lines, the index belongs to the lines, and a pending key has no line.\<close>

definition line_keys :: "string list \<Rightarrow> string list" where
  "line_keys ls = List.map_filter key_line ls"

definition ef_inv :: "env_file \<Rightarrow> bool" where
  "ef_inv e \<longleftrightarrow>
     distinct (line_keys (ef_lines e)) \<and> ef_key_pos e = index_key_lines (ef_lines e) \<and>
     distinct (dkeys (ef_pending e)) \<and> (\<forall>k \<in> set (dkeys (ef_pending e)). k \<notin> set (line_keys (ef_lines e)) \<and> ok_key k)"

lemma set_line_keys: "k \<in> set (line_keys ls) \<longleftrightarrow> (\<exists>l \<in> set ls. key_line l = Some k)"
  by (force simp: line_keys_def List.map_filter_def)

lemma line_keys_append [simp]: "line_keys (xs @ ys) = line_keys xs @ line_keys ys"
  by (simp add: line_keys_def List.map_filter_def)

lemma line_keys_single: "line_keys [l] = (case key_line l of None \<Rightarrow> [] | Some k \<Rightarrow> [k])"
  by (simp add: line_keys_def List.map_filter_def split: option.splits)

lemma first_line_split:
  assumes "first_line ls k n" "distinct (line_keys ls)"
  shows "ls = take n ls @ ls ! n # drop (Suc n) ls"
    "k \<notin> set (line_keys (take n ls))" "k \<notin> set (line_keys (drop (Suc n) ls))"
    "line_keys ls = line_keys (take n ls) @ k # line_keys (drop (Suc n) ls)"
proof -
  have n: "n < length ls" "key_line (ls ! n) = Some k" using assms(1) by (auto simp: first_line_def)
  then show 1: "ls = take n ls @ ls ! n # drop (Suc n) ls" by (simp add: id_take_nth_drop)
  have "line_keys ls = line_keys (take n ls @ [ls ! n] @ drop (Suc n) ls)" using 1 by simp
  then show 2: "line_keys ls = line_keys (take n ls) @ k # line_keys (drop (Suc n) ls)"
    using n(2) by (simp only: line_keys_append line_keys_single) simp
  from assms(2) show "k \<notin> set (line_keys (take n ls))" "k \<notin> set (line_keys (drop (Suc n) ls))"
    unfolding 2 by auto
qed

text \<open>With distinct keys, a lookup is the value of the one line that has the key.\<close>

definition lines_map :: "string list \<Rightarrow> (string, string) dict" where
  "lines_map ls = List.map_filter (\<lambda>l. map_option (\<lambda>k. (k, line_value l)) (key_line l)) ls"

lemma lines_map_append [simp]: "lines_map (xs @ ys) = lines_map xs @ lines_map ys"
  by (simp add: lines_map_def List.map_filter_def)

lemma lines_map_single:
  "lines_map [l] = (case key_line l of None \<Rightarrow> [] | Some k \<Rightarrow> [(k, line_value l)])"
  by (simp add: lines_map_def List.map_filter_def split: option.splits)

lemma lines_map_Cons:
  "lines_map (l # ls) = (case key_line l of None \<Rightarrow> lines_map ls | Some k \<Rightarrow> (k, line_value l) # lines_map ls)"
  by (simp add: lines_map_def split: option.splits)

lemma fst_lines_map: "map fst (lines_map ls) = line_keys ls"
  by (induction ls) (auto simp: lines_map_def line_keys_def split: option.splits)

lemma lines_map_None: "k \<notin> set (line_keys ls) \<Longrightarrow> dget (lines_map ls) k = None"
  by (simp add: map_of_eq_None_iff fst_lines_map[symmetric])

lemma ef_get_eq:
  assumes "ef_inv e"
  shows "ef_get e k = (case dget (lines_map (ef_lines e)) k of Some v \<Rightarrow> Some v | None \<Rightarrow> dget (ef_pending e) k)"
proof (cases "dget (ef_key_pos e) k")
  case None
  then have "k \<notin> set (line_keys (ef_lines e))"
    using assms by (auto simp: ef_inv_def index_get_None set_line_keys)
  with None show ?thesis by (simp add: ef_get_def lines_map_None)
next
  case (Some n)
  then have f: "first_line (ef_lines e) k n" and d: "distinct (line_keys (ef_lines e))"
    using assms by (auto simp: ef_inv_def index_get)
  from first_line_split[OF f d] have "lines_map (ef_lines e) =
      lines_map (take n (ef_lines e) @ [ef_lines e ! n] @ drop (Suc n) (ef_lines e))" by simp
  also have "\<dots> = lines_map (take n (ef_lines e)) @ (k, line_value (ef_lines e ! n)) # lines_map (drop (Suc n) (ef_lines e))"
    using f by (simp only: lines_map_append lines_map_single) (simp add: first_line_def)
  finally have "dget (lines_map (ef_lines e)) k = Some (line_value (ef_lines e ! n))"
    using lines_map_None[OF first_line_split(2)[OF f d]] by (simp add: map_add_def)
  with Some show ?thesis by (simp add: ef_get_def)
qed

section \<open>The operations keep the invariant\<close>

lemma index_cong: "map key_line ls = map key_line ls' \<Longrightarrow> index_key_lines ls = index_key_lines ls'"
proof -
  assume eq: "map key_line ls = map key_line ls'"
  then have "length ls = length ls'" by (rule map_eq_imp_length_eq)
  then have "map key_line ls = map key_line ls' \<longrightarrow> index_from i ls d = index_from i ls' d" for i d
    by (induction ls ls' arbitrary: i d rule: list_induct2) simp_all
  with eq show ?thesis by (simp add: index_key_lines_def)
qed

lemma ef_set_line:
  assumes "ef_inv e" "dget (ef_key_pos e) k = Some n"
  shows "ok_key k" "map key_line ((ef_lines e)[n := assignment k v]) = map key_line (ef_lines e)"
    "dget (lines_map ((ef_lines e)[n := assignment k v])) k' =
       (if k' = k then Some (strip v) else dget (lines_map (ef_lines e)) k')"
proof -
  let ?ls = "ef_lines e"
  have f: "first_line ?ls k n" and d: "distinct (line_keys ?ls)"
    using assms by (auto simp: ef_inv_def index_get)
  then have n: "n < length ?ls" "key_line (?ls ! n) = Some k" by (auto simp: first_line_def)
  then show ok: "ok_key k" using key_line_ok by blast
  show "map key_line (?ls[n := assignment k v]) = map key_line ?ls"
    using n by (simp add: map_update key_line_assignment[OF ok] list_update_same_conv)
  have new: "lines_map (?ls[n := assignment k v]) =
      lines_map (take n ?ls) @ (k, strip v) # lines_map (drop (Suc n) ?ls)"
  proof -
    have "?ls[n := assignment k v] = take n ?ls @ [assignment k v] @ drop (Suc n) ?ls"
      using n(1) by (simp add: upd_conv_take_nth_drop)
    then show ?thesis
      by (simp add: lines_map_Cons key_line_assignment[OF ok] line_value_assignment[OF ok])
  qed
  have old: "lines_map ?ls = lines_map (take n ?ls) @ (k, line_value (?ls ! n)) # lines_map (drop (Suc n) ?ls)"
  proof -
    have "lines_map ?ls = lines_map (take n ?ls @ [?ls ! n] @ drop (Suc n) ?ls)"
      using first_line_split(1)[OF f d] by simp
    then show ?thesis using n(2) by (simp only: lines_map_append lines_map_single) simp
  qed
  show "dget (lines_map (?ls[n := assignment k v])) k' =
       (if k' = k then Some (strip v) else dget (lines_map ?ls) k')"
    unfolding new old using lines_map_None[OF first_line_split(2)[OF f d]]
    by (auto simp: map_add_def split: option.splits)
qed

lemma ef_set_None: "dget (ef_key_pos e) k = None \<Longrightarrow> ef_set k v e = e\<lparr>ef_pending := dset k v (ef_pending e)\<rparr>"
  by (simp add: ef_set_def)

lemma ef_set_Some:
  "dget (ef_key_pos e) k = Some n \<Longrightarrow> ef_set k v e = e\<lparr>ef_lines := (ef_lines e)[n := assignment k v]\<rparr>"
  by (simp add: ef_set_def)

lemma ef_no_line: "ef_inv e \<Longrightarrow> dget (ef_key_pos e) k = None \<Longrightarrow> k \<notin> set (line_keys (ef_lines e))"
  by (auto simp: ef_inv_def index_get_None set_line_keys)

lemma ef_set_inv: "ef_inv e \<Longrightarrow> ok_key k \<Longrightarrow> ef_inv (ef_set k v e)"
proof (cases "dget (ef_key_pos e) k")
  case None
  assume "ef_inv e" "ok_key k"
  with ef_no_line[OF _ None] show ?thesis
    unfolding ef_set_None[OF None] ef_inv_def
    by (auto simp: update_keys image_iff split: if_splits)
next
  case (Some n)
  assume inv: "ef_inv e"
  have same: "map key_line ((ef_lines e)[n := assignment k v]) = map key_line (ef_lines e)"
    by (rule ef_set_line(2)[OF inv Some])
  have "line_keys ((ef_lines e)[n := assignment k v]) = line_keys (ef_lines e)"
  proof -
    have "line_keys xs = List.map_filter id (map key_line xs)" for xs
      by (simp add: line_keys_def List.map_filter_def filter_map o_def)
    then show ?thesis using same by simp
  qed
  with inv index_cong[OF same] show ?thesis unfolding ef_set_Some[OF Some] ef_inv_def by simp
qed

lemma ef_get_set:
  assumes "ef_inv e" "ok_key k"
  shows "strip v = v \<Longrightarrow> ef_get (ef_set k v e) k = Some v"
    and "k' \<noteq> k \<Longrightarrow> ef_get (ef_set k v e) k' = ef_get e k'"
proof -
  note new = ef_get_eq[OF ef_set_inv[OF assms], of v] and old = ef_get_eq[OF assms(1)]
  have "(strip v = v \<longrightarrow> ef_get (ef_set k v e) k = Some v) \<and> (k' \<noteq> k \<longrightarrow> ef_get (ef_set k v e) k' = ef_get e k')"
  proof (cases "dget (ef_key_pos e) k")
    case None
    have "dget (lines_map (ef_lines e)) k = None" by (rule lines_map_None[OF ef_no_line[OF assms(1) None]])
    then show ?thesis
      using new[of k] new[of k'] old[of k'] by (auto simp: ef_set_None[OF None] split: option.splits)
  next
    case (Some n)
    show ?thesis
      using new[of k] new[of k'] old[of k'] ef_set_line(3)[OF assms(1) Some, of v k]
        ef_set_line(3)[OF assms(1) Some, of v k']
      by (simp add: ef_set_Some[OF Some] split: option.splits)
  qed
  then show "strip v = v \<Longrightarrow> ef_get (ef_set k v e) k = Some v"
    "k' \<noteq> k \<Longrightarrow> ef_get (ef_set k v e) k' = ef_get e k'" by blast+
qed

lemma ef_remove_lines:
  assumes "ef_inv e"
  shows "line_keys (ef_lines (ef_remove k e)) = removeAll k (line_keys (ef_lines e))"
    "k' \<noteq> k \<Longrightarrow> dget (lines_map (ef_lines (ef_remove k e))) k' = dget (lines_map (ef_lines e)) k'"
    "ef_key_pos (ef_remove k e) = index_key_lines (ef_lines (ef_remove k e))"
    "ef_pending (ef_remove k e) = ddel k (ef_pending e)"
proof -
  let ?ls = "ef_lines e"
  show "ef_pending (ef_remove k e) = ddel k (ef_pending e)"
    by (simp add: ef_remove_def Let_def split: option.splits)
  show "ef_key_pos (ef_remove k e) = index_key_lines (ef_lines (ef_remove k e))"
    using assms by (simp add: ef_remove_def Let_def ef_inv_def split: option.splits)
  have "line_keys (ef_lines (ef_remove k e)) = removeAll k (line_keys ?ls) \<and>
    (k' \<noteq> k \<longrightarrow> dget (lines_map (ef_lines (ef_remove k e))) k' = dget (lines_map ?ls) k')"
  proof (cases "dget (ef_key_pos e) k")
    case None
    then have "k \<notin> set (line_keys ?ls)" using assms by (auto simp: ef_inv_def index_get_None set_line_keys)
    with None show ?thesis by (simp add: ef_remove_def)
  next
    case (Some n)
    then have f: "first_line ?ls k n" and d: "distinct (line_keys ?ls)"
      using assms by (auto simp: ef_inv_def index_get)
    have old: "lines_map ?ls = lines_map (take n ?ls) @ (k, line_value (?ls ! n)) # lines_map (drop (Suc n) ?ls)"
    proof -
      have "lines_map ?ls = lines_map (take n ?ls @ [?ls ! n] @ drop (Suc n) ?ls)"
        using first_line_split(1)[OF f d] by simp
      then show ?thesis using f by (simp only: lines_map_append lines_map_single) (simp add: first_line_def)
    qed
    show ?thesis using Some first_line_split(2-4)[OF f d]
      by (simp add: ef_remove_def old map_add_def Let_def split: option.splits)
  qed
  then show "line_keys (ef_lines (ef_remove k e)) = removeAll k (line_keys ?ls)"
    "k' \<noteq> k \<Longrightarrow> dget (lines_map (ef_lines (ef_remove k e))) k' = dget (lines_map ?ls) k'" by auto
qed

lemma ef_remove_inv: "ef_inv e \<Longrightarrow> ef_inv (ef_remove k e)"
proof -
  assume inv: "ef_inv e"
  have "fst ` set (ddel k (ef_pending e)) = fst ` set (ef_pending e) - {k}"
    using delete_keys[of k "ef_pending e"] by (metis list.set_map set_removeAll)
  moreover from inv have "distinct (line_keys (ef_lines e))" "distinct (dkeys (ef_pending e))"
    "\<forall>x \<in> fst ` set (ef_pending e). x \<notin> set (line_keys (ef_lines e)) \<and> ok_key x"
    by (auto simp: ef_inv_def)
  ultimately show ?thesis
    unfolding ef_inv_def[of "ef_remove k e"] ef_remove_lines[OF inv] set_map
    by (auto simp: distinct_removeAll distinct_delete)
qed

lemma ef_get_remove:
  assumes "ef_inv e"
  shows "ef_get (ef_remove k e) k' = (if k' = k then None else ef_get e k')"
proof (cases "k' = k")
  case True
  have "k \<notin> set (line_keys (ef_lines (ef_remove k e)))" by (simp add: ef_remove_lines[OF assms])
  from lines_map_None[OF this] True show ?thesis
    by (simp add: ef_get_eq[OF ef_remove_inv[OF assms]] ef_remove_lines(4)[OF assms])
next
  case False
  then show ?thesis
    by (simp add: ef_get_eq[OF ef_remove_inv[OF assms]] ef_get_eq[OF assms] ef_remove_lines[OF assms]
        split: option.splits)
qed

text \<open>The file is a key-value store for keys of the right form and values without white space
  around them.\<close>

interpretation env_kv: kv_store ef_get ef_set "ef_remove" ok_key "\<lambda>v. strip v = v" ef_inv
  by unfold_locales (auto simp: ef_get_set ef_get_remove ef_set_inv ef_remove_inv)

section \<open>The map, and writing and reading back\<close>

lemma as_map_fold:
  assumes "\<And>j k. j < length ls \<Longrightarrow> key_line (ls ! j) = Some k \<Longrightarrow> dget pos k = Some (i + j)"
  shows "fold (\<lambda>(i, line). \<lambda>d. case key_line line of None \<Rightarrow> d
      | Some k \<Rightarrow> if dget pos k = Some i then dset k (line_value line) d else d) (List.enumerate i ls) d
    = dupdate d (lines_map ls)"
  using assms
proof (induction ls arbitrary: i d)
  case (Cons l ls)
  have "dget pos k = Some (Suc i + j)" if "j < length ls" "key_line (ls ! j) = Some k" for j k
    using Cons.prems[of "Suc j" k] that by simp
  note IH = Cons.IH[OF this]
  show ?case
  proof (cases "key_line l")
    case None
    with IH show ?thesis by (simp add: lines_map_Cons)
  next
    case (Some k)
    with Cons.prems[of 0 k] have "dget pos k = Some i" by simp
    with IH Some show ?thesis by (simp add: lines_map_Cons dupdate_def)
  qed
qed (simp add: dupdate_def lines_map_def)

lemma ef_as_map_get:
  assumes "ef_inv e"
  shows "dget (ef_as_map e) k = ef_get e k"
proof -
  have dist: "distinct (line_keys (ef_lines e))" and pos: "ef_key_pos e = index_key_lines (ef_lines e)"
    using assms by (auto simp: ef_inv_def)
  have "dget (ef_key_pos e) k' = Some (0 + j)"
    if j: "j < length (ef_lines e)" "key_line (ef_lines e ! j) = Some k'" for j k'
  proof -
    obtain n where n: "first_line (ef_lines e) k' n"
      using j index_get_None[of "ef_lines e" k'] index_get by (metis not_None_eq nth_mem)
    have "j = n"
    proof (rule ccontr)
      assume "j \<noteq> n"
      with n j have "n < j" by (metis first_line_def linorder_neqE_nat)
      then have "ef_lines e ! j = drop (Suc n) (ef_lines e) ! (j - Suc n)"
        "j - Suc n < length (drop (Suc n) (ef_lines e))" using j(1) by auto
      then have "ef_lines e ! j \<in> set (drop (Suc n) (ef_lines e))" by (metis nth_mem)
      with j(2) first_line_split(3)[OF n dist] show False by (auto simp: set_line_keys)
    qed
    with n show ?thesis by (simp add: pos index_get)
  qed
  note fold = as_map_fold[of "ef_lines e" "ef_key_pos e" 0 "[]", OF this]
  have "distinct (dkeys (lines_map (ef_lines e)))" using dist by (simp add: fst_lines_map)
  moreover have "distinct (dkeys (ef_pending e))" using assms by (simp add: ef_inv_def)
  ultimately have "dget (ef_as_map e) k =
      (case dget (ef_pending e) k of Some v \<Rightarrow> Some v | None \<Rightarrow> dget (lines_map (ef_lines e)) k)"
    by (simp add: ef_as_map_def fold dget_dupdate split: option.splits)
  moreover have "dget (lines_map (ef_lines e)) k = None" if "dget (ef_pending e) k = Some v" for v
    using assms that by (auto intro!: lines_map_None simp: ef_inv_def dest!: map_of_SomeD)
  ultimately show ?thesis by (auto simp: ef_get_eq[OF assms] split: option.splits)
qed

text \<open>No line, and no value to append, holds a line ending.\<close>

definition one_line :: "string \<Rightarrow> bool" where
  "one_line s \<longleftrightarrow> CHR 0x0A \<notin> set s \<and> CHR 0x0D \<notin> set s"

definition ef_clean :: "env_file \<Rightarrow> bool" where
  "ef_clean e \<longleftrightarrow> list_all one_line (ef_lines e) \<and> list_all (\<lambda>p. one_line (snd p)) (ef_pending e)"

lemma text_lines_render:
  assumes "list_all one_line ls"
  shows "text_lines (if ls = [] then [] else py_join [CHR 0x0A] ls @ [CHR 0x0A]) = ls"
proof (cases "ls = []")
  case True
  have "text_lines [] = []" by code_simp
  with True show ?thesis by simp
next
  case False
  define t where "t = py_join [CHR 0x0A] ls @ [CHR 0x0A]"
  have join: "t = py_join [CHR 0x0A] (ls @ [[]])"
    unfolding t_def using False by (induction "[CHR 0x0A]" ls rule: py_join.induct) auto
  have "c \<in> set (py_join [CHR 0x0A] xs) \<Longrightarrow> c = CHR 0x0A \<or> (\<exists>x \<in> set xs. c \<in> set x)" for c xs
    by (induction "[CHR 0x0A]" xs rule: py_join.induct) auto
  then have "CHR 0x0D \<notin> set t"
    using assms unfolding t_def by (fastforce simp: list_all_iff one_line_def)
  then have "\<not> contains_sub [CHR 0x0D, CHR 0x0A] t" by (auto simp: contains_sub_iff)
  then have n: "py_replace [CHR 0x0D, CHR 0x0A] [CHR 0x0A] t = t" by (rule py_replace_absent)
  have "split_str [CHR 0x0A] t = ls @ [[]]"
    unfolding join using assms by (intro split_str_join) (auto simp: list_all_iff one_line_def)
  moreover have "ends_with [CHR 0x0A] t" "t \<noteq> []" by (simp_all add: t_def ends_with_def)
  ultimately show ?thesis using False n by (simp add: text_lines_def t_def[symmetric])
qed

lemma pending_order_props:
  assumes "distinct (dkeys p)"
  shows "set (pending_order p) = set (dkeys p)" "distinct (pending_order p)"
proof -
  have "distinct CANONICAL_ORDER" by (simp add: CANONICAL_ORDER_def)
  then show "distinct (pending_order p)" by (auto simp: pending_order_def)
  show "set (pending_order p) = set (dkeys p)"
    by (auto simp: pending_order_def has_key_def map_of_eq_None_iff image_iff)
qed

definition appended_lines :: "(string, string) dict \<Rightarrow> string list" where
  "appended_lines p = map (\<lambda>k. assignment k (the (dget p k))) (pending_order p)"

lemma ef_render_lines:
  "ef_render e =
     (let ls = ef_lines e @ appended_lines (ef_pending e) in
      if ls = [] then [] else py_join [CHR 0x0A] ls @ [CHR 0x0A])"
  by (simp add: ef_render_def appended_lines_def Let_def)

lemma appended_line_keys:
  assumes "\<forall>k \<in> set ks. ok_key k"
  shows "line_keys (map (\<lambda>k. assignment k (f k)) ks) = ks"
    "lines_map (map (\<lambda>k. assignment k (f k)) ks) = map (\<lambda>k. (k, strip (f k))) ks"
  using assms
  by (induction ks)
    (simp_all add: line_keys_def lines_map_Cons key_line_assignment line_value_assignment, simp add: lines_map_def)

lemma load_render:
  assumes "ef_inv e" "ef_clean e"
  shows "ef_inv (ef_load (Some (ef_render e)))"
    "ef_get (ef_load (Some (ef_render e))) k = map_option strip (ef_get e k)"
proof -
  let ?p = "ef_pending e"
  define ls where "ls = ef_lines e @ appended_lines ?p"
  have dist: "distinct (dkeys ?p)" and dl: "distinct (line_keys (ef_lines e))"
    and ok: "\<forall>k \<in> set (dkeys ?p). ok_key k \<and> k \<notin> set (line_keys (ef_lines e))"
    using assms(1) by (auto simp: ef_inv_def)
  note po = pending_order_props[OF dist]
  have app: "line_keys (appended_lines ?p) = pending_order ?p"
    "lines_map (appended_lines ?p) = map (\<lambda>k. (k, strip (the (dget ?p k)))) (pending_order ?p)"
    unfolding appended_lines_def using ok po by (intro appended_line_keys; auto)+
  have "one_line (assignment k (the (dget ?p k)))" if "k \<in> set (pending_order ?p)" for k
  proof -
    have "dget ?p k \<noteq> None" using that po by (simp add: map_of_eq_None_iff)
    then obtain v where v: "dget ?p k = Some v" by blast
    moreover from v have "one_line v" using assms(2) by (auto simp: ef_clean_def list_all_iff dest!: map_of_SomeD)
    moreover have "ok_key k" using ok that po by auto
    then have "one_line k" using key_not_eq by (auto simp: ok_key_def one_line_def list_all_iff)
    ultimately show ?thesis by (simp add: assignment_def one_line_def)
  qed
  then have "list_all one_line ls"
    using assms(2) by (auto simp: ls_def ef_clean_def appended_lines_def list_all_iff)
  then have tl: "text_lines (ef_render e) = ls"
    using text_lines_render[of ls] by (simp add: ef_render_lines ls_def[symmetric] Let_def)
  show inv: "ef_inv (ef_load (Some (ef_render e)))"
    using dl po ok app by (auto simp: ef_inv_def ef_load_def tl ls_def)
  have "dget (map (\<lambda>k. (k, strip (the (dget ?p k)))) (pending_order ?p)) k = map_option strip (dget ?p k)"
  proof (cases "k \<in> set (dkeys ?p)")
    case True
    then have "dget ?p k \<noteq> None" by (simp add: map_of_eq_None_iff)
    then obtain v where "dget ?p k = Some v" by blast
    with True po show ?thesis by (simp add: map_of_map_restrict restrict_map_def)
  next
    case False
    then have "dget ?p k = None" by (simp add: map_of_eq_None_iff)
    with False po show ?thesis by (simp add: map_of_map_restrict restrict_map_def)
  qed
  then have "ef_get (ef_load (Some (ef_render e))) k =
      (case dget (lines_map (ef_lines e)) k of Some v \<Rightarrow> Some v | None \<Rightarrow> map_option strip (dget ?p k))"
    by (simp add: ef_get_eq[OF inv]) (auto simp: ef_load_def tl ls_def app map_add_def split: option.splits)
  moreover have "strip v = v" if "dget (lines_map (ef_lines e)) k = Some v" for v
    using map_of_SomeD[OF that] by (auto simp: lines_map_def List.map_filter_def line_value_def)
  ultimately show "ef_get (ef_load (Some (ef_render e))) k = map_option strip (ef_get e k)"
    by (auto simp: ef_get_eq[OF assms(1)] split: option.splits)
qed

section \<open>Properties\<close>

text \<open>
  What is written to the \<^verbatim>\<open>.env\<close> file is what is read back: after loading the rendered text every
  lookup gives the value it gave before, without the white space around it, and the file
  satisfies its invariant again.
\<close>

theorem env_load_render:
  assumes "ef_inv e" "ef_clean e"
  shows "ef_inv (ef_load (Some (ef_render e))) \<and>
    (\<forall>k. ef_get (ef_load (Some (ef_render e))) k = map_option strip (ef_get e k))"
  using load_render[OF assms] by blast

definition sample_env :: env_file where
  "sample_env = ef_set ''ZED'' ''1'' (ef_set ''GIT_NAME'' ''dev'' (ef_load (Some ''# c'')))"

lemma sample_env_ok: "ef_inv sample_env" "ef_clean sample_env"
  by code_simp+

text \<open>
  Removing a key that the file has twice does not remove it: the next line with the key, which
  the first one had hidden, becomes its value.
\<close>

theorem env_remove_resurfaces:
  assumes "ok_key k" "strip v = v" "strip w = w"
    and "e = \<lparr>ef_lines = [assignment k v, assignment k w],
      ef_key_pos = index_key_lines [assignment k v, assignment k w], ef_pending = []\<rparr>"
  shows "ef_get e k = Some v \<and> ef_get (ef_remove k e) k = Some w"
proof -
  have "index_key_lines [assignment k v, assignment k w] = [(k, 0)]" "index_key_lines [assignment k w] = [(k, 0)]"
    by (simp_all add: index_key_lines_def key_line_assignment[OF assms(1)] has_key_def)
  then show ?thesis
    using assms by (simp add: ef_get_def ef_remove_def line_value_assignment Let_def)
qed

end
