(* ===== verification/Framing.thy ===== *)
theory Framing
  imports Prelude
begin

text \<open>
  Request heads (\<^verbatim>\<open>home/rdm/proxy/framing.py\<close>) and the headers sent upstream
  (\<^verbatim>\<open>home/rdm/proxy/upstream.py\<close>). Bytes are strings of \<^typ>\<open>char\<close>. \<^verbatim>\<open>FramingRejected\<close> is an \<open>Inl\<close>
  carrying its decision. The frozen sets are lists used for membership only.
\<close>

section \<open>Limits and tables\<close>

definition MAX_BODY :: nat where
  "MAX_BODY = 50 * 1024 * 1024"

definition MAX_HEADER_BYTES :: nat where
  "MAX_HEADER_BYTES = 64 * 1024"

definition MAX_HEADER_LINE :: nat where
  "MAX_HEADER_LINE = 8 * 1024"

definition MAX_HEADER_COUNT :: nat where
  "MAX_HEADER_COUNT = 100"

definition BODYLESS :: "string list" where
  "BODYLESS = [''GET'', ''HEAD'', ''DELETE'', ''OPTIONS'']"

definition BODY_REQUIRED :: "string list" where
  "BODY_REQUIRED = [''POST'', ''PUT'', ''PATCH'']"

definition DUP_FORBIDDEN :: "string list" where
  "DUP_FORBIDDEN =
     [''transfer-encoding'', ''host'', ''authorization'', ''upgrade'', ''connection'', ''expect'']"

definition HOP_BY_HOP :: "string list" where
  "HOP_BY_HOP = [''connection'', ''keep-alive'', ''proxy-authenticate'', ''proxy-authorization'',
     ''te'', ''trailer'', ''transfer-encoding'', ''upgrade'']"

abbreviation CRLF :: string where
  "CRLF \<equiv> [CHR 0x0D, CHR 0x0A]"

abbreviation strip_ows :: "string \<Rightarrow> string" where
  "strip_ows \<equiv> strip_by (\<lambda>c. c = CHR '' '' \<or> c = CHR 0x09)"

type_synonym headers = "(string \<times> string) list"

datatype body_framing = NONE | LENGTH

datatype framing_decision =
    FramingOk body_framing nat bool
  | FramingError nat string

type_synonym 'a rejecting = "framing_decision + 'a"

lemmas framing_limits =
  MAX_BODY_def MAX_HEADER_BYTES_def MAX_HEADER_LINE_def MAX_HEADER_COUNT_def

section \<open>Parsing\<close>

text \<open>\<^verbatim>\<open>([^ ]+) ([^ ]+) ([^ ]+)\<close> against the whole line: three non-empty words.\<close>

definition parse_request_line :: "string \<Rightarrow> (string \<times> string \<times> string) rejecting" where
  "parse_request_line line =
     (case split_str '' '' line of
        [m, t, v] \<Rightarrow>
          if m = [] \<or> t = [] \<or> v = [] then Inl (FramingError 400 ''malformed request line'')
          else Inr (m, t, v)
      | _ \<Rightarrow> Inl (FramingError 400 ''malformed request line''))"

definition reject_bare_line_endings :: "string \<Rightarrow> unit rejecting" where
  "reject_bare_line_endings head =
     (let plain = py_replace CRLF [] head in
      if CHR 0x0D \<in> set plain \<or> CHR 0x0A \<in> set plain
      then Inl (FramingError 400 ''bare line ending'') else Inr ())"

definition parse_header_line :: "string \<Rightarrow> (string \<times> string) rejecting" where
  "parse_header_line line =
     (if take 1 line \<in> {'' '', [CHR 0x09]} then Inl (FramingError 400 ''obsolete line folding'')
      else case py_partition '':'' line of (name, separator, val) \<Rightarrow>
        if \<not> separator \<or> name = [] \<or> CHR '' '' \<in> set name \<or> CHR 0x09 \<in> set name
        then Inl (FramingError 400 ''invalid header line'')
        else Inr (lower name, val))"

definition parse_head :: "string \<Rightarrow> headers rejecting" where
  "parse_head block = (if block = [] then Inr [] else rtraverse parse_header_line (split_str CRLF block))"

text \<open>\<^verbatim>\<open>[0-9]{1,19}\<close>\<close>

definition is_length_token :: "string \<Rightarrow> bool" where
  "is_length_token t \<longleftrightarrow> 1 \<le> length t \<and> length t \<le> 19 \<and> list_all is_digit t"

definition length_tokens :: "string list \<Rightarrow> string list" where
  "length_tokens vals = map strip_ows (concat (map (split_str '','') vals))"

definition parse_content_length :: "string list \<Rightarrow> nat rejecting" where
  "parse_content_length vals =
     (let tokens = length_tokens vals in
      if tokens = [] \<or> \<not> list_all is_length_token tokens
      then Inl (FramingError 400 ''invalid content-length'')
      else case remdups (map digits_val tokens) of
        [n] \<Rightarrow> Inr n
      | _ \<Rightarrow> Inl (FramingError 400 ''conflicting content-length''))"

definition is_ascii :: "string \<Rightarrow> bool" where
  "is_ascii s \<longleftrightarrow> list_all (\<lambda>c. code c < 128) s"

text \<open>The function always raises; the result is the decision it raises.\<close>

definition validate_transfer_encoding :: "string list \<Rightarrow> framing_decision" where
  "validate_transfer_encoding vals =
     (if \<not> list_all is_ascii vals then FramingError 400 ''non-ascii transfer-encoding''
      else let tokens = map (\<lambda>p. lower (strip_ows p)) (concat (map (split_str '','') vals)) in
        if tokens = [] \<or> [] \<in> set tokens then FramingError 400 ''empty transfer coding''
        else if 1 < count_list tokens ''chunked'' then FramingError 400 ''duplicate chunked coding''
        else if ''chunked'' \<in> set tokens \<and> last tokens \<noteq> ''chunked''
        then FramingError 400 ''chunked coding not final''
        else if list_ex (\<lambda>t. t \<noteq> ''chunked'') tokens then FramingError 501 ''unknown transfer coding''
        else FramingError 501 ''chunked transfer coding unsupported'')"

section \<open>Validation\<close>

definition header_values :: "string \<Rightarrow> headers \<Rightarrow> string list" where
  "header_values n hs = map snd (filter (\<lambda>h. fst h = n) hs)"

definition header_malformed :: "string \<times> string \<Rightarrow> bool" where
  "header_malformed h \<longleftrightarrow> fst h = [] \<or> CHR 0x0D \<in> set (fst h @ snd h) \<or> CHR 0x0A \<in> set (fst h @ snd h)"

definition line_size :: "string \<times> string \<Rightarrow> nat" where
  "line_size h = length (fst h) + length (snd h) + 2"

definition check_expect :: "headers \<Rightarrow> bool rejecting" where
  "check_expect hs =
     (case header_values ''expect'' hs of
        [] \<Rightarrow> Inr False
      | e # _ \<Rightarrow>
          if lower (strip_ows e) \<noteq> ''100-continue'' then Inl (FramingError 417 ''unsupported expectation'')
          else Inr True)"

definition check_lengths :: "headers \<Rightarrow> nat option rejecting" where
  "check_lengths hs =
     (let has_te = header_values ''transfer-encoding'' hs \<noteq> [];
          cls = header_values ''content-length'' hs in
      if has_te \<and> cls \<noteq> [] then Inl (FramingError 400 ''transfer-encoding with content-length'')
      else if has_te then Inl (validate_transfer_encoding (header_values ''transfer-encoding'' hs))
      else if cls = [] then Inr None
      else rbind (parse_content_length cls) (\<lambda>n. Inr (Some n)))"

definition body_decision :: "string \<Rightarrow> nat option \<Rightarrow> bool \<Rightarrow> framing_decision" where
  "body_decision verb cl expect =
     (if (case cl of None \<Rightarrow> False | Some n \<Rightarrow> MAX_BODY < n) then FramingError 413 ''payload too large''
      else if verb = ''HEAD'' \<and> (case cl of None \<Rightarrow> False | Some n \<Rightarrow> n \<noteq> 0)
      then FramingError 400 ''HEAD with body''
      else if verb \<in> set BODYLESS
      then FramingOk (if cl = None then NONE else LENGTH) (case cl of None \<Rightarrow> 0 | Some n \<Rightarrow> n) expect
      else if verb \<in> set BODY_REQUIRED \<and> cl = None then FramingError 411 ''length required''
      else case cl of None \<Rightarrow> FramingOk NONE 0 expect | Some n \<Rightarrow> FramingOk LENGTH n expect)"

definition validate_head :: "string \<Rightarrow> string \<Rightarrow> string \<Rightarrow> headers \<Rightarrow> framing_decision" where
  "validate_head meth target version hs =
     (if list_ex header_malformed hs then FramingError 400 ''malformed header''
      else if list_ex (\<lambda>h. MAX_HEADER_LINE < line_size h) hs then FramingError 431 ''header line too long''
      else if MAX_HEADER_COUNT < length hs \<or> MAX_HEADER_BYTES < sum_list (map line_size hs)
      then FramingError 431 ''header block too large''
      else if version \<notin> {''HTTP/1.0'', ''HTTP/1.1''} then FramingError 505 ''HTTP version not supported''
      else if list_ex (\<lambda>n. 1 < length (header_values n hs)) DUP_FORBIDDEN
      then FramingError 400 ''duplicate singleton header''
      else case check_lengths hs of
        Inl d \<Rightarrow> d
      | Inr cl \<Rightarrow>
          (case check_expect hs of
             Inl d \<Rightarrow> d
           | Inr expect \<Rightarrow> body_decision (upper meth) cl expect))"

definition parse_request :: "string \<Rightarrow> (string \<times> string \<times> string \<times> headers) rejecting" where
  "parse_request head =
     (case py_partition CRLF head of (line, _, block) \<Rightarrow>
        rbind (parse_request_line line) (\<lambda>(m, t, v). rbind (parse_head block) (\<lambda>hs. Inr (m, t, v, hs))))"

definition validate_request :: "string \<Rightarrow> framing_decision" where
  "validate_request head =
     (case rbind (reject_bare_line_endings head) (\<lambda>_. parse_request head) of
        Inl d \<Rightarrow> d
      | Inr (m, t, v, hs) \<Rightarrow> validate_head m t v hs)"

definition connection_tokens :: "headers \<Rightarrow> string list" where
  "connection_tokens hs =
     filter (\<lambda>t. t \<noteq> [])
       (map (\<lambda>t. lower (strip_ows t)) (concat (map (split_str '','') (header_values ''connection'' hs))))"

definition hop_by_hop :: "headers \<Rightarrow> headers" where
  "hop_by_hop hs = filter (\<lambda>h. fst h \<in> set (HOP_BY_HOP @ connection_tokens hs)) hs"

section \<open>Upstream headers\<close>

definition client_ip_header :: "string option \<Rightarrow> headers" where
  "client_ip_header ip =
     (case ip of None \<Rightarrow> [] | Some i \<Rightarrow> if i = [] then [] else [(''x-forwarded-for'', i)])"

definition filter_forward_headers :: "headers \<Rightarrow> string \<Rightarrow> string option \<Rightarrow> string \<Rightarrow> headers" where
  "filter_forward_headers hs host_header client_ip proto =
     (let named = map fst (hop_by_hop hs) @ [''host'', ''x-forwarded-host'', ''expect''] in
      filter (\<lambda>h. fst h \<notin> set named) hs @
      [(''host'', host_header), (''connection'', ''close'')] @
      client_ip_header client_ip @ [(''x-forwarded-proto'', proto)])"

definition filter_upgrade_headers :: "headers \<Rightarrow> string \<Rightarrow> string option \<Rightarrow> string \<Rightarrow> headers" where
  "filter_upgrade_headers hs host_header client_ip proto =
     filter (\<lambda>h. fst h \<notin> {''host'', ''x-forwarded-host''}) hs @
     [(''host'', host_header)] @ client_ip_header client_ip @ [(''x-forwarded-proto'', proto)]"

text \<open>What \<^verbatim>\<open>send_head\<close> and \<^verbatim>\<open>send_body\<close> put on the upstream connection: \<^verbatim>\<open>http.client\<close> writes the request
  line and each header as given, the host and accept-encoding headers being skipped.\<close>

definition header_lines :: "headers \<Rightarrow> string" where
  "header_lines hs = concat (map (\<lambda>(n, v). n @ '': '' @ v @ CRLF) hs)"

definition send_head :: "string \<Rightarrow> string \<Rightarrow> headers \<Rightarrow> string" where
  "send_head meth path hs = meth @ '' '' @ path @ '' HTTP/1.1'' @ CRLF @ header_lines hs @ CRLF"

definition send_body :: "string \<Rightarrow> string" where
  "send_body body = (if body \<noteq> [] then body else [])"

section \<open>Facts\<close>

lemma header_values_nil: "header_values n hs = [] \<longleftrightarrow> n \<notin> fst ` set hs"
  by (auto simp: header_values_def filter_empty_conv)

lemma validate_transfer_encoding_error:
  "\<exists>s r. validate_transfer_encoding vals = FramingError s r"
  by (simp add: validate_transfer_encoding_def Let_def)

lemma parse_content_length_Inr [res_iff]:
  "parse_content_length vals = Inr n \<longleftrightarrow>
     length_tokens vals \<noteq> [] \<and> (\<forall>t \<in> set (length_tokens vals). is_length_token t \<and> digits_val t = n)"
proof -
  have "remdups xs = [n] \<longleftrightarrow> xs \<noteq> [] \<and> set xs = {n}" for xs :: "nat list"
  proof
    assume A: "xs \<noteq> [] \<and> set xs = {n}"
    then have *: "set (remdups xs) = {n}" "distinct (remdups xs)" by auto
    then show "remdups xs = [n]"
      by (cases "remdups xs"; cases "tl (remdups xs)") auto
  next
    assume "remdups xs = [n]"
    then have "set xs = {n}" by (metis empty_set list.simps(15) set_remdups)
    then show "xs \<noteq> [] \<and> set xs = {n}" by auto
  qed
  note one = this
  have "(case xs of [m] \<Rightarrow> Inr m | _ \<Rightarrow> Inl d) = Inr n \<longleftrightarrow> xs = [n]" for xs :: "nat list" and d :: framing_decision
    by (auto split: list.splits)
  then show ?thesis
    by (auto simp: parse_content_length_def Let_def list_all_iff one image_constant_conv)
qed

lemma check_lengths_Inr [res_iff]:
  "check_lengths hs = Inr cl \<longleftrightarrow>
     ''transfer-encoding'' \<notin> fst ` set hs \<and>
     (case cl of
        None \<Rightarrow> ''content-length'' \<notin> fst ` set hs
      | Some n \<Rightarrow> ''content-length'' \<in> fst ` set hs \<and>
                 parse_content_length (header_values ''content-length'' hs) = Inr n)"
  by (auto simp: check_lengths_def Let_def rbind_Inr_iff header_values_nil split: option.splits)

lemma if_FramingError:
  "(if b then FramingError s r else d) = FramingOk f n e \<longleftrightarrow> \<not> b \<and> d = FramingOk f n e"
  by simp

lemma body_decision_ok:
  "body_decision verb cl e = FramingOk f n e' \<longleftrightarrow>
     e' = e \<and> n \<le> MAX_BODY \<and> (verb = ''HEAD'' \<longrightarrow> n = 0) \<and>
     (case cl of None \<Rightarrow> f = NONE \<and> n = 0 \<and> verb \<notin> set BODY_REQUIRED | Some m \<Rightarrow> f = LENGTH \<and> n = m)"
proof -
  have dis: "verb \<in> set BODYLESS \<Longrightarrow> verb \<notin> set BODY_REQUIRED"
    by (auto simp: BODYLESS_def BODY_REQUIRED_def)
  show ?thesis
    by (cases cl; cases "verb \<in> set BODYLESS")
      (simp_all only: body_decision_def if_FramingError option.case dis if_True if_False, auto dest: dis)
qed

lemma parse_content_length_error: "parse_content_length vals \<noteq> Inl (FramingOk f n e)"
  by (simp add: parse_content_length_def Let_def split: list.splits)

lemma check_errors:
  "check_lengths hs \<noteq> Inl (FramingOk f n e)" "check_expect hs \<noteq> Inl (FramingOk f n e)"
proof -
  obtain s r where "validate_transfer_encoding (header_values ''transfer-encoding'' hs) = FramingError s r"
    using validate_transfer_encoding_error by blast
  then show "check_lengths hs \<noteq> Inl (FramingOk f n e)"
    by (simp add: check_lengths_def Let_def rbind_Inl_iff parse_content_length_error)
  show "check_expect hs \<noteq> Inl (FramingOk f n e)"
    by (simp add: check_expect_def split: list.splits)
qed

lemma validate_head_ok_iff:
  "validate_head m t v hs = FramingOk f n e \<longleftrightarrow>
     (\<forall>h \<in> set hs. \<not> header_malformed h) \<and> (\<forall>h \<in> set hs. line_size h \<le> MAX_HEADER_LINE) \<and>
     length hs \<le> MAX_HEADER_COUNT \<and> sum_list (map line_size hs) \<le> MAX_HEADER_BYTES \<and>
     v \<in> {''HTTP/1.0'', ''HTTP/1.1''} \<and> (\<forall>x \<in> set DUP_FORBIDDEN. length (header_values x hs) \<le> 1) \<and>
     (\<exists>cl. check_lengths hs = Inr cl \<and> check_expect hs = Inr e \<and>
        body_decision (upper m) cl e = FramingOk f n e)"
proof -
  have "(case check_lengths hs of Inl d \<Rightarrow> d
      | Inr cl \<Rightarrow> (case check_expect hs of Inl d \<Rightarrow> d | Inr expect \<Rightarrow> body_decision (upper m) cl expect)) = FramingOk f n e
    \<longleftrightarrow> (\<exists>cl. check_lengths hs = Inr cl \<and> check_expect hs = Inr e \<and>
        body_decision (upper m) cl e = FramingOk f n e)"
    using check_errors[of hs f n e] by (auto simp: body_decision_ok split: sum.splits)
  then show ?thesis
    unfolding validate_head_def if_FramingError
    by (simp only: list_ex_iff not_less de_Morgan_disj simp_thms) (simp add: not_less)
qed

lemma validate_request_ok:
  assumes "validate_request head = FramingOk f n e"
  obtains m t v hs where "parse_request head = Inr (m, t, v, hs)" "validate_head m t v hs = FramingOk f n e"
proof -
  have err: "parse_request_line l \<noteq> Inl (FramingOk f n e)" for l
    by (auto simp: parse_request_line_def split: list.splits if_splits)
  have "parse_header_line l \<noteq> Inl (FramingOk f n e)" for l
    by (auto simp: parse_header_line_def split: prod.splits if_splits)
  then have "rtraverse parse_header_line ls \<noteq> Inl (FramingOk f n e)" for ls
    by (induction ls) (auto simp: rbind_Inl_iff)
  with err assms that show ?thesis
    by (auto simp: validate_request_def parse_request_def parse_head_def reject_bare_line_endings_def
        Let_def rbind_Inl_iff rbind_Inr_iff split: sum.splits prod.splits if_splits)
qed

section \<open>Properties\<close>

text \<open>What an accepted head may look like.\<close>

definition well_framed :: "string \<Rightarrow> headers \<Rightarrow> body_framing \<Rightarrow> nat \<Rightarrow> bool" where
  "well_framed m hs f n \<longleftrightarrow>
     ''transfer-encoding'' \<notin> fst ` set hs \<and>
     (\<forall>tok \<in> set (length_tokens (header_values ''content-length'' hs)). is_length_token tok \<and> digits_val tok = n) \<and>
     (f = LENGTH \<longleftrightarrow> ''content-length'' \<in> fst ` set hs) \<and> n \<le> MAX_BODY \<and> (f = NONE \<longrightarrow> n = 0) \<and>
     (upper m \<in> set BODY_REQUIRED \<longrightarrow> f = LENGTH) \<and>
     (\<forall>x \<in> set DUP_FORBIDDEN. length (header_values x hs) \<le> 1) \<and>
     (\<forall>h \<in> set hs. fst h \<noteq> [] \<and> {CHR 0x0D, CHR 0x0A} \<inter> set (fst h @ snd h) = {}) \<and>
     length hs \<le> MAX_HEADER_COUNT \<and> sum_list (map line_size hs) \<le> MAX_HEADER_BYTES"

lemma validate_head_well_framed:
  assumes "validate_head m t v hs = FramingOk f n e"
  shows "well_framed m hs f n"
proof -
  obtain cl where cl: "check_lengths hs = Inr cl" "body_decision (upper m) cl e = FramingOk f n e"
    and rest: "\<forall>h \<in> set hs. \<not> header_malformed h" "length hs \<le> MAX_HEADER_COUNT"
      "sum_list (map line_size hs) \<le> MAX_HEADER_BYTES" "\<forall>x \<in> set DUP_FORBIDDEN. length (header_values x hs) \<le> 1"
    using assms by (auto simp: validate_head_ok_iff)
  have "length_tokens (header_values ''content-length'' hs) = []" if "''content-length'' \<notin> fst ` set hs"
    using that by (simp add: header_values_nil[symmetric] length_tokens_def)
  then show ?thesis
    using cl rest by (auto simp: well_framed_def res_iff body_decision_ok header_malformed_def
        split: option.splits)
qed

text \<open>
  C5. An accepted request head is framed without ambiguity: it parses, no header carries a
  transfer coding, every token of every \<^verbatim>\<open>Content-Length\<close> header is the same decimal number, which is
  the length of the body the proxy will read and at most 50 MiB, the singleton headers occur at
  most once, no header name or value holds a line ending, and the head is within its limits.
\<close>

theorem framing_ok_unambiguous:
  assumes "validate_request head = FramingOk f n e"
  shows "\<exists>m t v hs. parse_request head = Inr (m, t, v, hs) \<and> well_framed m hs f n"
  using validate_request_ok[OF assms] validate_head_well_framed by metis

definition sample_head :: string where
  "sample_head = ''POST /p/8787/mcp HTTP/1.1'' @ CRLF @ ''Host: x'' @ CRLF @ ''Content-Length: 5, 5''"

theorem framing_ok_unambiguous_witness:
  "\<exists>m t v hs. parse_request sample_head = Inr (m, t, v, hs) \<and> well_framed m hs LENGTH 5"
proof -
  define hs where "hs = [(''host'', '' x''), (''content-length'', '' 5, 5'')]"
  have p: "parse_request sample_head = Inr (''POST'', ''/p/8787/mcp'', ''HTTP/1.1'', hs)"
    "reject_bare_line_endings sample_head = Inr ()" unfolding hs_def by code_simp+
  have c: "check_lengths hs = Inr (Some 5)" "check_expect hs = Inr False"
    "\<forall>x \<in> set DUP_FORBIDDEN. length (header_values x hs) \<le> 1" "\<forall>h \<in> set hs. \<not> header_malformed h"
    unfolding hs_def by code_simp+
  have "validate_head ''POST'' ''/p/8787/mcp'' ''HTTP/1.1'' hs = FramingOk LENGTH 5 False"
    using c(3,4) by (simp add: validate_head_ok_iff c(1,2) body_decision_ok)
      (simp add: hs_def line_size_def framing_limits body_decision_ok upper_ch_def)
  then have "validate_request sample_head = FramingOk LENGTH 5 False"
    by (simp add: validate_request_def p)
  then show ?thesis by (rule framing_ok_unambiguous)
qed

text \<open>
  The headers sent upstream carry exactly one \<^verbatim>\<open>host\<close>, the one of the upstream, and one
  \<^verbatim>\<open>connection\<close>, which closes; no hop-by-hop header, \<^verbatim>\<open>expect\<close> or \<^verbatim>\<open>x-forwarded-host\<close> of the client
  passes, nor a header its \<^verbatim>\<open>Connection\<close> names, while every other header keeps its values in order.
\<close>

theorem forward_headers_exact:
  "header_values n (filter_forward_headers hs host_header ip proto) =
     (if n = ''host'' then [host_header]
      else if n = ''connection'' then [''close'']
      else (if n \<in> set (HOP_BY_HOP @ connection_tokens hs @ [''x-forwarded-host'', ''expect'']) then []
            else header_values n hs) @
        (if n = ''x-forwarded-for'' then map snd (client_ip_header ip) else []) @
        (if n = ''x-forwarded-proto'' then [proto] else []))"
proof -
  have hop: "x \<in> fst ` set (hop_by_hop hs) \<longleftrightarrow> x \<in> fst ` set hs \<and> x \<in> set (HOP_BY_HOP @ connection_tokens hs)" for x
    by (auto simp: hop_by_hop_def)
  define keep where "keep h \<longleftrightarrow> fst h \<notin> set (map fst (hop_by_hop hs) @ [''host'', ''x-forwarded-host'', ''expect''])"
    for h :: "string \<times> string"
  have ip: "header_values n (client_ip_header ip) = (if n = ''x-forwarded-for'' then map snd (client_ip_header ip) else [])"
    by (auto simp: header_values_def client_ip_header_def split: option.splits)
  have "filter (\<lambda>h. fst h = n \<and> keep h) hs =
      (if n \<in> set (HOP_BY_HOP @ connection_tokens hs @ [''host'', ''x-forwarded-host'', ''expect'']) then []
       else filter (\<lambda>h. fst h = n) hs)"
    by (auto simp: keep_def hop filter_empty_conv intro!: filter_cong)
  then have kept: "header_values n (filter keep hs) =
      (if n \<in> set (HOP_BY_HOP @ connection_tokens hs @ [''host'', ''x-forwarded-host'', ''expect'']) then []
       else header_values n hs)"
    by (simp add: header_values_def conj_commute)
  have app: "header_values n (xs @ ys) = header_values n xs @ header_values n ys" for xs ys
    by (simp add: header_values_def)
  have "filter_forward_headers hs host_header ip proto = filter keep hs @
      [(''host'', host_header), (''connection'', ''close'')] @ client_ip_header ip @ [(''x-forwarded-proto'', proto)]"
    unfolding filter_forward_headers_def Let_def keep_def by simp
  then have "header_values n (filter_forward_headers hs host_header ip proto) =
      header_values n (filter keep hs) @ header_values n [(''host'', host_header), (''connection'', ''close'')] @
      header_values n (client_ip_header ip) @ header_values n [(''x-forwarded-proto'', proto)]"
    by (simp only: app)
  moreover have "''connection'' \<in> set HOP_BY_HOP" by (simp add: HOP_BY_HOP_def)
  ultimately show ?thesis
    unfolding kept ip by (simp add: header_values_def)
qed

text \<open>
  A client can make the proxy send a body without its length: when \<^verbatim>\<open>Connection\<close> names
  \<^verbatim>\<open>content-length\<close>, the request is accepted with a body of the declared length, and the upstream
  head has no \<^verbatim>\<open>Content-Length\<close> (nor a transfer coding) to delimit it.
\<close>

theorem forward_length_stripped:
  assumes "parse_request head = Inr (m, t, v, hs)" "validate_head m t v hs = FramingOk LENGTH n e"
    and "''content-length'' \<in> set (connection_tokens hs)"
  shows "header_values ''content-length'' (filter_forward_headers hs host_header ip proto) = [] \<and>
    header_values ''transfer-encoding'' (filter_forward_headers hs host_header ip proto) = []"
proof -
  have "filter_forward_headers hs host_header ip proto =
    filter (\<lambda>h. fst h \<notin> set (map fst (hop_by_hop hs) @ [''host'', ''x-forwarded-host'', ''expect''])) hs @
      [(''host'', host_header), (''connection'', ''close'')] @ client_ip_header ip @ [(''x-forwarded-proto'', proto)]"
    by (simp add: filter_forward_headers_def Let_def)
  moreover have "fst ` set (client_ip_header ip) \<subseteq> {''x-forwarded-for''}"
    by (auto simp: client_ip_header_def split: option.splits)
  ultimately show ?thesis
    using assms(3) by (auto simp: header_values_nil hop_by_hop_def HOP_BY_HOP_def)
qed

definition smuggling_head :: string where
  "smuggling_head = ''POST /p/3000/ HTTP/1.1'' @ CRLF @ ''Content-Length: 5'' @ CRLF @ ''Connection: content-length''"

end
