(* ===== verification/Ingress.thy ===== *)
theory Ingress
  imports Framing Ports
begin

text \<open>
  The decisions of the ingress that need no socket: bearer authorization
  (\<^verbatim>\<open>home/rdm/proxy/auth.py\<close>), routing by path (\<^verbatim>\<open>proxy/router.py\<close>) and the start-up of the proxy from
  its environment (\<^verbatim>\<open>proxy/__main__.py\<close>, the \<^verbatim>\<open>Config\<close> class and the two builders of
  \<^verbatim>\<open>proxy/server.py\<close>). \<^verbatim>\<open>hashlib.sha256\<close> is the parameter \<open>digest\<close>; \<^verbatim>\<open>hmac.compare_digest\<close> is
  equality. A set of ports is a list used for membership.
\<close>

section \<open>Bearer authorization\<close>

text \<open>\<^verbatim>\<open>bytes.split(None, 1)\<close>: the first word and the rest, whose trailing white space stays.\<close>

definition split_ws_once :: "string \<Rightarrow> string list" where
  "split_ws_once s =
     (let s1 = dropWhile is_bws s;
          w = takeWhile (\<lambda>c. \<not> is_bws c) s1;
          r = dropWhile is_bws (dropWhile (\<lambda>c. \<not> is_bws c) s1) in
      if s1 = [] then [] else if r = [] then [w] else [w, r])"

definition constant_time_equal :: "(string \<Rightarrow> string) \<Rightarrow> string \<Rightarrow> string \<Rightarrow> bool" where
  "constant_time_equal digest l r \<longleftrightarrow> digest l = digest r"

definition check_token :: "(string \<Rightarrow> string) \<Rightarrow> headers \<Rightarrow> string \<Rightarrow> bool" where
  "check_token digest hs expected =
     (if expected = [] then False
      else case header_values ''authorization'' hs of
        [v] \<Rightarrow>
          (case split_ws_once v of
             [scheme, rest] \<Rightarrow>
               if lower scheme \<noteq> ''bearer'' then False
               else let token = strip_ows rest in
                 if token = [] then False else constant_time_equal digest token expected
           | _ \<Rightarrow> False)
      | _ \<Rightarrow> False)"

section \<open>Routes\<close>

record route =
  rt_port :: nat
  rt_rest :: string

text \<open>\<^verbatim>\<open>^/p/([0-9]{1,5})(/.*)?$\<close>: the dot does not match a line feed, and the dollar also matches
  before a final one.\<close>

definition parse_route :: "string \<Rightarrow> route option" where
  "parse_route target =
     (if \<not> starts_with ''/p/'' target then None
      else let s = drop 3 target;
               ds = takeWhile is_digit s;
               r0 = dropWhile is_digit s;
               r = (if r0 \<noteq> [] \<and> last r0 = CHR 0x0A then butlast r0 else r0) in
        if ds = [] \<or> 5 < length ds \<or> CHR 0x0A \<in> set r \<or> (r \<noteq> [] \<and> hd r \<noteq> CHR ''/'') then None
        else let port = digits_val ds in
          if \<not> (1 \<le> port \<and> port \<le> 65535) then None
          else Some \<lparr>rt_port = port, rt_rest = (if r = [] then ''/'' else r)\<rparr>)"

definition MANIFEST_PATH :: string where
  "MANIFEST_PATH = ''/p/9000/manifest.json''"

definition is_manifest :: "string \<Rightarrow> bool" where
  "is_manifest target \<longleftrightarrow> target = MANIFEST_PATH"

text \<open>\<open>files\<close> gives the bytes of a regular file.\<close>

definition load_manifest :: "(string \<Rightarrow> string option) \<Rightarrow> string option \<Rightarrow> string option" where
  "load_manifest files path =
     (case path of None \<Rightarrow> None | Some p \<Rightarrow> if p = [] then None else files p)"

section \<open>Start-up\<close>

record config =
  cfg_mode :: string
  cfg_token :: string
  cfg_self_authed :: "int list"
  cfg_allowed :: "int list"
  cfg_manifest_path :: "string option"
  cfg_target_host :: string
  cfg_target_port :: int
  cfg_ranges :: "(int \<times> int) list"
  cfg_denied :: "int list"

definition cfg_policy :: "config \<Rightarrow> port_policy" where
  "cfg_policy c =
     \<lparr>self_authed = cfg_self_authed c, allowed = cfg_allowed c, pol_runner_port = None,
      ranges = cfg_ranges c, denied = cfg_denied c\<rparr>"

datatype start_error =
    BadPort string
  | BadRange string
  | BadNumber string
  | TokenMissing
  | TargetPortMissing

definition port_tokens :: "string \<Rightarrow> string list" where
  "port_tokens v = filter (\<lambda>t. t \<noteq> []) (map strip (split_str '','' v))"

definition parse_ports :: "string \<Rightarrow> start_error + int list" where
  "parse_ports v =
     rtraverse (\<lambda>t. case py_int t of None \<Rightarrow> Inl (BadPort t) | Some i \<Rightarrow> Inr i) (port_tokens v)"

definition parse_range :: "string \<Rightarrow> start_error + int \<times> int" where
  "parse_range t =
     (case py_partition ''-'' t of (lo, sep, hi) \<Rightarrow>
        if \<not> sep then Inl (BadRange t)
        else (case (py_int lo, py_int hi) of
          (Some l, Some h) \<Rightarrow> if 1 \<le> l \<and> l \<le> h \<and> h \<le> 65535 then Inr (l, h) else Inl (BadRange t)
        | _ \<Rightarrow> Inl (BadRange t)))"

definition parse_ranges :: "string \<Rightarrow> start_error + (int \<times> int) list" where
  "parse_ranges v = rtraverse parse_range (port_tokens v)"

definition py_int_env :: "string \<Rightarrow> start_error + int" where
  "py_int_env s = (case py_int s of None \<Rightarrow> Inl (BadNumber s) | Some i \<Rightarrow> Inr i)"

definition env_get :: "(string, string) dict \<Rightarrow> string \<Rightarrow> string \<Rightarrow> string" where
  "env_get env k d = dget_or env k d"

definition build_ingress_server ::
  "string \<Rightarrow> int list \<Rightarrow> int list \<Rightarrow> string option \<Rightarrow> (int \<times> int) list \<Rightarrow> int list \<Rightarrow> config" where
  "build_ingress_server token selfs allow manifest rngs deny =
     \<lparr>cfg_mode = ''ingress'', cfg_token = token, cfg_self_authed = selfs, cfg_allowed = allow,
      cfg_manifest_path = manifest, cfg_target_host = ''127.0.0.1'', cfg_target_port = 0,
      cfg_ranges = rngs, cfg_denied = deny\<rparr>"

definition build_target_server :: "string \<Rightarrow> string \<Rightarrow> int \<Rightarrow> config" where
  "build_target_server token thost tport =
     \<lparr>cfg_mode = ''target'', cfg_token = token, cfg_self_authed = [], cfg_allowed = [],
      cfg_manifest_path = None, cfg_target_host = thost, cfg_target_port = tport, cfg_ranges = [],
      cfg_denied = []\<rparr>"

text \<open>\<^verbatim>\<open>main\<close>: the listening port and the configuration, or the error the process exits with.\<close>

definition ingress_main :: "(string, string) dict \<Rightarrow> start_error + int \<times> config" where
  "ingress_main env =
     (let token = env_get env ''INGRESS_TOKEN'' [] in
      if token = [] then Inl TokenMissing
      else rbind (py_int_env (env_get env ''PROXY_PORT'' ''8799'')) (\<lambda>port.
        rbind (parse_ports (env_get env ''SELF_AUTHED_PORTS'' [])) (\<lambda>selfs.
        rbind (parse_ports (env_get env ''ALLOWED_PORTS'' [])) (\<lambda>allow.
        rbind (parse_ranges (env_get env ''ALLOWED_PORT_RANGES'' [])) (\<lambda>rngs.
        rbind (parse_ports (env_get env ''DENIED_PORTS'' [])) (\<lambda>deny.
        let m = env_get env ''RDM_MANIFEST_PATH'' [] in
        Inr (port, build_ingress_server token selfs allow (if m = [] then None else Some m) rngs deny)))))))"

definition target_main :: "(string, string) dict \<Rightarrow> start_error + int \<times> config" where
  "target_main env =
     (let token = env_get env ''MCP_PUBLIC_TOKEN'' [];
          tport = env_get env ''TARGET_PORT'' [] in
      if token = [] then Inl TokenMissing
      else if tport = [] then Inl TargetPortMissing
      else rbind (py_int_env (env_get env ''PROXY_PORT'' ''8792'')) (\<lambda>port.
        rbind (py_int_env tport) (\<lambda>tp.
        Inr (port, build_target_server token (env_get env ''TARGET_HOST'' ''127.0.0.1'') tp))))"

section \<open>Facts\<close>

lemma header_values_one:
  "header_values n hs = [v] \<Longrightarrow> (n, v) \<in> set hs \<and> (\<forall>v'. (n, v') \<in> set hs \<longrightarrow> v' = v)"
proof -
  assume A: "header_values n hs = [v]"
  have "v' \<in> set (header_values n hs) \<longleftrightarrow> (n, v') \<in> set hs" for v'
    by (force simp: header_values_def)
  with A show ?thesis by auto
qed

text \<open>
  A request is authorized exactly when the server has a token and the request has one
  \<^verbatim>\<open>Authorization\<close> header whose value is the scheme \<^verbatim>\<open>bearer\<close>, in any case, white space, and a
  non-empty text that, stripped of blanks and tabs, has the digest of the token.
\<close>

theorem check_token_iff:
  "check_token digest hs expected \<longleftrightarrow>
     expected \<noteq> [] \<and>
     (\<exists>v scheme rest. header_values ''authorization'' hs = [v] \<and> split_ws_once v = [scheme, rest] \<and>
        lower scheme = ''bearer'' \<and> strip_ows rest \<noteq> [] \<and> digest (strip_ows rest) = digest expected)"
  by (auto simp: check_token_def constant_time_equal_def Let_def split: list.splits)

lemma split_ws_once_bearer:
  assumes "token \<noteq> []" "\<not> is_bws (hd token)"
  shows "split_ws_once (CHR '' '' # ''Bearer '' @ token) = [''Bearer'', token]"
  using assms by (cases token) (auto simp: split_ws_once_def is_bws_def)

lemma parse_route_bounds:
  "parse_route target = Some r \<Longrightarrow>
    1 \<le> rt_port r \<and> rt_port r \<le> 65535 \<and> hd (rt_rest r) = CHR ''/'' \<and> rt_rest r \<noteq> [] \<and> CHR 0x0A \<notin> set (rt_rest r)"
  by (auto simp: parse_route_def Let_def split: if_splits)

lemma nat_str_length: "n < 10 ^ k \<Longrightarrow> 0 < k \<Longrightarrow> length (nat_str n) \<le> k"
proof (induction n arbitrary: k rule: nat_str.induct)
  case (1 n)
  show ?case
  proof (cases "n < 10")
    case False
    then obtain j where k: "k = Suc j" "0 < j" using 1(2,3) by (cases k; cases "k - 1") auto
    then have "n div 10 < 10 ^ j" using 1(2) by (simp add: div_less_iff_less_mult)
    then have "length (nat_str (n div 10)) \<le> j" using 1(1) False k by blast
    with False k show ?thesis by (subst nat_str.simps) simp
  qed (use 1(3) in \<open>subst nat_str.simps, simp\<close>)
qed

text \<open>
  Every port and path has a route and the route gives both back: the target \<^verbatim>\<open>/p/<port>\<close> followed by
  a path parses to that port and that path.
\<close>

theorem parse_route_roundtrip:
  assumes "1 \<le> p" "p \<le> 65535" "hd path = CHR ''/''" "path \<noteq> []" "CHR 0x0A \<notin> set path"
  shows "parse_route (''/p/'' @ nat_str p @ path) = Some \<lparr>rt_port = p, rt_rest = path\<rparr>"
proof -
  have nd: "\<not> is_digit (hd path)" using assms(3) by (simp add: is_digit_def)
  then have dw: "takeWhile is_digit (nat_str p @ path) = nat_str p" "dropWhile is_digit (nat_str p @ path) = path"
    using nat_str_digits[of p] assms(4) by (cases path; auto simp: takeWhile_append dropWhile_append)+
  have "length (nat_str p) \<le> 5" using nat_str_length[of p 5] assms(2) by simp
  moreover have "last path \<noteq> CHR 0x0A" using assms(4,5) by (metis last_in_set)
  ultimately show ?thesis
    using assms by (simp add: parse_route_def Let_def dw)
qed

subsection \<open>Lists of ports in the environment\<close>

definition ports_str :: "int list \<Rightarrow> string" where
  "ports_str ps = py_join '','' (map int_str ps)"

definition range_str :: "int \<times> int \<Rightarrow> string" where
  "range_str r = int_str (fst r) @ ''-'' @ int_str (snd r)"

definition ranges_str :: "(int \<times> int) list \<Rightarrow> string" where
  "ranges_str rs = py_join '','' (map range_str rs)"

lemma int_str_nonempty [simp]: "int_str i \<noteq> []"
  by (simp add: int_str_def)

lemma port_tokens_join:
  assumes "\<forall>x \<in> set xs. x \<noteq> [] \<and> CHR '','' \<notin> set x \<and> strip x = x"
  shows "port_tokens (py_join '','' xs) = xs"
proof (cases "xs = []")
  case True
  have "port_tokens [] = []" by code_simp
  with True show ?thesis by simp
next
  case False
  have "split_str '','' (py_join '','' xs) = xs" using assms False by (intro split_str_join) auto
  moreover have "map strip xs = xs" using assms by (simp add: map_idI)
  ultimately show ?thesis using assms by (simp add: port_tokens_def filter_id_conv)
qed

lemma parse_ports_str [simp]: "parse_ports (ports_str ps) = Inr ps"
proof -
  have "CHR '','' \<notin> set (int_str i)" for i
    using int_str_chars[of "CHR '',''" i] by (auto simp: is_digit_def)
  then have "port_tokens (ports_str ps) = map int_str ps"
    unfolding ports_str_def by (intro port_tokens_join) (auto simp: strip_int_str)
  then show ?thesis
    by (simp add: parse_ports_def rtraverse_Inr_iff list_all2_map1 list.rel_refl)
qed

lemma range_str_pos:
  assumes "0 \<le> fst r"
  shows "py_partition ''-'' (range_str r) = (int_str (fst r), True, int_str (snd r))"
proof -
  have "CHR ''-'' \<notin> set (int_str (fst r))"
    using assms nat_str_digits[of "nat (fst r)"] digit_not by (auto simp: int_str_def)
  then show ?thesis by (simp add: range_str_def py_partition_char)
qed

lemma strip_range_str: "strip (range_str r) = range_str r"
proof (rule strip_by_id)
  have nws: "\<not> is_ws c" if "c \<in> set (int_str i)" for c i
    using int_str_chars[OF that] digit_not by (auto simp: is_ws_def)
  have "hd (range_str r) = hd (int_str (fst r))" "last (range_str r) = last (int_str (snd r))"
    by (simp_all add: range_str_def)
  then show "\<not> is_ws (hd (range_str r)) \<and> \<not> is_ws (last (range_str r))"
    using nws[OF hd_in_set[OF int_str_nonempty]] nws[OF last_in_set[OF int_str_nonempty]] by simp
qed

lemma parse_ranges_str:
  assumes "\<forall>r \<in> set rs. 1 \<le> fst r \<and> fst r \<le> snd r \<and> snd r \<le> 65535"
  shows "parse_ranges (ranges_str rs) = Inr rs"
proof -
  have "CHR '','' \<notin> set (int_str i)" for i
    using int_str_chars[of "CHR '',''" i] by (auto simp: is_digit_def)
  then have "port_tokens (ranges_str rs) = map range_str rs"
    unfolding ranges_str_def by (intro port_tokens_join) (auto simp: strip_range_str, auto simp: range_str_def)
  moreover have "parse_range (range_str r) = Inr r" if "r \<in> set rs" for r
  proof -
    have r: "1 \<le> fst r" "fst r \<le> snd r" "snd r \<le> 65535" using assms that by auto
    then show ?thesis using range_str_pos[of r] by (simp add: parse_range_def)
  qed
  ultimately show ?thesis
    by (simp add: parse_ranges_def rtraverse_Inr_iff list_all2_map1 list.rel_refl_strong)
qed

end
