(* ===== verification/Render.thy ===== *)
theory Render
  imports Envfile Ingress ProfileValidate
begin

text \<open>
  The artefacts derived from a profile (\<^verbatim>\<open>home/rdm/render.py\<close>), the tokens and the chat block
  (\<^verbatim>\<open>home/rdm/tokens.py\<close>), and the way \<^verbatim>\<open>devbox use\<close> carries the port policy through the \<^verbatim>\<open>.env\<close> file
  into the environment of the ingress (\<^verbatim>\<open>apply_use\<close> and \<^verbatim>\<open>_ingress_env\<close> of \<^verbatim>\<open>home/rdm/cli.py\<close>).

  \<^verbatim>\<open>hashlib.md5(...).hexdigest()\<close> and \<^verbatim>\<open>secrets.token_hex\<close> are parameters. Russian texts are parameters
  or constructors.
\<close>

section \<open>Tables\<close>

definition PERMISSIONS_JSON :: "(string, string) dict" where
  "PERMISSIONS_JSON =
     [(''readonly'', dumps (fmt_compact False) (JObj (map (\<lambda>t. (t, JStr ''deny''))
         [''write'', ''edit'', ''apply_patch'', ''bash'', ''webfetch'']))),
      (''full'', dumps (fmt_compact False) (JObj (map (\<lambda>t. (t, JStr ''allow''))
         [''write'', ''edit'', ''apply_patch'', ''bash'', ''webfetch''])))]"

definition BRIDGE_TOOLS :: "(string \<times> bool) list" where
  "BRIDGE_TOOLS =
     [(''read'', False), (''write'', True), (''edit'', True), (''apply_patch'', True), (''glob'', False),
      (''grep'', False), (''bash'', True), (''webfetch'', True), (''todowrite'', False), (''lsp'', False),
      (''opencode_native_info'', False), (''opencode_job_list'', False), (''opencode_job_result'', False),
      (''opencode_job_cancel'', False), (''opencode_permissions_pending'', False),
      (''opencode_permission_reply'', False)]"

section \<open>Base64\<close>

definition b64_ch :: "nat \<Rightarrow> char" where
  "b64_ch n = (if n < 26 then char_of (65 + n) else if n < 52 then char_of (71 + n)
     else if n < 62 then char_of (n - 4) else if n = 62 then CHR ''+'' else CHR ''/'')"

fun b64 :: "string \<Rightarrow> string" where
  "b64 [] = []"
| "b64 [a] = [b64_ch (code a div 4), b64_ch (code a mod 4 * 16), CHR ''='', CHR ''='']"
| "b64 [a, b] =
     [b64_ch (code a div 4), b64_ch (code a mod 4 * 16 + code b div 16), b64_ch (code b mod 16 * 4), CHR ''='']"
| "b64 (a # b # c # r) =
     b64_ch (code a div 4) # b64_ch (code a mod 4 * 16 + code b div 16) #
     b64_ch (code b mod 16 * 4 + code c div 64) # b64_ch (code c mod 64) # b64 r"

section \<open>Generators\<close>

definition LF :: string where
  "LF = [CHR 0x0A]"

definition setup_part :: "(string \<Rightarrow> string) \<Rightarrow> string \<Rightarrow> nat \<times> setup_command \<Rightarrow> string" where
  "setup_part md5 pname = (\<lambda>(i, s).
     let marker = ''/opt/tools/.setup-'' @ nat_str i @ ''-'' @ md5 (sc_cmd s @ sc_marker s @ pname);
         on_fail = (if sc_required s then ''exit 1''
           else ''echo '' @ CHR 0x27 # ''[setup] WARN: cmd '' @ nat_str i @ '' failed, continue'' @ [CHR 0x27]) in
     ''if [ ! -f '' @ marker @ '' ]; then'' @ LF @ ''  '' @ sc_cmd s @ '' || '' @ on_fail @ LF @
     ''  touch '' @ marker @ LF @ ''fi'' @ LF)"

definition build_setup_script :: "(string \<Rightarrow> string) \<Rightarrow> profile \<Rightarrow> string \<Rightarrow> string" where
  "build_setup_script md5 p pname =
     ''# generated: devbox.py use '' @ pname @ LF @ concat (map (setup_part md5 pname) (enum1 (setup_cmds p)))"

definition setup_script_b64 :: "(string \<Rightarrow> string) \<Rightarrow> profile \<Rightarrow> string \<Rightarrow> string" where
  "setup_script_b64 md5 p pname = b64 (utf8 (build_setup_script md5 p pname))"

definition tunnel_tail :: "string \<Rightarrow> string" where
  "tunnel_tail token =
     (if token \<noteq> [] then ''run --token '' @ token else ''--protocol http2 --url http://host.docker.internal:8799'')"

definition env_fields ::
  "(string \<Rightarrow> string) \<Rightarrow> profile \<Rightarrow> string \<Rightarrow> string \<Rightarrow> (string \<times> string option) list" where
  "env_fields md5 p pname tunnel_token =
     (let policy = compute_port_policy p in
      [(''PROJECT_DIR'', Some (project_dir p)),
       (''TOOLCHAIN'', Some (toolchain p)),
       (''GIT_NAME'', Some (git_name p)),
       (''GIT_EMAIL'', Some (git_email p)),
       (''PREVIEW_ORIGIN'', if preview_origin p = [] then None else Some (preview_origin p)),
       (''UI_PORT'', case ui_port p of None \<Rightarrow> None | Some u \<Rightarrow> if u = 0 then None else Some (int_str u)),
       (''SELF_AUTHED_PORTS'', Some (ports_str (self_authed policy))),
       (''ALLOWED_PORTS'', Some (ports_str (allowed policy))),
       (''ALLOWED_PORT_RANGES'', Some (ranges_str (ranges policy))),
       (''DENIED_PORTS'', Some (ports_str (denied policy))),
       (''OPENCODE_MCP_PERMISSIONS'', dget PERMISSIONS_JSON (mode p)),
       (''SETUP_SCRIPT_B64'', Some (setup_script_b64 md5 p pname)),
       (''TUNNEL_TAIL'', Some (tunnel_tail tunnel_token)),
       (''ACTIVE_PROFILE'', Some pname)])"

definition render_override :: "profile \<Rightarrow> string list \<Rightarrow> string" where
  "render_override p dir_mounts =
     py_join LF
       ([''services:'', ''  toolbox:'', ''    volumes:'',
         ''      - ./docker/workspace-empty:/workspace/.opencode:ro''] @
        map (\<lambda>m. ''      - /dev/null:/workspace/'' @ m @ '':ro'') (filter (\<lambda>m. m \<notin> set dir_mounts) (deny_mounts p)) @
        (if dir_mounts \<noteq> []
         then ''    tmpfs:'' # map (\<lambda>m. ''      - /workspace/'' @ m) (sorted_set dir_mounts) else [])) @ LF"

definition gateway_port_for :: "profile \<Rightarrow> int option" where
  "gateway_port_for p =
     (case gateway_port p of
        Some g \<Rightarrow> if g \<noteq> 0 then Some g else if exposed_mcps p \<noteq> [] then Some DEFAULT_GATEWAY_PORT else None
      | None \<Rightarrow> if exposed_mcps p \<noteq> [] then Some DEFAULT_GATEWAY_PORT else None)"

definition endpoint :: "string \<Rightarrow> int \<Rightarrow> string \<Rightarrow> string \<Rightarrow> string \<Rightarrow> json" where
  "endpoint name port auth token path =
     JObj [(''name'', JStr name), (''port'', JInt port), (''auth'', JStr auth), (''token'', JStr token),
       (''header'', JStr ''Authorization: Bearer''), (''path'', JStr path)]"

definition service_auth :: "profile \<Rightarrow> host_service \<Rightarrow> string" where
  "service_auth p s =
     (if hs_port s \<in> set (self_authed (compute_port_policy p)) then ''self''
      else if hs_auth s = ''bearer'' then ''bearer'' else ''ingress'')"

definition mcp_path :: "int \<Rightarrow> string" where
  "mcp_path port = ''/p/'' @ int_str port @ ''/mcp''"

definition manifest_endpoints :: "profile \<Rightarrow> json list" where
  "manifest_endpoints p =
     [endpoint ''manifest'' 9000 ''ingress'' ''INGRESS_TOKEN'' ''/p/9000/manifest.json'',
      endpoint ''bridge'' BRIDGE_PORT ''bearer'' ''BRIDGE_TOKEN'' (mcp_path BRIDGE_PORT)] @
     (case gateway_port_for p of
        None \<Rightarrow> []
      | Some g \<Rightarrow> [endpoint ''gateway'' g ''self'' ''GATEWAY_TOKEN'' (mcp_path g)]) @
     map (\<lambda>s. endpoint (''host-'' @ int_str (hs_port s)) (hs_port s) (service_auth p s)
           (if service_auth p s \<in> {''self'', ''bearer''} then ''HOST_TOKEN'' else ''INGRESS_TOKEN'')
           (mcp_path (hs_port s))) (host_services p) @
     map (\<lambda>q. endpoint (''allowed-'' @ int_str q) q ''ingress'' ''INGRESS_TOKEN'' (''/p/'' @ int_str q))
       (allowed (compute_port_policy p))"

definition command_json :: "runner_command \<Rightarrow> json" where
  "command_json c =
     JObj [(''name'', JStr (rc_name c)), (''tool'', JStr (runner_tool_name (rc_name c))),
       (''description'', JStr (rc_description c)),
       (''kill_tool'', if rc_background c then JStr (runner_kill_tool_name (rc_name c)) else JNull)]"

definition script_json :: "script \<Rightarrow> json" where
  "script_json s =
     JObj [(''name'', JStr (sp_name s)), (''tool'', JStr (runner_tool_name (''script:'' @ sp_name s))),
       (''description'', JStr (sp_description s)), (''kill_tool'', JNull)]"

definition build_manifest :: "profile \<Rightarrow> string \<Rightarrow> string \<Rightarrow> string \<Rightarrow> json" where
  "build_manifest p pname ingress_url mode' =
     JObj ([(''profile'', JStr pname), (''project'', JStr (project_dir p)), (''ingress_url'', JStr ingress_url),
       (''endpoints'', JArr (manifest_endpoints p)),
       (''allowed_ports'', JArr (map JInt (allowed (compute_port_policy p)))),
       (''port_ranges'', JArr (map (\<lambda>(lo, hi). JArr [JInt lo, JInt hi]) (port_ranges p))),
       (''port_deny'', JArr (map JInt (port_deny p))),
       (''runner_commands'', JArr (map command_json (runner_commands p))),
       (''scripts'', JArr (map script_json (scripts p))),
       (''bridge_tools'', JArr (map (\<lambda>(n, m). JObj [(''name'', JStr n), (''mutating'', JBool m)]) BRIDGE_TOOLS)),
       (''preview_origin'', JStr (preview_origin p)), (''mode'', JStr mode'),
       (''host_requirements'', JObj [(''memory_mb'', JInt 4096), (''storage_mb'', JInt 20480),
          (''note'', JStr ''toolchains in /opt/tools volume'')])] @
       (if exposed_mcps p = [] then []
        else [(''exposed_mcps'', JArr (map (\<lambda>m. JObj [(''name'', JStr (em_name m)), (''mode'', JStr (em_mode m)),
               (''tools'', JArr (map JStr (em_tool_allow m)))]) (exposed_mcps p)))]))"

text \<open>\<open>none_text\<close> and \<open>copy_hint\<close> are the two Russian lines.\<close>

definition or_none :: "string \<Rightarrow> string \<Rightarrow> string" where
  "or_none none_text s = (if s \<noteq> [] then s else none_text)"

definition render_agents_md ::
  "string \<Rightarrow> string \<Rightarrow> profile \<Rightarrow> string \<Rightarrow> string \<Rightarrow> string \<Rightarrow> string \<Rightarrow> string list option \<Rightarrow> string" where
  "render_agents_md none_text copy_hint p pname tool mode' allowed_text avail =
     py_join LF
       ([''<!-- auto-generated: devbox.py use '' @ pname @ '' -->'',
         ''## Environment'',
         ''- profile: '' @ pname @ ''; project: '' @ project_dir p,
         ''- toolchain: '' @ tool,
         ''- mode: '' @ mode' @ ''; allowed ports: '' @ allowed_text,
         ''## Runner commands'',
         or_none none_text (py_join LF (map (\<lambda>c. ''- '' @ runner_tool_name (rc_name c) @ '': '' @ rc_description c)
           (runner_commands p))),
         ''## Scripts'',
         or_none none_text (py_join LF (map (\<lambda>s. ''- '' @ runner_tool_name (''script:'' @ sp_name s) @ '': '' @ sp_description s)
           (scripts p))),
         ''## Back-pointers'',
         ''- repo: https://github.com/WhiteBite/remote-devbox-mcp'',
         ''- skill: skills/remote-devbox/SKILL.md'',
         ''- manifest: /p/9000/manifest.json'',
         copy_hint] @
        (case avail of None \<Rightarrow> [] | Some ns \<Rightarrow> [''## Projects'', or_none none_text (py_join '', '' ns)]) @
        [[]])"

section \<open>Tokens\<close>

definition TOKEN_KEYS :: "string list" where
  "TOKEN_KEYS = [''MCP_BEARER_TOKEN'', ''MCP_PUBLIC_TOKEN'', ''INGRESS_TOKEN'', ''GATEWAY_TOKEN'']"

text \<open>\<open>fresh\<close> are the four values \<^verbatim>\<open>generate_token\<close> returns.\<close>

definition rotate_tokens :: "string list \<Rightarrow> env_file \<Rightarrow> (string, string) dict \<times> env_file" where
  "rotate_tokens fresh env =
     (let new = zip TOKEN_KEYS fresh in (new, fold (\<lambda>(k, v). ef_set k v) new env))"

definition mask_token :: "string \<Rightarrow> string" where
  "mask_token token =
     (if length token < 8 then ''...''
      else take 4 token @ ''...'' @ drop (length token - 4) token)"

datatype chat_line =
    RepoLine
  | SkillLine
  | IngressLine string
  | IngressDownLine
  | BridgeTokenLine string
  | IngressTokenLine string
  | SurfaceLines
  | PreviewLine string
  | UiLine string string
  | RunnerUrlLine string int
  | HostTokenLine string
  | GatewayTokenLine string int
  | RegistryLine string
  | SandboxLine

definition chat_block ::
  "(string, string) dict \<Rightarrow> string \<Rightarrow> bool \<Rightarrow> string \<Rightarrow> int option \<Rightarrow> int list \<Rightarrow> int option \<Rightarrow> chat_line list" where
  "chat_block env_map ingress_url full preview_url rport selfs gport =
     (let show_token = (\<lambda>k. let t = dget_or env_map k [] in if full then t else mask_token t);
          runner = (case rport of Some r \<Rightarrow> r \<noteq> 0 | None \<Rightarrow> False);
          ui = dget_or env_map ''UI_PORT'' [] in
      [RepoLine, SkillLine, if ingress_url \<noteq> [] then IngressLine ingress_url else IngressDownLine,
       BridgeTokenLine (show_token ''MCP_BEARER_TOKEN''), IngressTokenLine (show_token ''INGRESS_TOKEN''),
       SurfaceLines] @
      (if preview_url \<noteq> [] then [PreviewLine preview_url] else []) @
      (if ui \<noteq> [] \<and> ingress_url \<noteq> [] then [UiLine ingress_url ui] else []) @
      (if ingress_url \<noteq> [] \<and> (runner \<or> selfs \<noteq> [])
       then (if runner then [RunnerUrlLine ingress_url (the rport)] else []) @
            [HostTokenLine (show_token ''MCP_PUBLIC_TOKEN'')]
       else []) @
      (case gport of
         Some g \<Rightarrow> if g \<noteq> 0 then [GatewayTokenLine (show_token ''GATEWAY_TOKEN'') g] else []
       | None \<Rightarrow> []) @
      (if ingress_url \<noteq> [] then [RegistryLine ingress_url] else []) @
      [SandboxLine])"

section \<open>Applying a profile\<close>

definition INGRESS_PORT :: nat where
  "INGRESS_PORT = 8799"

text \<open>The loop of \<^verbatim>\<open>apply_use\<close> that carries the fields into the file.\<close>

definition apply_field :: "string \<times> string option \<Rightarrow> env_file \<Rightarrow> env_file" where
  "apply_field = (\<lambda>(k, v) e. case v of None \<Rightarrow> ef_remove k e | Some x \<Rightarrow> ef_set k x e)"

definition apply_fields :: "(string \<times> string option) list \<Rightarrow> env_file \<Rightarrow> env_file" where
  "apply_fields kvs e = fold apply_field kvs e"

definition ingress_env :: "(string, string) dict \<Rightarrow> string \<Rightarrow> (string, string) dict" where
  "ingress_env env_map manifest_path =
     [(''INGRESS_TOKEN'', dget_or env_map ''INGRESS_TOKEN'' []),
      (''PROXY_PORT'', nat_str INGRESS_PORT),
      (''SELF_AUTHED_PORTS'', dget_or env_map ''SELF_AUTHED_PORTS'' []),
      (''ALLOWED_PORTS'', dget_or env_map ''ALLOWED_PORTS'' []),
      (''ALLOWED_PORT_RANGES'', dget_or env_map ''ALLOWED_PORT_RANGES'' []),
      (''DENIED_PORTS'', dget_or env_map ''DENIED_PORTS'' []),
      (''RDM_MANIFEST_PATH'', manifest_path)]"

text \<open>From the profile and the file on disk to the environment the ingress is started with.\<close>

definition use_env ::
  "runtime \<Rightarrow> (string \<Rightarrow> string) \<Rightarrow> profile \<Rightarrow> string \<Rightarrow> env_file \<Rightarrow> string \<Rightarrow> (string, string) dict" where
  "use_env rt md5 p pname env manifest_path =
     (let p' = with_runner_service rt p;
          tt = (case ef_get env ''TUNNEL_TOKEN'' of None \<Rightarrow> [] | Some t \<Rightarrow> t);
          env' = apply_fields (env_fields md5 p' pname tt) env in
      ingress_env (ef_as_map env') manifest_path)"

section \<open>Facts\<close>

lemma apply_fields_kvs: "apply_fields kvs e = env_kv.apply_kvs kvs e"
  unfolding apply_fields_def
  by (induction kvs e rule: env_kv.apply_kvs.induct) (simp_all add: apply_field_def)

lemma strip_no_ws: "\<forall>c \<in> set s. \<not> is_ws c \<Longrightarrow> strip s = s"
  by (rule strip_by_id) auto

lemma set_py_join: "c \<in> set (py_join sep xs) \<Longrightarrow> c \<in> set sep \<or> (\<exists>x \<in> set xs. c \<in> set x)"
  by (induction sep xs rule: py_join.induct) auto

lemma int_str_no_ws: "c \<in> set (int_str i) \<Longrightarrow> \<not> is_ws c"
  using int_str_chars[of c i] digit_not[of c] by (auto simp: is_ws_def)

lemma strip_ports_str: "strip (ports_str ps) = ports_str ps" "strip (ranges_str rs) = ranges_str rs"
proof -
  have ws: "\<not> is_ws (CHR '','')" "\<not> is_ws (CHR ''-'')" by (simp_all add: is_ws_def)
  show "strip (ports_str ps) = ports_str ps"
    by (rule strip_no_ws) (auto simp: ports_str_def ws dest!: set_py_join int_str_no_ws)
  show "strip (ranges_str rs) = ranges_str rs"
    by (rule strip_no_ws) (auto simp: ranges_str_def range_str_def ws dest!: set_py_join int_str_no_ws)
qed

definition FIELD_KEYS :: "string list" where
  "FIELD_KEYS = [''PROJECT_DIR'', ''TOOLCHAIN'', ''GIT_NAME'', ''GIT_EMAIL'', ''PREVIEW_ORIGIN'', ''UI_PORT'',
     ''SELF_AUTHED_PORTS'', ''ALLOWED_PORTS'', ''ALLOWED_PORT_RANGES'', ''DENIED_PORTS'',
     ''OPENCODE_MCP_PERMISSIONS'', ''SETUP_SCRIPT_B64'', ''TUNNEL_TAIL'', ''ACTIVE_PROFILE'']"

lemma field_keys: "map fst (env_fields md5 p pname tt) = FIELD_KEYS"
  by (simp add: env_fields_def FIELD_KEYS_def Let_def)

lemma field_keys_ok: "distinct FIELD_KEYS" "list_all ok_key FIELD_KEYS" "ok_key ''INGRESS_TOKEN''"
  "''INGRESS_TOKEN'' \<notin> set FIELD_KEYS"
  by code_simp+

lemma ok_kvs_keys: "env_kv.ok_kvs kvs \<longleftrightarrow> list_all ok_key (map fst kvs)"
  by (simp add: env_kv.ok_kvs_def list.pred_map o_def)

lemma fields_ok: "env_kv.ok_kvs (env_fields md5 p pname tt)"
  using field_keys_ok(2) by (simp only: ok_kvs_keys field_keys)

lemma fields_distinct: "distinct (map fst (env_fields md5 p pname tt))"
  using field_keys_ok(1) by (simp only: field_keys)

lemma apply_fields_inv: "ef_inv e \<Longrightarrow> ef_inv (apply_fields (env_fields md5 p pname tt) e)"
  unfolding apply_fields_kvs by (rule env_kv.inv_apply_kvs[OF _ fields_ok])

lemma apply_fields_get:
  assumes "ef_inv e" "map_of (env_fields md5 p pname tt) k = Some (Some v)" "strip v = v"
  shows "ef_get (apply_fields (env_fields md5 p pname tt) e) k = Some v"
  unfolding apply_fields_kvs
  by (rule env_kv.get_apply_kvs[OF assms(1) fields_ok fields_distinct assms(2)]) (simp add: assms(3))

lemma apply_fields_get_other:
  assumes "ef_inv e" "k \<notin> set FIELD_KEYS"
  shows "ef_get (apply_fields (env_fields md5 p pname tt) e) k = ef_get e k"
  unfolding apply_fields_kvs
  by (rule env_kv.get_apply_kvs_other[OF assms(1) fields_ok]) (use assms(2) in \<open>simp only: field_keys not_False_eq_True\<close>)

lemma py_int_nat_str: "py_int (nat_str n) = Some (int n)"
  using py_int_int_str[of "int n"] by (simp add: int_str_def)

section \<open>Properties\<close>

text \<open>An environment file with these values configures the ingress accordingly.\<close>

lemma env_ingress_config:
  assumes "ef_inv env" "\<forall>r \<in> set rngs. range_wf r"
    and "ef_get env ''SELF_AUTHED_PORTS'' = Some (ports_str selfs)" "ef_get env ''ALLOWED_PORTS'' = Some (ports_str allow)"
    and "ef_get env ''ALLOWED_PORT_RANGES'' = Some (ranges_str rngs)" "ef_get env ''DENIED_PORTS'' = Some (ports_str deny)"
    and "ef_get env ''INGRESS_TOKEN'' = Some token" "token \<noteq> []"
  shows "ingress_main (ingress_env (ef_as_map env) manifest) =
      Inr (8799, build_ingress_server token selfs allow (if manifest = [] then None else Some manifest) rngs deny)"
proof -
  have rng: "\<forall>r \<in> set rngs. 1 \<le> fst r \<and> fst r \<le> snd r \<and> snd r \<le> 65535"
    using assms(2) by (auto simp: range_wf_def)
  show ?thesis
    unfolding ingress_main_def env_get_def ingress_env_def py_int_env_def dget_or_def Let_def
    using assms(8) by (simp add: ef_as_map_get[OF assms(1)] assms(3-7) parse_ranges_str[OF rng] py_int_nat_str INGRESS_PORT_def)
qed

lemma use_ingress_config:
  assumes "valid_profile exists p" "ef_inv env" "ef_get env ''INGRESS_TOKEN'' = Some token" "token \<noteq> []"
  shows "ingress_main (use_env rt md5 p pname env manifest) =
      Inr (8799, build_ingress_server token (self_authed (compute_port_policy p)) (allowed (compute_port_policy p))
        (if manifest = [] then None else Some manifest) (port_ranges p) (port_deny p))"
proof -
  define tt where "tt = (case ef_get env ''TUNNEL_TOKEN'' of None \<Rightarrow> [] | Some t \<Rightarrow> t)"
  define kvs where "kvs = env_fields md5 (with_runner_service rt p) pname tt"
  let ?pol = "compute_port_policy p" and ?env = "apply_fields kvs env"
  have pol: "compute_port_policy (with_runner_service rt p) = ?pol" by (rule policy_with_runner_service)
  have f: "map_of kvs ''SELF_AUTHED_PORTS'' = Some (Some (ports_str (self_authed ?pol)))"
    "map_of kvs ''ALLOWED_PORTS'' = Some (Some (ports_str (allowed ?pol)))"
    "map_of kvs ''ALLOWED_PORT_RANGES'' = Some (Some (ranges_str (port_ranges p)))"
    "map_of kvs ''DENIED_PORTS'' = Some (Some (ports_str (port_deny p)))"
    by (simp_all add: kvs_def env_fields_def pol Let_def)
  note get = apply_fields_get[OF assms(2), of md5 "with_runner_service rt p" pname tt, folded kvs_def]
  have wf: "\<forall>r \<in> set (port_ranges p). range_wf r" using valid_range_section(1)[OF assms(1)] by auto
  have "ingress_main (ingress_env (ef_as_map ?env) manifest) =
      Inr (8799, build_ingress_server token (self_authed ?pol) (allowed ?pol) (if manifest = [] then None else Some manifest)
        (port_ranges p) (port_deny p))"
  proof (rule env_ingress_config[OF _ wf get[OF f(1) strip_ports_str(1)] get[OF f(2) strip_ports_str(1)]
        get[OF f(3) strip_ports_str(2)] get[OF f(4) strip_ports_str(1)] _ assms(4)])
    show "ef_inv ?env" unfolding kvs_def by (rule apply_fields_inv[OF assms(2)])
    show "ef_get ?env ''INGRESS_TOKEN'' = Some token"
      unfolding kvs_def using apply_fields_get_other[OF assms(2) field_keys_ok(4)] assms(3) by simp
  qed
  then show ?thesis by (simp add: use_env_def kvs_def tt_def Let_def)
qed

text \<open>
  C6. The port policy survives the way from the profile to the running ingress: for a valid profile,
  the fields written into the \<^verbatim>\<open>.env\<close> file, read back as the environment of the proxy and parsed by its
  start-up, give a configuration whose policy opens exactly the ports that the profile's policy
  opens and bypasses the token for exactly its self-authorized ports.
\<close>

theorem use_reaches_ingress:
  assumes "valid_profile exists p" "ef_inv env" "ef_get env ''INGRESS_TOKEN'' = Some token" "token \<noteq> []"
  shows "\<exists>cfg. ingress_main (use_env rt md5 p pname env manifest) = Inr (8799, cfg) \<and>
    cfg_mode cfg = ''ingress'' \<and> cfg_token cfg = token \<and>
    cfg_self_authed cfg = self_authed (compute_port_policy p) \<and>
    (\<forall>q. is_port_allowed (cfg_policy cfg) q = is_port_allowed (compute_port_policy p) q)"
  unfolding use_ingress_config[OF assms]
  by (simp add: is_port_allowed_def protected_ports_def cfg_policy_def build_ingress_server_def)

definition sample_runtime :: runtime where
  "sample_runtime = \<lparr>frozen = False, executable = ''python'', win32 = False, module_home = ''/opt/home'',
     exe_parent = ''/opt''\<rparr>"

theorem use_reaches_ingress_witness:
  "\<exists>cfg. ingress_main (use_env sample_runtime (\<lambda>_. ''0'') sample_profile ''app''
      (ef_load (Some ''INGRESS_TOKEN=t0ken'')) ''/tmp/m.json'') = Inr (8799, cfg) \<and>
    is_port_allowed (cfg_policy cfg) 5173 = is_port_allowed (compute_port_policy sample_profile) 5173"
proof -
  have "ef_inv (ef_load (Some ''INGRESS_TOKEN=t0ken''))"
    "ef_get (ef_load (Some ''INGRESS_TOKEN=t0ken'')) ''INGRESS_TOKEN'' = Some ''t0ken''" by code_simp+
  from use_reaches_ingress[OF sample_profile_valid this] show ?thesis by blast
qed

text \<open>
  Rotation replaces exactly the four tokens: afterwards each of them is the fresh value, and every
  other key keeps its value.
\<close>

theorem rotate_tokens_exact:
  assumes "ef_inv env" "length fresh = 4" "\<forall>t \<in> set fresh. strip t = t"
  shows "ef_get (snd (rotate_tokens fresh env)) k =
    (if k \<in> set TOKEN_KEYS then map_of (zip TOKEN_KEYS fresh) k else ef_get env k)"
proof -
  define kvs where "kvs = map (\<lambda>(k, v). (k, Some v)) (zip TOKEN_KEYS fresh)"
  have keys: "map fst kvs = TOKEN_KEYS" using assms(2) by (simp add: kvs_def split_beta o_def TOKEN_KEYS_def)
  have tk: "distinct TOKEN_KEYS" "list_all ok_key TOKEN_KEYS" by code_simp+
  have ok: "env_kv.ok_kvs kvs" using tk(2) by (simp only: ok_kvs_keys keys)
  have "fold (\<lambda>(k, v). ef_set k v) xs e = env_kv.apply_kvs (map (\<lambda>(k, v). (k, Some v)) xs) e" for xs e
    by (induction xs arbitrary: e) auto
  then have r: "snd (rotate_tokens fresh env) = env_kv.apply_kvs kvs env"
    by (simp add: rotate_tokens_def Let_def kvs_def)
  show ?thesis
  proof (cases "k \<in> set TOKEN_KEYS")
    case True
    then obtain v where v: "map_of (zip TOKEN_KEYS fresh) k = Some v"
      using assms(2) map_of_zip_is_Some[of TOKEN_KEYS fresh k] by (auto simp: TOKEN_KEYS_def)
    then have "v \<in> set fresh" by (meson in_set_zipE map_of_SomeD)
    moreover have "map_of kvs k = Some (Some v)"
      using v by (simp add: kvs_def map_of_map)
    ultimately have "ef_get (env_kv.apply_kvs kvs env) k = Some v"
      using assms(3) tk(1) keys by (intro env_kv.get_apply_kvs[OF assms(1) ok]) auto
    with True v r show ?thesis by simp
  next
    case False
    with env_kv.get_apply_kvs_other[OF assms(1) ok, of k] keys r show ?thesis by simp
  qed
qed

definition same_ends :: "string \<Rightarrow> string \<Rightarrow> bool" where
  "same_ends t u \<longleftrightarrow> t = u \<or> 8 \<le> length t \<and> 8 \<le> length u \<and> take 4 t = take 4 u \<and>
     drop (length t - 4) t = drop (length u - 4) u"

lemma mask_same_ends: "same_ends t u \<Longrightarrow> mask_token t = mask_token u"
  by (auto simp: same_ends_def mask_token_def)

text \<open>
  The chat block printed without \<^verbatim>\<open>--full\<close> tells at most the first and the last four characters of
  each token: two environments that agree on everything but the inner characters of tokens of at
  least eight characters give the same block.
\<close>

theorem chat_block_masked:
  assumes "\<forall>k \<in> set TOKEN_KEYS. same_ends (dget_or m k []) (dget_or m' k [])"
    and "dget_or m ''UI_PORT'' [] = dget_or m' ''UI_PORT'' []"
  shows "chat_block m url False preview rport selfs gport = chat_block m' url False preview rport selfs gport"
  using assms by (cases gport) (simp_all add: chat_block_def Let_def TOKEN_KEYS_def mask_same_ends)

end
