(* ===== verification/Redact.thy ===== *)
theory Redact
  imports Prelude
begin

text \<open>
  Masking of secrets (\<^verbatim>\<open>home/rdm/redact.py\<close>). The two regular expressions are deterministic: each
  repetition is over a class that the next item cannot start with, so a matcher that takes the
  longest run at every step finds exactly the match of the backtracking engine. A matcher gets the
  character before the position (\<^const>\<open>None\<close> at the start of the text, where \<^verbatim>\<open>^\<close> matches) and returns
  what follows its match. \<^verbatim>\<open>re.I\<close> compares lower-case ASCII letters.
\<close>

section \<open>Substitution by a matcher\<close>

type_synonym matcher = "char option \<Rightarrow> string \<Rightarrow> string option"

function re_sub :: "matcher \<Rightarrow> string \<Rightarrow> char option \<Rightarrow> string \<Rightarrow> string" where
  "re_sub m rep prev s =
     (case s of
        [] \<Rightarrow> []
      | c # r \<Rightarrow>
          (case m prev s of
             Some t \<Rightarrow>
               if length t < length s
               then rep @ re_sub m rep (Some (s ! (length s - length t - 1))) t
               else c # re_sub m rep (Some c) r
           | None \<Rightarrow> c # re_sub m rep (Some c) r))"
  by pat_completeness auto
termination by (relation "measure (\<lambda>(_, _, _, s). length s)") auto

declare re_sub.simps [simp del]

fun re_search :: "matcher \<Rightarrow> char option \<Rightarrow> string \<Rightarrow> bool" where
  "re_search m prev [] = (m prev [] \<noteq> None)"
| "re_search m prev (c # s) = (m prev (c # s) \<noteq> None \<or> re_search m (Some c) s)"

section \<open>The patterns\<close>

definition SECRET_WORDS :: "string list" where
  "SECRET_WORDS = [''token'', ''key'', ''secret'', ''password'', ''passwd'', ''bearer'']"

definition starts_ci :: "string \<Rightarrow> string \<Rightarrow> bool" where
  "starts_ci w s \<longleftrightarrow> lower (take (length w) s) = w"

text \<open>\<^verbatim>\<open>\s*[=:]\s*\S+\<close>\<close>

definition assigned :: "string \<Rightarrow> string option" where
  "assigned s =
     (case dropWhile is_ws s of
        [] \<Rightarrow> None
      | c # r \<Rightarrow>
          if c \<noteq> CHR ''='' \<and> c \<noteq> CHR '':'' then None
          else let v = dropWhile is_ws r in
            if v = [] then None else Some (dropWhile (\<lambda>d. \<not> is_ws d) v))"

definition secret_assign :: matcher where
  "secret_assign prev s =
     (case find (\<lambda>w. starts_ci w s) SECRET_WORDS of
        None \<Rightarrow> None
      | Some w \<Rightarrow> assigned (drop (length w) s))"

definition is_hex :: "char \<Rightarrow> bool" where
  "is_hex c \<longleftrightarrow> is_digit c \<or> 97 \<le> code c \<and> code c \<le> 102 \<or> 65 \<le> code c \<and> code c \<le> 70"

text \<open>\<^verbatim>\<open>^[A-Fa-f0-9]{32,}$\<close>\<close>

definition hex_token :: matcher where
  "hex_token prev s =
     (let h = takeWhile is_hex s; r = dropWhile is_hex s in
      if prev = None \<and> 32 \<le> length h \<and> (r = [] \<or> r = [CHR 0x0A]) then Some r else None)"

definition SECRETISH :: matcher where
  "SECRETISH prev s = (case secret_assign prev s of Some t \<Rightarrow> Some t | None \<Rightarrow> hex_token prev s)"

text \<open>Word characters of \<^verbatim>\<open>str\<close> patterns below code point 256.\<close>

definition is_word :: "char \<Rightarrow> bool" where
  "is_word c \<longleftrightarrow> is_alnum c \<or> c = CHR ''_'' \<or> code c \<in> {170, 178, 179, 181, 185, 186, 188, 189, 190} \<or>
     192 \<le> code c \<and> code c \<noteq> 215 \<and> code c \<noteq> 247"

definition bearer_ch :: "char \<Rightarrow> bool" where
  "bearer_ch c \<longleftrightarrow> is_alnum c \<or> c \<in> set ''._-''"

text \<open>\<^verbatim>\<open>(?i)\bbearer\s+[A-Za-z0-9._\-]{16,}\<close>\<close>

definition BEARER :: matcher where
  "BEARER prev s =
     (if (case prev of None \<Rightarrow> False | Some p \<Rightarrow> is_word p) \<or> \<not> starts_ci ''bearer'' s then None
      else let r = drop 6 s; v = dropWhile is_ws r in
        if takeWhile is_ws r = [] \<or> length (takeWhile bearer_ch v) < 16 then None
        else Some (dropWhile bearer_ch v))"

section \<open>The functions\<close>

definition redact_argv :: "string list \<Rightarrow> string list" where
  "redact_argv argv = map (\<lambda>a. if re_search SECRETISH None a then ''[REDACTED]'' else a) argv"

definition redact_text :: "string \<Rightarrow> string" where
  "redact_text s = re_sub BEARER ''Bearer [REDACTED]'' None (re_sub SECRETISH ''[REDACTED]'' None s)"

section \<open>What is left after masking\<close>

lemma assigned_shorter: "assigned s = Some t \<Longrightarrow> length t < length s"
proof -
  assume a: "assigned s = Some t"
  then obtain c r where c: "dropWhile is_ws s = c # r" "t = dropWhile (\<lambda>d. \<not> is_ws d) (dropWhile is_ws r)"
    by (auto simp: assigned_def Let_def split: list.splits if_splits)
  have "length t \<le> length r"
    using c(2) le_trans[OF length_dropWhile_le length_dropWhile_le] by simp
  moreover have "Suc (length r) \<le> length s" using c(1) by (metis length_Cons length_dropWhile_le)
  ultimately show ?thesis by simp
qed

lemma secret_assign_shorter: "secret_assign p s = Some t \<Longrightarrow> length t < length s"
proof -
  assume "secret_assign p s = Some t"
  then obtain w :: string where "assigned (drop (length w) s) = Some t"
    by (auto simp: secret_assign_def split: option.splits)
  from assigned_shorter[OF this] show ?thesis by simp
qed

text \<open>After a masked assignment comes white space or the end of the text.\<close>

lemma assigned_rest: "assigned s = Some t \<Longrightarrow> t = [] \<or> is_ws (hd t)"
proof -
  assume "assigned s = Some t"
  then obtain v where "t = dropWhile (\<lambda>d. \<not> is_ws d) v"
    by (auto simp: assigned_def Let_def split: list.splits if_splits)
  then show ?thesis using hd_dropWhile[of "\<lambda>d. \<not> is_ws d" v] by auto
qed

text \<open>Only the shape of a text decides whether an assignment follows: the run of white space, the
  sign, the next run and whether anything comes after it.\<close>

lemma assigned_None_iff:
  "assigned s \<noteq> None \<longleftrightarrow>
     (\<exists>w c w' d r. s = w @ c # w' @ d # r \<and> (\<forall>x \<in> set w. is_ws x) \<and> (\<forall>x \<in> set w'. is_ws x) \<and>
        (c = CHR ''='' \<or> c = CHR '':'') \<and> \<not> is_ws d)"
proof
  assume "assigned s \<noteq> None"
  then obtain c r where c: "dropWhile is_ws s = c # r" "c = CHR ''='' \<or> c = CHR '':''" "dropWhile is_ws r \<noteq> []"
    by (auto simp: assigned_def Let_def split: list.splits if_splits)
  then obtain d r' where d: "dropWhile is_ws r = d # r'" by (cases "dropWhile is_ws r") auto
  then have "\<not> is_ws d" by (metis hd_dropWhile list.sel(1) list.distinct(1))
  moreover have "s = takeWhile is_ws s @ c # takeWhile is_ws r @ d # r'"
    using c(1) d by (metis takeWhile_dropWhile_id)
  ultimately show "\<exists>w c w' d r. s = w @ c # w' @ d # r \<and> (\<forall>x \<in> set w. is_ws x) \<and> (\<forall>x \<in> set w'. is_ws x) \<and>
        (c = CHR ''='' \<or> c = CHR '':'') \<and> \<not> is_ws d"
    using c(2) by (metis set_takeWhileD)
next
  assume "\<exists>w c w' d r. s = w @ c # w' @ d # r \<and> (\<forall>x \<in> set w. is_ws x) \<and> (\<forall>x \<in> set w'. is_ws x) \<and>
        (c = CHR ''='' \<or> c = CHR '':'') \<and> \<not> is_ws d"
  then obtain w c w' d r where s: "s = w @ c # w' @ d # r" "\<forall>x \<in> set w. is_ws x" "\<forall>x \<in> set w'. is_ws x"
    "c = CHR ''='' \<or> c = CHR '':''" "\<not> is_ws d" by blast
  have "\<not> is_ws c" using s(4) by (auto simp: is_ws_def)
  then have "dropWhile is_ws s = c # w' @ d # r" using s by (simp add: dropWhile_append)
  moreover have "dropWhile is_ws (w' @ d # r) = d # r" using s by (simp add: dropWhile_append)
  ultimately show "assigned s \<noteq> None" using s(4) by (simp add: assigned_def Let_def)
qed

text \<open>No secret word is a prefix of another, so at most one can start at a position.\<close>

lemma words_not_prefix:
  "list_all (\<lambda>w. list_all (\<lambda>v. w = v \<or> take (length w) v \<noteq> w) SECRET_WORDS) SECRET_WORDS"
  by code_simp

lemma starts_ci_unique:
  assumes "w \<in> set SECRET_WORDS" "v \<in> set SECRET_WORDS" "starts_ci w s" "starts_ci v s" "length w \<le> length v"
  shows "w = v"
proof -
  have "take (length w) v = lower (take (length w) (take (length v) s))"
    using assms(4) by (metis starts_ci_def take_map)
  also have "\<dots> = w" using assms(3,5) by (simp add: starts_ci_def min_absorb1)
  finally show ?thesis using words_not_prefix assms(1,2) by (auto simp: list_all_iff)
qed

lemma find_word:
  assumes "w \<in> set SECRET_WORDS" "starts_ci w s"
  shows "find (\<lambda>w. starts_ci w s) SECRET_WORDS = Some w"
proof (cases "find (\<lambda>w. starts_ci w s) SECRET_WORDS")
  case None
  then show ?thesis using assms by (auto simp: find_None_iff)
next
  case (Some v)
  then have "v \<in> set SECRET_WORDS" "starts_ci v s" by (auto simp: find_Some_iff)
  then have "v = w" using starts_ci_unique[of v w s] starts_ci_unique[of w v s] assms by (metis nat_le_linear)
  with Some show ?thesis by simp
qed

lemma secret_assign_iff:
  "secret_assign p s \<noteq> None \<longleftrightarrow>
     (\<exists>w \<in> set SECRET_WORDS. starts_ci w s \<and> assigned (drop (length w) s) \<noteq> None)"
proof (cases "find (\<lambda>w. starts_ci w s) SECRET_WORDS")
  case None
  then have "\<forall>w \<in> set SECRET_WORDS. \<not> starts_ci w s" by (auto simp: find_None_iff)
  with None show ?thesis by (simp add: secret_assign_def)
next
  case (Some v)
  then have "v \<in> set SECRET_WORDS" "starts_ci v s" by (auto simp: find_Some_iff)
  moreover have "w = v" if "w \<in> set SECRET_WORDS" "starts_ci w s" for w
    using find_word[OF that] Some by simp
  ultimately have "(\<exists>w \<in> set SECRET_WORDS. starts_ci w s \<and> assigned (drop (length w) s) \<noteq> None) \<longleftrightarrow>
      assigned (drop (length v) s) \<noteq> None" by metis
  with Some show ?thesis by (simp add: secret_assign_def)
qed

abbreviation masked :: "char option \<Rightarrow> string \<Rightarrow> string" where
  "masked \<equiv> re_sub SECRETISH ''[REDACTED]''"

lemma masked_cases:
  obtains (nil) "s = []" "masked p s = []"
  | (hit) t p' where "masked p s = ''[REDACTED]'' @ masked (Some p') t" "length t < length s" "SECRETISH p s = Some t"
  | (miss) c r where "s = c # r" "masked p s = c # masked (Some c) r" "secret_assign p s = None"
proof (cases s)
  case Nil
  then show ?thesis using nil by (simp add: re_sub.simps)
next
  case (Cons c r)
  show ?thesis
  proof (cases "SECRETISH p s")
    case None
    then have "secret_assign p s = None" by (simp add: SECRETISH_def split: option.splits)
    have "masked p s = c # masked (Some c) r" using None Cons by (subst re_sub.simps) simp
    with \<open>secret_assign p s = None\<close> Cons show ?thesis by (intro miss)
  next
    case (Some t)
    have "length t < length s"
    proof (cases "secret_assign p s")
      case None
      with Some have "hex_token p s = Some t" by (simp add: SECRETISH_def)
      then have t: "t = dropWhile is_hex s" and "32 \<le> length (takeWhile is_hex s)"
        by (auto simp: hex_token_def Let_def split: if_splits)
      moreover have "length s = length (takeWhile is_hex s) + length (dropWhile is_hex s)"
        by (metis length_append takeWhile_dropWhile_id)
      ultimately have "length (dropWhile is_hex s) < length s" by linarith
      with t show ?thesis by simp
    qed (use Some secret_assign_shorter in \<open>auto simp: SECRETISH_def\<close>)
    moreover from this have "masked p s = ''[REDACTED]'' @ masked (Some (s ! (length s - length t - 1))) t"
      using Some Cons by (subst re_sub.simps) simp
    ultimately show ?thesis using Some by (intro hit)
  qed
qed

text \<open>A prefix of the result without a bracket was copied.\<close>

lemma masked_prefix:
  assumes "masked (Some p) s = x @ y" "CHR ''['' \<notin> set x"
  shows "\<exists>p' r. s = x @ r \<and> y = masked (Some p') r"
  using assms
proof (induction x arbitrary: p s)
  case Nil
  then show ?case by (metis append_Nil)
next
  case (Cons a x)
  show ?case
  proof (cases rule: masked_cases[of s "Some p"])
    case nil
    with Cons show ?thesis by simp
  next
    case (hit t p')
    with Cons show ?thesis by simp
  next
    case (miss c r)
    with Cons.prems have "masked (Some c) r = x @ y" "a = c" "CHR ''['' \<notin> set x" by auto
    from Cons.IH[OF this(1,3)] miss \<open>a = c\<close> show ?thesis by auto
  qed
qed

lemma word_no_bracket: "lower x = w \<Longrightarrow> w \<in> set SECRET_WORDS \<Longrightarrow> CHR ''['' \<notin> set x"
proof
  assume w: "lower x = w" "w \<in> set SECRET_WORDS" and c: "CHR ''['' \<in> set x"
  from c have "lower_ch (CHR ''['') \<in> set (lower x)" by simp
  moreover have "lower_ch (CHR ''['') = CHR ''[''" by code_simp
  moreover have "list_all (\<lambda>w. CHR ''['' \<notin> set w) SECRET_WORDS" by code_simp
  ultimately show False using w by (auto simp: list_all_iff)
qed

lemma word_hd_not_ws:
  assumes "w \<in> set SECRET_WORDS" "starts_ci w s"
  shows "s \<noteq> [] \<and> \<not> is_ws (hd s)"
proof -
  have "list_all (\<lambda>w. w \<noteq> [] \<and> \<not> is_ws (hd w)) SECRET_WORDS" by code_simp
  with assms(1) have w: "w \<noteq> []" "\<not> is_ws (hd w)" by (auto simp: list_all_iff)
  from assms(2) w(1) obtain c r where s: "s = c # r" "lower_ch c = hd w"
    by (cases s; cases w) (auto simp: starts_ci_def)
  moreover have "\<not> is_ws c"
  proof
    assume "is_ws c"
    then have "lower_ch c = c" by (auto simp: is_ws_def lower_ch_def)
    with s w \<open>is_ws c\<close> show False by simp
  qed
  ultimately show ?thesis by simp
qed

text \<open>What follows the first character of a result matches only if the original did.\<close>

lemma masked_no_new_match:
  assumes "secret_assign p (c # r) = None"
  shows "secret_assign q (c # masked (Some c) r) = None"
proof (rule ccontr)
  assume "secret_assign q (c # masked (Some c) r) \<noteq> None"
  then obtain w where w: "w \<in> set SECRET_WORDS" "starts_ci w (c # masked (Some c) r)"
    and a: "assigned (drop (length w) (c # masked (Some c) r)) \<noteq> None"
    unfolding secret_assign_iff by blast
  from a obtain b e b' d y where y: "drop (length w) (c # masked (Some c) r) = b @ e # b' @ d # y"
    "\<forall>x \<in> set b. is_ws x" "\<forall>x \<in> set b'. is_ws x" "e = CHR ''='' \<or> e = CHR '':''" "\<not> is_ws d"
    unfolding assigned_None_iff by blast
  define v where "v = take (length w) (c # masked (Some c) r)"
  have v: "lower v = w" using w(2) by (simp add: v_def starts_ci_def)
  then have "length v = length w" by (metis length_map)
  have "list_all (\<lambda>w. w \<noteq> []) SECRET_WORDS" by code_simp
  with w(1) have "w \<noteq> []" by (simp add: list_all_iff)
  then obtain n where "length w = Suc n" by (cases w) simp_all
  then obtain v' where v': "v = c # v'" by (simp add: v_def)
  have "c # masked (Some c) r = v @ b @ e # b' @ d # y"
    using y(1) unfolding v_def by (metis append_take_drop_id)
  then have m: "masked (Some c) r = (v' @ b @ e # b') @ d # y" using v' by simp
  have ws: "\<not> is_ws (CHR ''['')" by (simp add: is_ws_def)
  have "CHR ''['' \<notin> set (v' @ b @ e # b')"
    using word_no_bracket[OF v w(1)] y(2-4) ws v' by auto
  from masked_prefix[OF m this] obtain p' r2 where r2: "r = (v' @ b @ e # b') @ r2" "d # y = masked (Some p') r2"
    by blast
  have "\<exists>d' y'. r2 = d' # y' \<and> \<not> is_ws d'"
  proof (cases rule: masked_cases[of r2 "Some p'"])
    case (hit t p'')
    then have "secret_assign (Some p') r2 \<noteq> None" by (auto simp: SECRETISH_def hex_token_def split: option.splits)
    then obtain w2 where "w2 \<in> set SECRET_WORDS" "starts_ci w2 r2" unfolding secret_assign_iff by blast
    from word_hd_not_ws[OF this] show ?thesis by (cases r2) auto
  qed (use r2 y(5) in auto)
  then obtain d' y' where d': "r2 = d' # y'" "\<not> is_ws d'" by blast
  have cr: "c # r = v @ b @ e # b' @ d' # y'" using r2(1) d'(1) v' by simp
  then have "starts_ci w (c # r)" "drop (length w) (c # r) = b @ e # b' @ d' # y'"
    using v \<open>length v = length w\<close> by (simp_all add: starts_ci_def)
  moreover from this have "assigned (drop (length w) (c # r)) \<noteq> None"
    unfolding assigned_None_iff using y(2-4) d'(2) by blast
  ultimately have "secret_assign p (c # r) \<noteq> None" using w(1) unfolding secret_assign_iff by blast
  with assms show False by simp
qed

lemma no_match_in_mask:
  "re_search secret_assign p (''[REDACTED]'' @ t) \<longleftrightarrow> re_search secret_assign (Some (CHR '']'')) t"
proof -
  have "lower_ch (CHR ''['') = CHR ''[''" "lower_ch (CHR '']'') = CHR '']''" "lower_ch (CHR ''R'') = CHR ''r''"
    "lower_ch (CHR ''E'') = CHR ''e''" "lower_ch (CHR ''D'') = CHR ''d''" "lower_ch (CHR ''A'') = CHR ''a''"
    "lower_ch (CHR ''C'') = CHR ''c''" "lower_ch (CHR ''T'') = CHR ''t''" by code_simp+
  then show ?thesis by (simp add: secret_assign_def SECRET_WORDS_def starts_ci_def)
qed

section \<open>Properties\<close>

text \<open>
  Masking leaves no secret behind: whatever the text, after the first substitution no name like
  \<^verbatim>\<open>token\<close> or \<^verbatim>\<open>password\<close> is followed by an equals sign or a colon and a value, not even where two
  replaced parts meet.
\<close>

theorem masked_no_assignment: "\<not> re_search secret_assign p (re_sub SECRETISH ''[REDACTED]'' q s)"
proof (induction "length s" arbitrary: s p q rule: less_induct)
  case less
  show ?case
  proof (cases rule: masked_cases[of s q])
    case nil
    have "secret_assign p [] = None" by (simp add: secret_assign_def SECRET_WORDS_def starts_ci_def)
    with nil show ?thesis by simp
  next
    case (hit t p')
    then show ?thesis using less[of t] by (simp only: no_match_in_mask) simp
  next
    case (miss c r)
    then have "secret_assign p (c # masked (Some c) r) = None"
      using masked_no_new_match[of q c r p] by simp
    with miss less[of r] show ?thesis by simp
  qed
qed

end
