(* ===== verification/Events.thy ===== *)
theory Events
  imports Json Redact
begin

text \<open>
  The append-only logs: \<^verbatim>\<open>home/rdm/proxy/access_log.py\<close> (rotation, retention, the access line) and the
  event sink \<^verbatim>\<open>home/rdm/events/sink.py\<close>. The disk is a map from paths to texts and modification
  times, as one process sees it under its lock; the lock file itself, the directory creation and
  the open handles beyond which of them are open are not modelled. A failing rename is a
  parameter. Times are integers (seconds), a timestamp of a log line is a parameter.
\<close>

section \<open>The log files\<close>

record log_fs =
  lf_text :: "(string, string) dict"
  lf_mtime :: "(string, int) dict"
  lf_handles :: "string list"
  lf_writes :: nat

definition LOG_MAX_BYTES :: nat where
  "LOG_MAX_BYTES = 10 * 1024 * 1024"

definition CHECK_EVERY :: nat where
  "CHECK_EVERY = 512"

definition RETENTION_DAYS :: int where
  "RETENTION_DAYS = 7"

definition rotated :: "string \<Rightarrow> string" where
  "rotated path = path @ ''.1''"

definition file_text :: "log_fs \<Rightarrow> string \<Rightarrow> string" where
  "file_text fs path = dget_or (lf_text fs) path []"

definition file_size :: "log_fs \<Rightarrow> string \<Rightarrow> nat" where
  "file_size fs path = length (utf8 (file_text fs path))"

text \<open>The handle is closed in any case; the rename may fail.\<close>

definition rotate :: "bool \<Rightarrow> string \<Rightarrow> log_fs \<Rightarrow> log_fs" where
  "rotate rename_ok path fs =
     (let fs1 = fs\<lparr>lf_handles := removeAll path (lf_handles fs)\<rparr> in
      if rename_ok \<and> has_key (lf_text fs1) path
      then fs1\<lparr>lf_text := ddel path (dset (rotated path) (file_text fs1 path) (lf_text fs1)),
               lf_mtime := ddel path (dset (rotated path) (dget_or (lf_mtime fs1) path 0) (lf_mtime fs1))\<rparr>
      else fs1)"

definition append_text :: "int \<Rightarrow> bool \<Rightarrow> string \<Rightarrow> string \<Rightarrow> log_fs \<Rightarrow> log_fs" where
  "append_text now rename_ok path line fs =
     (let fs1 = (if path \<in> set (lf_handles fs) then fs else fs\<lparr>lf_handles := lf_handles fs @ [path]\<rparr>);
          fs2 = fs1\<lparr>lf_text := dset path (file_text fs1 path @ line) (lf_text fs1),
                    lf_mtime := dset path now (lf_mtime fs1), lf_writes := Suc (lf_writes fs1)\<rparr> in
      if lf_writes fs2 mod CHECK_EVERY = 0 \<and> LOG_MAX_BYTES < file_size fs2 path
      then rotate rename_ok path fs2 else fs2)"

text \<open>The file state and the names removed; \<open>unlink_ok\<close> tells whether the removal succeeds.\<close>

definition apply_retention :: "int \<Rightarrow> bool \<Rightarrow> bool \<Rightarrow> int \<Rightarrow> string \<Rightarrow> log_fs \<Rightarrow> log_fs \<times> string list" where
  "apply_retention now rename_ok unlink_ok days path fs =
     (let cutoff = now - days * 86400;
          fs1 = (if has_key (lf_text fs) path \<and> 0 < file_size fs path \<and> dget_or (lf_mtime fs) path 0 < cutoff
                 then rotate rename_ok path fs else fs);
          old = rotated path in
      if has_key (lf_text fs1) old \<and> dget_or (lf_mtime fs1) old 0 < cutoff \<and> unlink_ok
      then (fs1\<lparr>lf_text := ddel old (lf_text fs1), lf_mtime := ddel old (lf_mtime fs1)\<rparr>, [old])
      else (fs1, []))"

definition default_log_path :: "(string, string) dict \<Rightarrow> string \<Rightarrow> string" where
  "default_log_path env tmp =
     (let o' = dget_or env ''ACCESS_LOG'' [] in
      if o' \<noteq> [] then o' else tmp @ ''/rdm-ingress/access.log'')"

definition default_events_path :: "(string, string) dict \<Rightarrow> string \<Rightarrow> string" where
  "default_events_path env tmp =
     (let o' = dget_or env ''RDM_EVENTS_PATH'' [] in
      if o' \<noteq> [] then o' else tmp @ ''/rdm-ingress/events.jsonl'')"

section \<open>The access line\<close>

definition escape_ch :: "char \<Rightarrow> string" where
  "escape_ch c =
     (if 33 \<le> code c \<and> code c \<le> 126 then [c]
      else [CHR 0x5C, CHR ''x'', hex_ch (code c div 16), hex_ch (code c mod 16)])"

definition escape :: "string \<Rightarrow> string" where
  "escape raw = concat (map escape_ch raw)"

definition access_line :: "string \<Rightarrow> int \<Rightarrow> string \<Rightarrow> string \<Rightarrow> string \<Rightarrow> string" where
  "access_line stamp port meth target auth_mode =
     stamp @ '' '' @ int_str port @ '' '' @ escape meth @ '' '' @ take 120 (escape target) @ '' '' @
     auth_mode @ [CHR 0x0A]"

section \<open>The sink\<close>

definition FIELDS :: "string list" where
  "FIELDS = [''ts'', ''kind'', ''session'', ''server'', ''port'', ''method'', ''rpc_method'', ''tool'', ''rpc_id'',
     ''job_id'', ''status'', ''permission'', ''permission_id'', ''exit'', ''latency_ms'', ''bytes'', ''truncated'',
     ''unparsed'', ''payload'']"

definition redact_value :: "json \<Rightarrow> json" where
  "redact_value v = (case v of JStr s \<Rightarrow> JStr (redact_text s) | _ \<Rightarrow> v)"

type_synonym event = "(string, json) dict"

definition set_default :: "string \<Rightarrow> json \<Rightarrow> event \<Rightarrow> event" where
  "set_default k v e = (if has_key e k then e else dset k v e)"

definition clean_event :: "json \<Rightarrow> event \<Rightarrow> event" where
  "clean_event now e =
     map (\<lambda>(k, v). (k, redact_value v)) (filter (\<lambda>(k, v). k \<in> set FIELDS) (set_default ''ts'' now e))"

text \<open>The line that \<^verbatim>\<open>emit\<close> appends to the events file.\<close>

definition emit_line :: "json \<Rightarrow> event \<Rightarrow> string" where
  "emit_line now e = dumps (fmt_default False) (JObj (clean_event now e)) @ [CHR 0x0A]"

definition emit :: "int \<Rightarrow> bool \<Rightarrow> string \<Rightarrow> json \<Rightarrow> event \<Rightarrow> log_fs \<Rightarrow> log_fs" where
  "emit now rename_ok path ts e fs = append_text now rename_ok path (emit_line ts e) fs"

section \<open>Facts\<close>

lemma rotated_neq [simp]: "rotated path \<noteq> path" "path \<noteq> rotated path"
  by (simp_all add: rotated_def)

lemma file_text_upd [simp]:
  "dget_or (dset k v d) k' x = (if k' = k then v else dget_or d k' x)"
  "dget_or (ddel k d) k' x = (if k' = k then x else dget_or d k' x)"
  by (auto simp: dget_or_def)

lemma hex_ch_graph: "d < 16 \<Longrightarrow> 33 \<le> code (hex_ch d) \<and> code (hex_ch d) \<le> 126"
  by (auto simp: hex_ch_def)

lemma escape_graph: "c \<in> set (escape s) \<Longrightarrow> 33 \<le> code c \<and> code c \<le> 126"
proof -
  assume "c \<in> set (escape s)"
  then obtain d where d: "c \<in> set (escape_ch d)" by (auto simp: escape_def)
  have "code d < 256" by simp
  then have "code d div 16 < 16" "code d mod 16 < 16" by presburger+
  with d hex_ch_graph show ?thesis by (auto simp: escape_ch_def split: if_splits)
qed

section \<open>Properties\<close>

text \<open>
  Appending never loses the line and loses nothing else but an earlier rotated copy: the rotated
  file followed by the current one grows by the line at its end, or, when this write rotates, the
  rotated file becomes the previous file with the line.
\<close>

theorem append_text_keeps:
  "(let fs' = append_text now rename_ok path line fs;
        all = file_text fs (rotated path) @ file_text fs path @ line;
        all' = file_text fs' (rotated path) @ file_text fs' path in
    all' = all \<or> all' = file_text fs path @ line \<and> file_text fs' path = [] \<and>
      Suc (lf_writes fs) mod CHECK_EVERY = 0 \<and> LOG_MAX_BYTES < length (utf8 (file_text fs path @ line)))"
  by (auto simp: append_text_def rotate_def Let_def file_text_def file_size_def)

text \<open>
  C36. A request cannot forge access log entries: for every method and target a request can carry,
  the line has its only line feed at the end and its only blanks between the five fields.
\<close>

theorem access_line_unforgeable:
  assumes "CHR '' '' \<notin> set stamp" "CHR 0x0A \<notin> set stamp" "CHR '' '' \<notin> set mode" "CHR 0x0A \<notin> set mode"
  shows "split_str [CHR 0x0A] (access_line stamp port meth target mode) =
      [butlast (access_line stamp port meth target mode), []] \<and>
    split_str '' '' (butlast (access_line stamp port meth target mode)) =
      [stamp, int_str port, escape meth, take 120 (escape target), mode]"
proof -
  have e: "CHR '' '' \<notin> set (escape s)" "CHR 0x0A \<notin> set (escape s)" for s
    using escape_graph[of "CHR '' ''" s] escape_graph[of "CHR 0x0A" s] by auto
  then have t: "CHR '' '' \<notin> set (take 120 (escape s))" "CHR 0x0A \<notin> set (take 120 (escape s))" for s
    by (meson in_set_takeD)+
  have i: "CHR '' '' \<notin> set (int_str port)" "CHR 0x0A \<notin> set (int_str port)"
    using nat_str_digits[of "nat port"] nat_str_digits[of "nat (- port)"]
    by (auto simp: int_str_def is_digit_def split: if_splits)
  define fields where "fields = [stamp, int_str port, escape meth, take 120 (escape target), mode]"
  have b: "butlast (access_line stamp port meth target mode) = py_join '' '' fields"
    by (simp add: access_line_def fields_def butlast_append)
  have l: "access_line stamp port meth target mode = py_join [CHR 0x0A] [py_join '' '' fields, []]"
    by (simp add: access_line_def fields_def)
  have "split_str '' '' (py_join '' '' fields) = fields"
    by (rule split_str_join) (use assms e t i in \<open>auto simp: fields_def\<close>)
  moreover have "split_str [CHR 0x0A] (access_line stamp port meth target mode) = [py_join '' '' fields, []]"
    unfolding l by (rule split_str_join) (use assms e t i in \<open>auto simp: fields_def\<close>)
  ultimately show ?thesis by (simp add: b fields_def)
qed

theorem access_line_unforgeable_witness:
  "length (split_str [CHR 0x0A] (access_line ''2024-01-01'' 80 ''GET'' (''/a'' @ CHR 0x0A # ''/b c'') ''ingress'')) = 2"
  using access_line_unforgeable[of "''2024-01-01''" "''ingress''" 80 "''GET''" "''/a'' @ CHR 0x0A # ''/b c''"]
  by simp

text \<open>
  C37. Only the fixed fields reach the events file, every text among them masked, and each event is one
  line that reads back as exactly these fields: the sink drops everything else a caller puts into
  an event.
\<close>

theorem emit_line_schema:
  assumes "json_exact (JObj (clean_event now e))"
  shows "loads (emit_line now e) = Some (JObj (clean_event now e)) \<and>
    set (dkeys (clean_event now e)) \<subseteq> set FIELDS \<and>
    (\<forall>k s. (k, JStr s) \<in> set (clean_event now e) \<longrightarrow> (\<exists>t. s = redact_text t))"
proof -
  have "loads (emit_line now e) = Some (JObj (clean_event now e))"
    unfolding emit_line_def by (rule loads_dumps_ws[OF assms]) (simp_all add: jws_def)
  moreover have "\<exists>t. s = redact_text t" if "(k, JStr s) \<in> set (clean_event now e)" for k s
    using that by (auto simp: clean_event_def redact_value_def split: json.splits)
  ultimately show ?thesis by (auto simp: clean_event_def)
qed

theorem emit_line_schema_witness:
  "loads (emit_line (JInt 5) [(''status'', JInt 200), (''secret'', JStr ''x'')]) =
   Some (JObj (clean_event (JInt 5) [(''status'', JInt 200), (''secret'', JStr ''x'')]))"
  using emit_line_schema[of "JInt 5" "[(''status'', JInt 200), (''secret'', JStr ''x'')]"]
  by (simp add: clean_event_def redact_value_def FIELDS_def set_default_def has_key_def)

end
