(* ===== verification/Tap.thy ===== *)
theory Tap
  imports Events Ingress
begin

text \<open>
  The observation taps of the ingress: metadata of JSON-RPC requests and job responses
  (\<^verbatim>\<open>home/rdm/proxy/mcp_tap.py\<close>) and the bounded tee with the events it emits
  (\<^verbatim>\<open>home/rdm/proxy/event_tap.py\<close>). Decoding bytes to text is the parameter \<open>decode\<close>; \<^const>\<open>None\<close> is a
  \<^verbatim>\<open>UnicodeDecodeError\<close>, a \<^verbatim>\<open>ValueError\<close> like a JSON error. An exception that the parser lets through is
  an \<open>Inl\<close>.
\<close>

section \<open>Requests\<close>

definition JLen :: "string \<Rightarrow> json" where
  "JLen b = JInt (int (length b))"

definition loads_bytes :: "(string \<Rightarrow> string option) \<Rightarrow> string \<Rightarrow> json option" where
  "loads_bytes decode b = (case decode b of None \<Rightarrow> None | Some t \<Rightarrow> loads t)"

definition id_keys :: "(string, json) dict \<Rightarrow> event \<Rightarrow> event" where
  "id_keys arguments meta =
     fold (\<lambda>key m. case obj_get arguments key of JStr s \<Rightarrow> dset key (JStr s) m | _ \<Rightarrow> m)
       [''job_id'', ''permission_id''] meta"

definition call_meta :: "json \<Rightarrow> event \<Rightarrow> event" where
  "call_meta params meta =
     (case params of
        JObj ps \<Rightarrow>
          (let m1 = (if obj_get ps ''name'' \<noteq> JNull then dset ''tool'' (obj_get ps ''name'') meta else meta) in
           case obj_get ps ''arguments'' of JObj a \<Rightarrow> id_keys a m1 | _ \<Rightarrow> m1)
      | _ \<Rightarrow> meta)"

definition message_meta :: "json \<Rightarrow> json \<Rightarrow> event" where
  "message_meta len message =
     (case message of
        JObj m \<Rightarrow>
          (case obj_get m ''method'' of
             JStr meth \<Rightarrow>
               (let m0 = [(''rpc_method'', JStr meth), (''bytes'', len)];
                    m1 = (if obj_get m ''id'' \<noteq> JNull then dset ''rpc_id'' (obj_get m ''id'') m0 else m0) in
                if meth = ''tools/call'' then call_meta (obj_get m ''params'') m1 else m1)
           | _ \<Rightarrow> [(''bytes'', len), (''unparsed'', JBool True)])
      | _ \<Rightarrow> [(''bytes'', len), (''unparsed'', JBool True)])"

definition parse_request_meta :: "(string \<Rightarrow> string option) \<Rightarrow> string \<Rightarrow> nat \<Rightarrow> event option" where
  "parse_request_meta decode body cap =
     (if body = [] then None
      else if cap < length body then Some [(''bytes'', JLen body), (''truncated'', JBool True)]
      else case loads_bytes decode body of
        None \<Rightarrow> Some [(''bytes'', JLen body), (''unparsed'', JBool True)]
      | Some message \<Rightarrow> Some (message_meta (JLen body) message))"

section \<open>Responses\<close>

text \<open>\<^verbatim>\<open>result.get("content") or []\<close> as an iterable: a list gives its items, a string or an object gives
  strings, and a non-zero number raises \<^verbatim>\<open>TypeError\<close>.\<close>

definition content_items :: "json \<Rightarrow> string + json list" where
  "content_items c =
     (if \<not> truthy c then Inr []
      else case c of
        JArr xs \<Rightarrow> Inr xs
      | JStr s \<Rightarrow> Inr (map (\<lambda>ch. JStr [ch]) s)
      | JObj d \<Rightarrow> Inr (map (\<lambda>(k, _). JStr k) d)
      | _ \<Rightarrow> Inl ''TypeError'')"

definition block_job :: "json \<Rightarrow> (string, json) dict option" where
  "block_job block =
     (case block of
        JObj b \<Rightarrow>
          if obj_get b ''type'' \<noteq> JStr ''text'' then None
          else (case obj_get b ''text'' of
            JStr t \<Rightarrow>
              (case loads t of
                 Some (JObj d) \<Rightarrow> if has_key d ''job_id'' then Some d else None
               | _ \<Rightarrow> None)
          | _ \<Rightarrow> None)
      | _ \<Rightarrow> None)"

fun first_job :: "json list \<Rightarrow> (string, json) dict option" where
  "first_job [] = None"
| "first_job (b # bs) = (case block_job b of Some d \<Rightarrow> Some d | None \<Rightarrow> first_job bs)"

definition jobview :: "json \<Rightarrow> string + (string, json) dict option" where
  "jobview result =
     (case result of
        JObj r \<Rightarrow> rbind (content_items (obj_get r ''content'')) (\<lambda>items. Inr (first_job items))
      | _ \<Rightarrow> Inr None)"

definition permission_type :: "json \<Rightarrow> string option" where
  "permission_type permission =
     (case permission of
        JObj p \<Rightarrow>
          (let v = (if truthy (obj_get p ''permission'') then obj_get p ''permission'' else obj_get p ''type'') in
           case v of JStr s \<Rightarrow> Some s | _ \<Rightarrow> None)
      | _ \<Rightarrow> None)"

definition permission_id :: "json \<Rightarrow> string option" where
  "permission_id permission =
     (case permission of
        JObj p \<Rightarrow> (case obj_get p ''id'' of JStr s \<Rightarrow> Some s | _ \<Rightarrow> None)
      | _ \<Rightarrow> None)"

definition exit_code :: "json \<Rightarrow> json" where
  "exit_code result =
     (case result of
        JObj r \<Rightarrow> (case obj_get r ''metadata'' of JObj m \<Rightarrow> obj_get m ''exit'' | _ \<Rightarrow> JNull)
      | _ \<Rightarrow> JNull)"

definition job_meta :: "json \<Rightarrow> (string, json) dict \<Rightarrow> event" where
  "job_meta len job =
     (let m0 = [(''bytes'', len), (''job_id'', obj_get job ''job_id'')];
          m1 = (if obj_get job ''status'' \<noteq> JNull then dset ''status'' (obj_get job ''status'') m0 else m0);
          m2 = (case permission_type (obj_get job ''permission'') of
                  Some t \<Rightarrow> dset ''permission'' (JStr t) m1 | None \<Rightarrow> m1);
          m3 = (case permission_id (obj_get job ''permission'') of
                  Some i \<Rightarrow> dset ''permission_id'' (JStr i) m2 | None \<Rightarrow> m2) in
      if exit_code (obj_get job ''result'') \<noteq> JNull
      then dset ''exit'' (exit_code (obj_get job ''result'')) m3 else m3)"

definition parse_response_meta :: "(string \<Rightarrow> string option) \<Rightarrow> string \<Rightarrow> nat \<Rightarrow> string + event option" where
  "parse_response_meta decode raw cap =
     (if raw = [] then Inr None
      else if cap < length raw then Inr (Some [(''bytes'', JLen raw), (''truncated'', JBool True)])
      else let payload = (case py_partition (CRLF @ CRLF) raw of (_, f, b) \<Rightarrow> if f then b else raw) in
        case loads_bytes decode payload of
          Some (JObj m) \<Rightarrow>
            rbind (jobview (obj_get m ''result'')) (\<lambda>j. Inr (map_option (job_meta (JLen raw)) j))
        | _ \<Rightarrow> Inr (Some [(''bytes'', JLen raw), (''unparsed'', JBool True)]))"

section \<open>The tee\<close>

definition CAP :: nat where
  "CAP = 32 * 1024 * 1024"

record tee =
  tee_cap :: nat
  tee_buf :: string
  tee_total :: nat
  tee_truncated :: bool

definition new_tee :: "nat \<Rightarrow> tee" where
  "new_tee cap = \<lparr>tee_cap = cap, tee_buf = [], tee_total = 0, tee_truncated = False\<rparr>"

text \<open>The bookkeeping of \<^verbatim>\<open>sendall\<close> after the bytes went to the client.\<close>

definition tee_send :: "string \<Rightarrow> tee \<Rightarrow> tee" where
  "tee_send data t =
     (let t1 = t\<lparr>tee_total := tee_total t + length data\<rparr>;
          room = int (tee_cap t) - int (length (tee_buf t)) in
      if room > 0
      then let kept = take (nat room) data;
               t2 = t1\<lparr>tee_buf := tee_buf t @ kept\<rparr> in
        if length kept < length data then t2\<lparr>tee_truncated := True\<rparr> else t2
      else if data \<noteq> [] then t1\<lparr>tee_truncated := True\<rparr> else t1)"

section \<open>The taps\<close>

definition tap_error_event :: "int \<Rightarrow> string \<Rightarrow> event" where
  "tap_error_event port meth = [(''kind'', JStr ''tap_error''), (''port'', JInt port), (''method'', JStr meth)]"

text \<open>The metadata that gates the response tap, and the events emitted.\<close>

definition on_request ::
  "(string \<Rightarrow> string option) \<Rightarrow> config \<Rightarrow> string \<Rightarrow> string \<Rightarrow> string \<Rightarrow> event option \<times> event list" where
  "on_request decode cfg meth target body =
     (if cfg_mode cfg \<noteq> ''ingress'' \<or> upper meth \<noteq> ''POST'' then (None, [])
      else case parse_route target of
        None \<Rightarrow> (None, [])
      | Some r \<Rightarrow>
          if int (rt_port r) \<noteq> BRIDGE_PORT then (None, [])
          else (case parse_request_meta decode body CAP of
            None \<Rightarrow> (None, [])
          | Some meta \<Rightarrow>
              (Some meta, [dupdate [(''kind'', JStr ''mcp_request''), (''port'', JInt BRIDGE_PORT),
                 (''method'', JStr meth)] meta])))"

definition response_meta :: "(string \<Rightarrow> string option) \<Rightarrow> tee \<Rightarrow> string + event option" where
  "response_meta decode t =
     (if tee_truncated t
      then Inr (Some [(''bytes'', JInt (int (tee_total t))), (''truncated'', JBool True)])
      else parse_response_meta decode (tee_buf t) CAP)"

text \<open>The events emitted after the relay has written \<open>sent\<close> through the tee.\<close>

definition on_response ::
  "(string \<Rightarrow> string option) \<Rightarrow> config \<Rightarrow> int \<Rightarrow> string \<Rightarrow> int \<Rightarrow> string list \<Rightarrow> event list" where
  "on_response decode cfg port meth status sent =
     (if cfg_mode cfg \<noteq> ''ingress'' \<or> port \<noteq> BRIDGE_PORT then []
      else case response_meta decode (fold tee_send sent (new_tee CAP)) of
        Inl _ \<Rightarrow> [tap_error_event port meth]
      | Inr None \<Rightarrow> []
      | Inr (Some meta) \<Rightarrow>
          [dupdate [(''kind'', JStr ''mcp_response''), (''port'', JInt port), (''method'', JStr meth),
             (''status'', JInt status)] meta])"

section \<open>Facts\<close>

lemma set_keys_dset: "set (dkeys (dset k v d)) = insert k (set (dkeys d))"
  by (simp add: update_keys insert_absorb)

lemma id_keys_simp:
  "id_keys a m =
     (let m1 = (case obj_get a ''job_id'' of JStr s \<Rightarrow> dset ''job_id'' (JStr s) m | _ \<Rightarrow> m) in
      case obj_get a ''permission_id'' of JStr s \<Rightarrow> dset ''permission_id'' (JStr s) m1 | _ \<Rightarrow> m1)"
  by (simp add: id_keys_def Let_def)

text \<open>The capture is the first bytes sent, up to the cap, and the flag says whether any are missing.\<close>

definition tee_of :: "nat \<Rightarrow> string \<Rightarrow> tee" where
  "tee_of cap sent = \<lparr>tee_cap = cap, tee_buf = take cap sent, tee_total = length sent, tee_truncated = cap < length sent\<rparr>"

lemma tee_send_of: "tee_send data (tee_of cap sent) = tee_of cap (sent @ data)"
proof (cases "length sent < cap")
  case True
  then have "nat (int cap - int (length (take cap sent))) = cap - length sent" by simp
  with True show ?thesis by (auto simp: tee_send_def tee_of_def Let_def not_less)
next
  case False
  then show ?thesis by (cases data) (auto simp: tee_send_def tee_of_def Let_def)
qed

lemma tee_fold: "fold tee_send ds (tee_of cap sent) = tee_of cap (sent @ concat ds)"
  by (induction ds arbitrary: sent) (simp_all add: tee_send_of)

definition META_KEYS :: "string list" where
  "META_KEYS = [''rpc_method'', ''bytes'', ''rpc_id'', ''tool'', ''job_id'', ''permission_id'', ''unparsed'']"

definition meta_only :: "event \<Rightarrow> bool" where
  "meta_only e \<longleftrightarrow> set (dkeys e) \<subseteq> set META_KEYS"

lemma meta_only_dset: "meta_only d \<Longrightarrow> k \<in> set META_KEYS \<Longrightarrow> meta_only (dset k v d)"
  unfolding meta_only_def set_keys_dset by simp

lemma meta_keys: "''rpc_id'' \<in> set META_KEYS" "''tool'' \<in> set META_KEYS" "''job_id'' \<in> set META_KEYS"
  "''permission_id'' \<in> set META_KEYS"
  "meta_only [(''rpc_method'', v), (''bytes'', w)]" "meta_only [(''rpc_method'', v), (''bytes'', w), (''rpc_id'', x)]"
  "meta_only [(''bytes'', v), (''unparsed'', w)]"
  by (simp_all add: META_KEYS_def meta_only_def)

lemma id_keys_meta: "meta_only m \<Longrightarrow> meta_only (id_keys a m)"
  unfolding id_keys_simp Let_def by (auto split: json.split intro!: meta_only_dset meta_keys)

lemma call_meta_meta: "meta_only m \<Longrightarrow> meta_only (call_meta p m)"
  unfolding call_meta_def Let_def by (auto split: json.split intro!: meta_only_dset meta_keys id_keys_meta)

lemma message_meta_meta: "meta_only (message_meta len j)"
  unfolding message_meta_def Let_def
  by (auto split: json.split intro!: meta_only_dset meta_keys call_meta_meta)

section \<open>Properties\<close>

text \<open>
  Observation does not touch the payload: of a \<^verbatim>\<open>tools/call\<close> request only the method, the id, the tool
  name, the size and the two identity arguments reach the event. Two calls that agree on those
  give the same event whatever else their arguments hold.
\<close>

theorem request_meta_payload_free:
  assumes "obj_get a ''job_id'' = obj_get b ''job_id''" "obj_get a ''permission_id'' = obj_get b ''permission_id''"
    and "\<forall>k. k \<noteq> ''params'' \<longrightarrow> obj_get m k = obj_get m' k"
    and "obj_get m ''params'' = JObj p" "obj_get m' ''params'' = JObj p'" "obj_get p ''name'' = obj_get p' ''name''"
    and "obj_get p ''arguments'' = JObj a" "obj_get p' ''arguments'' = JObj b"
  shows "message_meta len (JObj m) = message_meta len (JObj m') \<and> meta_only (message_meta len (JObj m))"
proof -
  have "id_keys a meta = id_keys b meta" for meta
    using assms(1,2) by (simp add: id_keys_simp Let_def)
  then have "call_meta (JObj p) meta = call_meta (JObj p') meta" for meta
    using assms(6-8) by (simp add: call_meta_def Let_def)
  moreover have "obj_get m ''method'' = obj_get m' ''method''" "obj_get m ''id'' = obj_get m' ''id''"
    using assms(3) by simp_all
  ultimately have "message_meta len (JObj m) = message_meta len (JObj m')"
    using assms(4,5) by (cases "obj_get m' ''method''") (simp_all add: message_meta_def Let_def)
  then show ?thesis using message_meta_meta by simp
qed

text \<open>
  The tee captures exactly the first bytes of the relayed response, up to its cap, counts all of
  them, and raises its flag exactly when some did not fit; however the relay cuts the response
  into writes, the observed event is the same.
\<close>

theorem tee_captures_prefix: "fold tee_send ds (new_tee cap) = tee_of cap (concat ds)"
  using tee_fold[of ds cap "[]"] by (simp add: new_tee_def tee_of_def)

end
