(* ===== verification/Regex.thy ===== *)
theory Regex
  imports Prelude
begin

text \<open>
  Regular expressions with the priorities of a backtracking engine: a match is a position, given by
  the character before it and the text after it, and \<open>rx_match\<close> lists the ends of all matches from
  a position in the order in which the engine tries them. Repetitions are over a character class,
  which is all the sources use; \<open>Star\<close> is greedy and \<open>Lazy\<close> is not.
\<close>

type_synonym pos = "char option \<times> string"

datatype rx =
    Eps
  | Cls "char \<Rightarrow> bool"
  | Star "char \<Rightarrow> bool"
  | Lazy "char \<Rightarrow> bool"
  | Bnd "char \<Rightarrow> bool"
  | Seq rx rx
  | Alt rx rx

fun star_ends :: "(char \<Rightarrow> bool) \<Rightarrow> char option \<Rightarrow> string \<Rightarrow> pos list" where
  "star_ends P p [] = [(p, [])]"
| "star_ends P p (c # s) = (if P c then star_ends P (Some c) s else []) @ [(p, c # s)]"

definition at_word :: "(char \<Rightarrow> bool) \<Rightarrow> char option \<Rightarrow> bool" where
  "at_word W o' = (case o' of None \<Rightarrow> False | Some c \<Rightarrow> W c)"

definition hd_opt :: "string \<Rightarrow> char option" where
  "hd_opt s = (case s of [] \<Rightarrow> None | c # _ \<Rightarrow> Some c)"

text \<open>\<^verbatim>\<open>\b\<close> with the word characters \<open>W\<close>.\<close>

fun rx_match :: "rx \<Rightarrow> pos \<Rightarrow> pos list" where
  "rx_match Eps x = [x]"
| "rx_match (Cls P) (p, s) = (case s of c # r \<Rightarrow> if P c then [(Some c, r)] else [] | [] \<Rightarrow> [])"
| "rx_match (Star P) (p, s) = star_ends P p s"
| "rx_match (Lazy P) (p, s) = rev (star_ends P p s)"
| "rx_match (Bnd W) (p, s) = (if at_word W p \<noteq> at_word W (hd_opt s) then [(p, s)] else [])"
| "rx_match (Seq a b) x = concat (map (rx_match b) (rx_match a x))"
| "rx_match (Alt a b) x = rx_match a x @ rx_match b x"

definition rx_first :: "rx \<Rightarrow> pos \<Rightarrow> pos option" where
  "rx_first r x = (case rx_match r x of [] \<Rightarrow> None | y # _ \<Rightarrow> Some y)"

text \<open>\<^verbatim>\<open>search\<close>: the text before the match, the matched text and the rest.\<close>

fun rx_search :: "rx \<Rightarrow> char option \<Rightarrow> string \<Rightarrow> (string \<times> string \<times> string) option" where
  "rx_search r p [] = (case rx_first r (p, []) of None \<Rightarrow> None | Some _ \<Rightarrow> Some ([], [], []))"
| "rx_search r p (c # s) =
     (case rx_first r (p, c # s) of
        Some (_, t) \<Rightarrow> Some ([], take (length (c # s) - length t) (c # s), t)
      | None \<Rightarrow> map_option (apfst ((#) c)) (rx_search r (Some c) s))"

definition rx_found :: "rx \<Rightarrow> string \<Rightarrow> bool" where
  "rx_found r s \<longleftrightarrow> rx_search r None s \<noteq> None"

text \<open>A literal, exact or compared in lower case, and a non-empty repetition.\<close>

fun lit :: "string \<Rightarrow> rx" where
  "lit [] = Eps"
| "lit (c # s) = Seq (Cls (\<lambda>d. d = c)) (lit s)"

fun lit_ci :: "string \<Rightarrow> rx" where
  "lit_ci [] = Eps"
| "lit_ci (c # s) = Seq (Cls (\<lambda>d. lower_ch d = c)) (lit_ci s)"

definition plus :: "(char \<Rightarrow> bool) \<Rightarrow> rx" where
  "plus P = Seq (Cls P) (Star P)"

definition opt :: "rx \<Rightarrow> rx" where
  "opt r = Alt r Eps"

fun seqs :: "rx list \<Rightarrow> rx" where
  "seqs [] = Eps"
| "seqs (r # rs) = Seq r (seqs rs)"

section \<open>Facts\<close>

text \<open>Every end of a match is a suffix of the text.\<close>

lemma star_ends_suffix: "(q, t) \<in> set (star_ends P p s) \<Longrightarrow> \<exists>u. s = u @ t \<and> (\<forall>c \<in> set u. P c)"
proof (induction s arbitrary: p)
  case (Cons c s)
  then consider "(q, t) = (p, c # s)" | "P c" "(q, t) \<in> set (star_ends P (Some c) s)"
    by (auto split: if_splits)
  then show ?case
  proof cases
    case 2
    with Cons.IH obtain u where "s = u @ t" "\<forall>c \<in> set u. P c" by blast
    with 2 have "c # s = (c # u) @ t" "\<forall>d \<in> set (c # u). P d" by auto
    then show ?thesis by blast
  qed auto
qed auto

lemma rx_match_suffix: "(q, t) \<in> set (rx_match r (p, s)) \<Longrightarrow> \<exists>u. s = u @ t"
proof (induction r arbitrary: p s q t)
  case (Seq a b)
  then obtain q' s' where "(q', s') \<in> set (rx_match a (p, s))" "(q, t) \<in> set (rx_match b (q', s'))" by auto
  with Seq.IH show ?case by (metis append_assoc)
next
  case (Star P)
  then show ?case by (auto dest: star_ends_suffix)
next
  case (Lazy P)
  then show ?case by (auto dest: star_ends_suffix)
qed (auto split: list.splits if_splits)

lemma rx_first_suffix: "rx_first r (p, s) = Some (q, t) \<Longrightarrow> \<exists>u. s = u @ t"
  by (rule rx_match_suffix[of q t r p s]) (auto simp: rx_first_def split: list.splits)

lemma rx_search_split: "rx_search r p s = Some (a, m, b) \<Longrightarrow> s = a @ m @ b"
proof (induction s arbitrary: p a)
  case (Cons c s)
  show ?case
  proof (cases "rx_first r (p, c # s)")
    case None
    with Cons show ?thesis by auto
  next
    case (Some y)
    obtain q t where y: "y = (q, t)" by (cases y)
    have "a = []" "b = t" "m = take (length (c # s) - length t) (c # s)" using Some y Cons.prems by auto
    moreover obtain u where u: "c # s = u @ t" using rx_first_suffix[of r p "c # s" q t] Some y by auto
    moreover have "take (length (c # s) - length t) (c # s) = u" using u by simp
    ultimately show ?thesis using u by simp
  qed
qed (auto split: option.splits)

end
