(* ===== verification/ProxyServer.thy ===== *)
theory ProxyServer
  imports Tap Regex
begin

text \<open>
  The connection handler of the host proxy (\<^verbatim>\<open>home/rdm/proxy/server.py\<close>). The client socket is what
  \<^verbatim>\<open>recv\<close> will deliver and what \<^verbatim>\<open>sendall\<close> has sent; the state of a connection also records the requests
  made to upstream servers, the access log entries and the emitted events, so that properties can
  speak about them. \<^verbatim>\<open>http.client\<close> and the upstream sockets are parameters: a function from host, port
  and the bytes sent to what comes back. Timeouts are failures of \<^verbatim>\<open>recv\<close>.
\<close>

section \<open>Sockets\<close>

datatype recv_item = Data string | RecvFail

text \<open>\<^verbatim>\<open>sock.recv(n)\<close>: \<^const>\<open>None\<close> is an \<^verbatim>\<open>OSError\<close>, the empty string the end of the stream.\<close>

fun recv :: "nat \<Rightarrow> recv_item list \<Rightarrow> string option \<times> recv_item list" where
  "recv n [] = (Some [], [])"
| "recv n (RecvFail # s) = (None, s)"
| "recv n (Data c # s) = (if length c \<le> n then (Some c, s) else (Some (take n c), Data (drop n c) # s))"

fun inp_size :: "recv_item list \<Rightarrow> nat" where
  "inp_size [] = 0"
| "inp_size (RecvFail # s) = Suc (inp_size s)"
| "inp_size (Data c # s) = Suc (length c + inp_size s)"

lemma recv_size:
  "recv n s = (o', s') \<Longrightarrow> 0 < n \<Longrightarrow> inp_size s' + (case o' of Some d \<Rightarrow> length d | None \<Rightarrow> 0) \<le> inp_size s"
  by (cases "(n, s)" rule: recv.cases) (auto split: if_splits)

lemma recv_decreases [termination_simp]:
  "(o', s') = recv n s \<Longrightarrow> 0 < n \<Longrightarrow> o' = Some d \<Longrightarrow> d \<noteq> [] \<Longrightarrow> inp_size s' < inp_size s"
  by (cases "(n, s)" rule: recv.cases) (auto split: if_splits)

record upstream_response =
  ur_status :: nat
  ur_headers :: headers
  ur_length :: "nat option"
  ur_chunked :: bool
  ur_body :: "recv_item list"

datatype up_result = UpOk upstream_response | UpFail | UpCrash

datatype raw_result = RawRefused | RawSendFail | RawOpen "recv_item list"

record world =
  w_http :: "string \<Rightarrow> int \<Rightarrow> string \<Rightarrow> up_result"
  w_raw :: "string \<Rightarrow> int \<Rightarrow> string \<Rightarrow> raw_result"
  w_files :: "string \<Rightarrow> string option"
  w_digest :: "string \<Rightarrow> string"
  w_decode :: "string \<Rightarrow> string option"
  w_client_ip :: "string option"

text \<open>\<^const>\<open>UpFail\<close> is an \<^verbatim>\<open>OSError\<close> or \<^verbatim>\<open>HTTPException\<close> on the way to the response; \<^const>\<open>UpCrash\<close> any other
  exception, which ends the handler without an answer. A raw connection is refused, fails while the
  request is sent, or delivers what its server answers.\<close>

datatype upstream_request =
    UpHttp string int string
  | UpRaw string int string

record conn =
  cn_inp :: "recv_item list"
  cn_out :: "string list"
  cn_sends :: "bool list"
  cn_carry :: string
  cn_tap :: "event option"
  cn_events :: "event list"
  cn_access :: "(nat \<times> string \<times> string) list"
  cn_upstream :: "upstream_request list"

text \<open>\<^verbatim>\<open>sendall\<close>; \<open>cn_sends\<close> tells which of the next calls fail.\<close>

definition sendall :: "string \<Rightarrow> conn \<Rightarrow> bool \<times> conn" where
  "sendall data c =
     (case cn_sends c of
        [] \<Rightarrow> (True, c\<lparr>cn_out := cn_out c @ [data]\<rparr>)
      | ok # oks \<Rightarrow>
          if ok then (True, c\<lparr>cn_out := cn_out c @ [data], cn_sends := oks\<rparr>)
          else (False, c\<lparr>cn_sends := oks\<rparr>))"

section \<open>Small answers\<close>

definition PHRASES :: "(nat, string) dict" where
  "PHRASES =
    [(100, ''Continue''), (101, ''Switching Protocols''), (102, ''Processing''), (103, ''Early Hints''),
     (200, ''OK''), (201, ''Created''), (202, ''Accepted''), (203, ''Non-Authoritative Information''),
     (204, ''No Content''), (205, ''Reset Content''), (206, ''Partial Content''), (207, ''Multi-Status''),
     (208, ''Already Reported''), (226, ''IM Used''), (300, ''Multiple Choices''), (301, ''Moved Permanently''),
     (302, ''Found''), (303, ''See Other''), (304, ''Not Modified''), (305, ''Use Proxy''),
     (307, ''Temporary Redirect''), (308, ''Permanent Redirect''), (400, ''Bad Request''), (401, ''Unauthorized''),
     (402, ''Payment Required''), (403, ''Forbidden''), (404, ''Not Found''), (405, ''Method Not Allowed''),
     (406, ''Not Acceptable''), (407, ''Proxy Authentication Required''), (408, ''Request Timeout''),
     (409, ''Conflict''), (410, ''Gone''), (411, ''Length Required''), (412, ''Precondition Failed''),
     (413, ''Request Entity Too Large''), (414, ''Request-URI Too Long''), (415, ''Unsupported Media Type''),
     (416, ''Requested Range Not Satisfiable''), (417, ''Expectation Failed''), (418, [CHR ''I'', CHR 0x27] @ ''m a Teapot''),
     (421, ''Misdirected Request''), (422, ''Unprocessable Entity''), (423, ''Locked''), (424, ''Failed Dependency''),
     (425, ''Too Early''), (426, ''Upgrade Required''), (428, ''Precondition Required''),
     (429, ''Too Many Requests''), (431, ''Request Header Fields Too Large''),
     (451, ''Unavailable For Legal Reasons''), (500, ''Internal Server Error''), (501, ''Not Implemented''),
     (502, ''Bad Gateway''), (503, ''Service Unavailable''), (504, ''Gateway Timeout''),
     (505, ''HTTP Version Not Supported''), (506, ''Variant Also Negotiates''), (507, ''Insufficient Storage''),
     (508, ''Loop Detected''), (510, ''Not Extended''), (511, ''Network Authentication Required'')]"

definition reason :: "nat \<Rightarrow> string" where
  "reason code' = dget_or PHRASES code' ''Unknown''"

definition status_line :: "nat \<Rightarrow> string" where
  "status_line code' = ''HTTP/1.1 '' @ nat_str code' @ '' '' @ reason code' @ CRLF"

definition error_body :: "string \<Rightarrow> string \<Rightarrow> string" where
  "error_body err hint = dumps (fmt_compact False) (JObj [(''error'', JStr err), (''hint'', JStr hint)])"

definition BODY_UNAUTHORIZED :: string where
  "BODY_UNAUTHORIZED = error_body ''unauthorized'' ''send Authorization: Bearer <token>''"

definition BODY_FORBIDDEN :: string where
  "BODY_FORBIDDEN = error_body ''forbidden'' ''port is not in the allowed list for this profile''"

definition BODY_NOT_FOUND :: string where
  "BODY_NOT_FOUND = error_body ''not_found'' ''unknown path; endpoints live under /p/<port>/''"

definition BODY_BAD_GATEWAY :: string where
  "BODY_BAD_GATEWAY = error_body ''bad_gateway'' ''upstream unavailable''"

definition BODY_OVERLOADED :: string where
  "BODY_OVERLOADED = error_body ''service_unavailable'' ''too many concurrent connections''"

definition AUTH_CHALLENGE :: headers where
  "AUTH_CHALLENGE = [(''www-authenticate'', ''Bearer realm='' @ CHR 0x22 # ''devbox'' @ [CHR 0x22])]"

definition simple_answer :: "nat \<Rightarrow> bool \<Rightarrow> string \<Rightarrow> headers \<Rightarrow> string" where
  "simple_answer code' keep_alive body hs =
     status_line code' @
     (if body \<noteq> [] then ''content-type: application/json'' @ CRLF else []) @
     header_lines hs @
     ''content-length: '' @ nat_str (length body) @ CRLF @
     ''connection: '' @ (if keep_alive then ''keep-alive'' else ''close'') @ CRLF @ CRLF @ body"

text \<open>\<^verbatim>\<open>_simple\<close>: a failing send is ignored.\<close>

definition simple :: "nat \<Rightarrow> string \<Rightarrow> headers \<Rightarrow> conn \<Rightarrow> conn" where
  "simple code' body hs c = snd (sendall (simple_answer code' False body hs) c)"

definition send_body_answer :: "nat \<Rightarrow> headers \<Rightarrow> string \<Rightarrow> bool \<Rightarrow> conn \<Rightarrow> bool \<times> conn" where
  "send_body_answer code' hs body request_close c =
     (case sendall (status_line code' @ header_lines hs @ ''content-length: '' @ nat_str (length body) @ CRLF @
        ''connection: '' @ (if request_close then ''close'' else ''keep-alive'') @ CRLF @ CRLF @ body) c of
        (ok, c') \<Rightarrow> (ok \<and> \<not> request_close, c'))"

section \<open>Reading\<close>

definition TOO_BIG :: string where
  "TOO_BIG = CHR 0x00 # ''too-big''"

definition END_OF_HEAD :: string where
  "END_OF_HEAD = CRLF @ CRLF"

function read_head :: "recv_item list \<Rightarrow> string \<Rightarrow> string option \<times> string \<times> recv_item list" where
  "read_head inp carry =
     (if contains_sub END_OF_HEAD carry
      then case py_partition END_OF_HEAD carry of (head, _, rest) \<Rightarrow> (Some head, rest, inp)
      else case recv 65536 inp of
        (None, inp') \<Rightarrow> (None, [], inp')
      | (Some chunk, inp') \<Rightarrow>
          if chunk = [] then (None, [], inp')
          else if MAX_HEADER_BYTES + 4 < length (carry @ chunk) then (Some TOO_BIG, [], inp')
          else read_head inp' (carry @ chunk))"
  by pat_completeness auto
termination by (relation "measure (inp_size \<circ> fst)") (auto dest: recv_decreases)

declare read_head.simps [simp del]

function read_body :: "recv_item list \<Rightarrow> string \<Rightarrow> nat \<Rightarrow> string \<times> recv_item list \<times> bool" where
  "read_body inp body len =
     (if len \<le> length body then (body, inp, True)
      else case recv (min 65536 (len - length body)) inp of
        (None, inp') \<Rightarrow> (body, inp', False)
      | (Some chunk, inp') \<Rightarrow>
          if chunk = [] then (body, inp', False) else read_body inp' (body @ chunk) len)"
  by pat_completeness auto
termination by (relation "measure (inp_size \<circ> fst)") (auto dest!: recv_decreases)

declare read_body.simps [simp del]

text \<open>\<^verbatim>\<open>_read_body\<close>: the body, the new carry and whether it is complete.\<close>

definition read_body_carry :: "recv_item list \<Rightarrow> string \<Rightarrow> nat \<Rightarrow> string \<times> string \<times> bool \<times> recv_item list" where
  "read_body_carry inp carry len =
     (case read_body inp (take len carry) len of (body, inp', ok) \<Rightarrow>
        if ok then (body, drop len carry, True, inp') else (body, [], False, inp'))"

text \<open>\<^verbatim>\<open>_consume_body\<close>: \<^const>\<open>None\<close> when the connection has to be given up.\<close>

definition consume_body :: "body_framing \<Rightarrow> nat \<Rightarrow> bool \<Rightarrow> string \<Rightarrow> conn \<Rightarrow> (string \<times> string) option \<times> conn" where
  "consume_body f len expect carry c =
     (if f \<noteq> LENGTH then (Some ([], carry), c)
      else let (ok, c1) = (if expect then sendall (''HTTP/1.1 100 Continue'' @ CRLF @ CRLF) c else (True, c)) in
        if \<not> ok then (None, c1)
        else (case read_body_carry (cn_inp c1) carry len of (body, carry', complete, inp') \<Rightarrow>
          let c2 = c1\<lparr>cn_inp := inp'\<rparr> in
          if \<not> complete then (None, simple 400 [] [] c2) else (Some (body, carry'), c2)))"

section \<open>The base tag of HTML answers\<close>

definition byte_word :: "char \<Rightarrow> bool" where
  "byte_word c \<longleftrightarrow> is_alnum c \<or> c = CHR ''_''"

abbreviation not_gt :: "char \<Rightarrow> bool" where
  "not_gt c \<equiv> c \<noteq> CHR ''>''"

definition BASE_TAG :: rx where
  "BASE_TAG = seqs [lit_ci ''<base'', Bnd byte_word, Lazy not_gt, Cls is_bws, lit_ci ''href'', Star is_bws, lit ''='',
     Star is_bws,
     Alt (seqs [lit [CHR 0x22], Star (\<lambda>c. c \<noteq> CHR 0x22), lit [CHR 0x22]])
       (Alt (seqs [lit [CHR 0x27], Star (\<lambda>c. c \<noteq> CHR 0x27), lit [CHR 0x27]])
         (plus (\<lambda>c. \<not> is_bws c \<and> not_gt c))),
     Star not_gt, lit ''>'']"

definition HEAD_TAG :: rx where
  "HEAD_TAG = seqs [lit_ci ''<head'', Bnd byte_word, Star not_gt, lit ''>'']"

definition is_oct :: "char \<Rightarrow> bool" where
  "is_oct c \<longleftrightarrow> 48 \<le> code c \<and> code c \<le> 55"

definition oct_val :: "string \<Rightarrow> nat" where
  "oct_val s = foldl (\<lambda>a c. 8 * a + (code c - 48)) 0 s"

definition ctrl_escape :: "char \<Rightarrow> char option" where
  "ctrl_escape c =
     (if c = CHR ''a'' then Some (CHR 0x07) else if c = CHR ''b'' then Some (CHR 0x08)
      else if c = CHR ''f'' then Some (CHR 0x0C) else if c = CHR ''n'' then Some (CHR 0x0A)
      else if c = CHR ''r'' then Some (CHR 0x0D) else if c = CHR ''t'' then Some (CHR 0x09)
      else if c = CHR ''v'' then Some (CHR 0x0B) else None)"

text \<open>The replacement text of \<^verbatim>\<open>subn\<close> is a template in which a backslash escapes; \<open>m\<close> is the matched text.
  The pattern has no groups, so a reference to one is an error, which is \<^const>\<open>None\<close>.\<close>

function expand_template :: "string \<Rightarrow> string \<Rightarrow> string option" where
  "expand_template m s =
     (case s of
        [] \<Rightarrow> Some []
      | c # r \<Rightarrow>
          if c \<noteq> CHR 0x5C then map_option ((#) c) (expand_template m r)
          else (case r of
            [] \<Rightarrow> None
          | d # r1 \<Rightarrow>
              if d = CHR ''g'' then
                (if starts_with ''<0>'' r1 then map_option ((@) m) (expand_template m (drop 3 r1)) else None)
              else if d = CHR ''0'' then
                (let ds = take (length (takeWhile is_oct (take 2 r1))) r1 in
                 map_option ((#) (char_of (oct_val ds))) (expand_template m (drop (length ds) r1)))
              else if is_digit d then
                (if is_oct d \<and> length (takeWhile is_oct (take 2 r1)) = 2
                 then (if 255 < oct_val (d # take 2 r1) then None
                       else map_option ((#) (char_of (oct_val (d # take 2 r1)))) (expand_template m (drop 2 r1)))
                 else None)
              else if is_alpha d then
                (case ctrl_escape d of None \<Rightarrow> None | Some e \<Rightarrow> map_option ((#) e) (expand_template m r1))
              else if d = CHR 0x5C then map_option ((#) d) (expand_template m r1)
              else map_option (\<lambda>t. c # d # t) (expand_template m r1)))"
  by pat_completeness auto
termination by (relation "measure (length \<circ> snd)") auto

declare expand_template.simps [simp del]

definition base_tag_text :: "string \<Rightarrow> string" where
  "base_tag_text pfx = ''<base href='' @ CHR 0x22 # pfx @ CHR 0x22 # ''>''"

text \<open>\<^const>\<open>None\<close>: the template is not valid.\<close>

definition rewrite_base_href :: "string \<Rightarrow> string \<Rightarrow> string option" where
  "rewrite_base_href body pfx =
     (let tag = base_tag_text pfx in
      case rx_search BASE_TAG None body of
        Some (a, m, b) \<Rightarrow> map_option (\<lambda>t. a @ t @ b) (expand_template m tag)
      | None \<Rightarrow>
          (case rx_search HEAD_TAG None body of
             None \<Rightarrow> Some body
           | Some (a, m, b) \<Rightarrow> Some (a @ m @ tag @ b)))"

section \<open>Relaying the answer\<close>

datatype outcome = KeepOpen | CloseConn | Crash

definition outcome_of :: "bool \<Rightarrow> outcome" where
  "outcome_of keep = (if keep then KeepOpen else CloseConn)"

text \<open>\<^verbatim>\<open>response.read(n)\<close>: up to \<open>n\<close> bytes; \<^const>\<open>None\<close> when the connection breaks.\<close>

function read_upto :: "recv_item list \<Rightarrow> nat \<Rightarrow> string option" where
  "read_upto s n =
     (if n = 0 then Some []
      else case recv n s of
        (None, _) \<Rightarrow> None
      | (Some d, s') \<Rightarrow> if d = [] then Some [] else map_option ((@) d) (read_upto s' (n - length d)))"
  by pat_completeness auto
termination by (relation "measure (inp_size \<circ> fst)") (auto dest!: recv_decreases)

declare read_upto.simps [simp del]

text \<open>\<^verbatim>\<open>_stream_length\<close>: how many bytes were sent, or \<^const>\<open>None\<close> when reading or sending failed.\<close>

function stream_length :: "recv_item list \<Rightarrow> nat \<Rightarrow> nat \<Rightarrow> conn \<Rightarrow> nat option \<times> conn" where
  "stream_length s remaining sent c =
     (if remaining = 0 then (Some sent, c)
      else case recv (min 65536 remaining) s of
        (None, _) \<Rightarrow> (None, c)
      | (Some d, s') \<Rightarrow>
          if d = [] then (Some sent, c)
          else (case sendall d c of (ok, c') \<Rightarrow>
            if \<not> ok then (None, c') else stream_length s' (remaining - length d) (sent + length d) c'))"
  by pat_completeness auto
termination by (relation "measure (inp_size \<circ> fst)") (auto dest!: recv_decreases)

declare stream_length.simps [simp del]

fun hex_str :: "nat \<Rightarrow> string" where
  "hex_str n = (if n < 16 then [hex_ch n] else hex_str (n div 16) @ [hex_ch (n mod 16)])"

declare hex_str.simps [simp del]

text \<open>\<^verbatim>\<open>_stream_chunked\<close> and \<^verbatim>\<open>_stream_eof\<close>: whether everything was read and sent.\<close>

function stream_chunked :: "recv_item list \<Rightarrow> conn \<Rightarrow> bool \<times> conn" where
  "stream_chunked s c =
     (case recv 65536 s of
        (None, _) \<Rightarrow> (False, c)
      | (Some d, s') \<Rightarrow>
          if d = [] then sendall (''0'' @ CRLF @ CRLF) c
          else (case sendall (hex_str (length d) @ CRLF @ d @ CRLF) c of (ok, c') \<Rightarrow>
            if \<not> ok then (False, c') else stream_chunked s' c'))"
  by pat_completeness auto
termination by (relation "measure (inp_size \<circ> fst)") (auto dest!: recv_decreases)

declare stream_chunked.simps [simp del]

function stream_eof :: "recv_item list \<Rightarrow> conn \<Rightarrow> bool \<times> conn" where
  "stream_eof s c =
     (case recv 65536 s of
        (None, _) \<Rightarrow> (False, c)
      | (Some d, s') \<Rightarrow>
          if d = [] then (True, c)
          else (case sendall d c of (ok, c') \<Rightarrow> if \<not> ok then (False, c') else stream_eof s' c'))"
  by pat_completeness auto
termination by (relation "measure (inp_size \<circ> fst)") (auto dest!: recv_decreases)

declare stream_eof.simps [simp del]

definition first_value :: "string \<Rightarrow> headers \<Rightarrow> string option" where
  "first_value n hs = map_option snd (find (\<lambda>h. fst h = n) hs)"

text \<open>\<^verbatim>\<open>path.rpartition(b"/")[0]\<close>\<close>

definition before_last_slash :: "string \<Rightarrow> string" where
  "before_last_slash path =
     (if CHR ''/'' \<in> set path then rev (tl (dropWhile (\<lambda>c. c \<noteq> CHR ''/'') (rev path))) else [])"

definition MAX_HTML_REWRITE :: nat where
  "MAX_HTML_REWRITE = 8 * 1024 * 1024"

definition strip_bytes :: "string \<Rightarrow> string" where
  "strip_bytes = strip_by is_bws"

definition relay_raw :: "upstream_response \<Rightarrow> headers" where
  "relay_raw resp = map (\<lambda>(n, v). (lower n, v)) (ur_headers resp)"

definition relay_bodyless :: "string \<Rightarrow> upstream_response \<Rightarrow> bool" where
  "relay_bodyless meth resp \<longleftrightarrow> meth = ''HEAD'' \<or> ur_status resp \<in> {204, 304}"

definition relay_rewritable :: "config \<Rightarrow> string \<Rightarrow> upstream_response \<Rightarrow> bool" where
  "relay_rewritable cfg meth resp \<longleftrightarrow>
     \<not> relay_bodyless meth resp \<and> cfg_mode cfg = ''ingress'' \<and>
     (case ur_length resp of None \<Rightarrow> False | Some n \<Rightarrow> n \<le> MAX_HTML_REWRITE) \<and>
     starts_with ''text/html''
       (lower (strip_bytes (case first_value ''content-type'' (relay_raw resp) of None \<Rightarrow> [] | Some v \<Rightarrow> v))) \<and>
     (case first_value ''content-encoding'' (relay_raw resp) of
        None \<Rightarrow> True | Some v \<Rightarrow> lower (strip_bytes v) = ''identity'')"

text \<open>The framing headers appended to the answer, and whether the connection closes after it.\<close>

definition relay_framing :: "string \<Rightarrow> upstream_response \<Rightarrow> bool \<Rightarrow> string option \<Rightarrow> headers \<times> bool" where
  "relay_framing meth resp request_close rewritten =
     (case rewritten of
        Some b \<Rightarrow> ([(''content-length'', nat_str (length b))], request_close)
      | None \<Rightarrow>
          if relay_bodyless meth resp then
            (case first_value ''content-length'' (relay_raw resp) of
               Some v \<Rightarrow> [(''content-length'', v)]
             | None \<Rightarrow> (case ur_length resp of Some n \<Rightarrow> [(''content-length'', nat_str n)] | None \<Rightarrow> []),
             request_close)
          else if ur_chunked resp then ([(''transfer-encoding'', ''chunked'')], request_close)
          else (case ur_length resp of
             Some n \<Rightarrow> ([(''content-length'', nat_str n)], request_close)
           | None \<Rightarrow> ([], True)))"

definition relay_headers :: "upstream_response \<Rightarrow> headers" where
  "relay_headers resp =
     (let raw = relay_raw resp in
      filter (\<lambda>h. fst h \<notin> set (map fst (hop_by_hop raw)) \<and> fst h \<notin> {''content-length'', ''transfer-encoding''}) raw)"

definition relay :: "config \<Rightarrow> string \<Rightarrow> upstream_response \<Rightarrow> bool \<Rightarrow> int \<Rightarrow> string \<Rightarrow> conn \<Rightarrow> outcome \<times> conn" where
  "relay cfg meth resp request_close port path c =
     (let html = (if relay_rewritable cfg meth resp
                  then map_option (\<lambda>b. rewrite_base_href b (''/p/'' @ int_str port @ before_last_slash path @ ''/''))
                         (read_upto (ur_body resp) (the (ur_length resp)))
                  else Some (Some [])) in
      case html of
        None \<Rightarrow> (CloseConn, c)
      | Some None \<Rightarrow> (Crash, c)
      | Some (Some b) \<Rightarrow>
          (let rewritten = (if relay_rewritable cfg meth resp then Some b else None);
               (fr, close) = relay_framing meth resp request_close rewritten;
               head = status_line (ur_status resp) @
                 header_lines (relay_headers resp @ fr @
                   [(''connection'', if close then ''close'' else ''keep-alive'')]) @ CRLF in
           case sendall head c of (ok, c1) \<Rightarrow>
             if \<not> ok then (CloseConn, c1)
             else (case rewritten of
               Some b' \<Rightarrow> (case sendall b' c1 of (ok2, c2) \<Rightarrow> (outcome_of (ok2 \<and> \<not> close), c2))
             | None \<Rightarrow>
                 if relay_bodyless meth resp then (outcome_of (\<not> close), c1)
                 else if ur_chunked resp
                 then (case stream_chunked (ur_body resp) c1 of (ok2, c2) \<Rightarrow> (outcome_of (ok2 \<and> \<not> close), c2))
                 else (case ur_length resp of
                   Some n \<Rightarrow>
                     (case stream_length (ur_body resp) n 0 c1 of (sent, c2) \<Rightarrow>
                        (outcome_of (sent = Some n \<and> \<not> close), c2))
                 | None \<Rightarrow>
                     (case stream_eof (ur_body resp) c1 of (ok2, c2) \<Rightarrow> (outcome_of (ok2 \<and> \<not> close), c2))))))"

section \<open>Forwarding\<close>

definition host_header :: "string \<Rightarrow> int \<Rightarrow> string" where
  "host_header host port = host @ '':'' @ int_str port"

definition tap_wanted :: "int \<Rightarrow> event option \<Rightarrow> bool" where
  "tap_wanted port tap \<longleftrightarrow>
     port = BRIDGE_PORT \<and> (case tap of None \<Rightarrow> False | Some m \<Rightarrow> dget m ''rpc_method'' = Some (JStr ''tools/call''))"

definition note_upstream :: "upstream_request \<Rightarrow> conn \<Rightarrow> conn" where
  "note_upstream u c = c\<lparr>cn_upstream := cn_upstream c @ [u]\<rparr>"

definition forward ::
  "world \<Rightarrow> config \<Rightarrow> string \<Rightarrow> string \<Rightarrow> headers \<Rightarrow> string \<Rightarrow> string \<Rightarrow> int \<Rightarrow> bool \<Rightarrow> conn \<Rightarrow> outcome \<times> conn" where
  "forward w cfg meth path hs body host port request_close c =
     (let fwd = filter_forward_headers hs (host_header host port) (w_client_ip w) ''https'';
          bytes = send_head meth path fwd @ send_body body;
          c1 = note_upstream (UpHttp host port bytes) c in
      case w_http w host port bytes of
        UpFail \<Rightarrow> (CloseConn, simple 502 BODY_BAD_GATEWAY [] c1)
      | UpCrash \<Rightarrow> (Crash, c1)
      | UpOk resp \<Rightarrow>
          (case relay cfg meth resp request_close port path c1 of (o', c2) \<Rightarrow>
             if tap_wanted port (cn_tap c) \<and> o' \<noteq> Crash
             then (o', c2\<lparr>cn_events := cn_events c2 @ on_response (w_decode w) cfg port meth (int (ur_status resp))
                             (drop (length (cn_out c1)) (cn_out c2))\<rparr>)
             else (o', c2)))"

function read_raw_head :: "recv_item list \<Rightarrow> string \<Rightarrow> (string \<times> string) option \<times> recv_item list" where
  "read_raw_head s buf =
     (if contains_sub END_OF_HEAD buf
      then case py_partition END_OF_HEAD buf of (head, _, rest) \<Rightarrow> (Some (head @ END_OF_HEAD, rest), s)
      else case recv 65536 s of
        (None, s') \<Rightarrow> (None, s')
      | (Some chunk, s') \<Rightarrow>
          if chunk = [] then (None, s')
          else if MAX_HEADER_BYTES < length (buf @ chunk) then (None, s')
          else read_raw_head s' (buf @ chunk))"
  by pat_completeness auto
termination by (relation "measure (inp_size \<circ> fst)") (auto dest: recv_decreases)

declare read_raw_head.simps [simp del]

text \<open>\<^verbatim>\<open>int\<close> of bytes: only ASCII white space around, and at most 4300 digits.\<close>

definition bytes_int :: "string \<Rightarrow> int option" where
  "bytes_int b = (let t = strip_by is_bws b in if 4300 < length (filter is_digit t) then None else
     if \<exists>c \<in> set t. is_ws c then None else py_int t)"

definition raw_status :: "string \<Rightarrow> int option" where
  "raw_status head =
     (case split_str '' '' head of
        _ # code' # _ \<Rightarrow> bytes_int code'
      | _ \<Rightarrow> None)"

text \<open>\<^verbatim>\<open>_pipe_until_eof\<close> stops at the first failure on either side.\<close>

definition pipe_until_eof :: "recv_item list \<Rightarrow> conn \<Rightarrow> conn" where
  "pipe_until_eof src c = snd (stream_eof src c)"

definition send_if_any :: "string \<Rightarrow> conn \<Rightarrow> bool \<times> conn" where
  "send_if_any data c = (if data \<noteq> [] then sendall data c else (True, c))"

text \<open>The answer to an upgrade is relayed as it came; after a 101 the connection becomes a tunnel,
  which is the machine of the next section, and is over when the tunnel ends.\<close>

definition forward_websocket ::
  "world \<Rightarrow> string \<Rightarrow> string \<Rightarrow> headers \<Rightarrow> string \<Rightarrow> int \<Rightarrow> string \<Rightarrow> conn \<Rightarrow> outcome \<times> conn" where
  "forward_websocket w meth path hs host port carry c =
     (let fwd = filter_upgrade_headers hs (host_header host port) (w_client_ip w) ''https'';
          bytes = meth @ '' '' @ path @ '' HTTP/1.1'' @ CRLF @ header_lines fwd @ CRLF @ carry;
          c1 = note_upstream (UpRaw host port bytes) c in
      case w_raw w host port bytes of
        RawRefused \<Rightarrow> (CloseConn, simple 502 BODY_BAD_GATEWAY [] c1)
      | RawSendFail \<Rightarrow> (Crash, c1)
      | RawOpen s \<Rightarrow>
          (case read_raw_head s [] of
             (None, _) \<Rightarrow> (CloseConn, simple 502 BODY_BAD_GATEWAY [] c1)
           | (Some (head, rest), s') \<Rightarrow>
               (case raw_status head of
                  None \<Rightarrow> (CloseConn, simple 502 BODY_BAD_GATEWAY [] c1)
                | Some status \<Rightarrow>
                    (case sendall head c1 of (ok, c2) \<Rightarrow>
                       if \<not> ok then (CloseConn, c2)
                       else (case send_if_any rest c2 of (ok2, c3) \<Rightarrow>
                         if \<not> ok2 then (CloseConn, c3)
                         else (CloseConn, if status \<noteq> 101 then pipe_until_eof s' c3 else c3))))))"

section \<open>The tunnel\<close>

text \<open>
  Two threads pump bytes, each until its source ends, a call fails or the other thread has stopped.
  Here an empty input is a silent peer, for which \<^verbatim>\<open>recv\<close> waits, and \<open>Data []\<close> the end of the stream.
  A pump is before its test of \<^verbatim>\<open>stop\<close>, in \<^verbatim>\<open>recv\<close>, in \<^verbatim>\<open>sendall\<close>, or done.
\<close>

datatype pump_pc = AtTest | AtRecv | AtSend string | PumpDone

record pump =
  pm_in :: "recv_item list"
  pm_out :: string
  pm_pc :: pump_pc

inductive pump_step :: "bool \<times> pump \<Rightarrow> bool \<times> pump \<Rightarrow> bool" where
  test_stop: "pm_pc p = AtTest \<Longrightarrow> pump_step (True, p) (True, p\<lparr>pm_pc := PumpDone\<rparr>)"
| test_go: "pm_pc p = AtTest \<Longrightarrow> pump_step (False, p) (False, p\<lparr>pm_pc := AtRecv\<rparr>)"
| recv_data: "pm_pc p = AtRecv \<Longrightarrow> pm_in p \<noteq> [] \<Longrightarrow> recv 65536 (pm_in p) = (Some d, s) \<Longrightarrow> d \<noteq> [] \<Longrightarrow>
    pump_step (stop, p) (stop, p\<lparr>pm_in := s, pm_pc := AtSend d\<rparr>)"
| recv_end: "pm_pc p = AtRecv \<Longrightarrow> pm_in p \<noteq> [] \<Longrightarrow> recv 65536 (pm_in p) = (o', s) \<Longrightarrow> o' = None \<or> o' = Some [] \<Longrightarrow>
    pump_step (stop, p) (True, p\<lparr>pm_in := s, pm_pc := PumpDone\<rparr>)"
| send_ok: "pm_pc p = AtSend d \<Longrightarrow> pump_step (stop, p) (stop, p\<lparr>pm_out := pm_out p @ d, pm_pc := AtTest\<rparr>)"
| send_fail: "pm_pc p = AtSend d \<Longrightarrow> pump_step (stop, p) (True, p\<lparr>pm_pc := PumpDone\<rparr>)"

inductive_cases pump_stepE: "pump_step x y"

record tunnel =
  tn_stop :: bool
  tn_first :: pump
  tn_second :: pump

inductive tunnel_step :: "tunnel \<Rightarrow> tunnel \<Rightarrow> bool" where
  first: "pump_step (tn_stop t, tn_first t) (stop, p) \<Longrightarrow> tunnel_step t (t\<lparr>tn_stop := stop, tn_first := p\<rparr>)"
| second: "pump_step (tn_stop t, tn_second t) (stop, p) \<Longrightarrow> tunnel_step t (t\<lparr>tn_stop := stop, tn_second := p\<rparr>)"

definition new_pump :: "recv_item list \<Rightarrow> pump" where
  "new_pump s = \<lparr>pm_in = s, pm_out = [], pm_pc = AtTest\<rparr>"

definition new_tunnel :: "recv_item list \<Rightarrow> recv_item list \<Rightarrow> tunnel" where
  "new_tunnel client up = \<lparr>tn_stop = False, tn_first = new_pump client, tn_second = new_pump up\<rparr>"

section \<open>One request\<close>

definition is_websocket :: "headers \<Rightarrow> bool" where
  "is_websocket hs \<longleftrightarrow>
     ''upgrade'' \<in> set (connection_tokens hs) \<and>
     list_ex (\<lambda>(n, v). n = ''upgrade'' \<and> contains_sub ''websocket'' (lower v)) hs"

definition unauthorized :: "conn \<Rightarrow> conn" where
  "unauthorized c = simple 401 BODY_UNAUTHORIZED AUTH_CHALLENGE c"

text \<open>The checks of \<^verbatim>\<open>_dispatch\<close>: where the request goes, or \<^const>\<open>None\<close> after an answer that refuses it.\<close>

definition choose_target ::
  "world \<Rightarrow> config \<Rightarrow> string \<Rightarrow> string \<Rightarrow> headers \<Rightarrow> conn \<Rightarrow> (string \<times> int \<times> string) option \<times> conn" where
  "choose_target w cfg meth target hs c =
     (if cfg_mode cfg = ''ingress'' then
        (case parse_route target of
           None \<Rightarrow> (None, simple 404 BODY_NOT_FOUND [] c)
         | Some r \<Rightarrow>
             let c1 = c\<lparr>cn_access := cn_access c @ [(rt_port r, meth, target)]\<rparr>; p = int (rt_port r) in
             if p = COCKPIT_PORT then (None, simple 403 BODY_FORBIDDEN [] c1)
             else if p \<notin> set (cfg_self_authed cfg) \<and> \<not> check_token (w_digest w) hs (cfg_token cfg)
             then (None, unauthorized c1)
             else if p \<notin> set (cfg_self_authed cfg) \<and> \<not> is_port_allowed (cfg_policy cfg) p
             then (None, simple 403 BODY_FORBIDDEN [] c1)
             else (Some (''127.0.0.1'', p, rt_rest r), c1))
      else if \<not> check_token (w_digest w) hs (cfg_token cfg) then (None, unauthorized c)
      else (Some (cfg_target_host cfg, cfg_target_port cfg, target), c))"

definition serve_manifest ::
  "world \<Rightarrow> config \<Rightarrow> headers \<Rightarrow> body_framing \<times> nat \<times> bool \<Rightarrow> bool \<Rightarrow> conn \<Rightarrow> outcome \<times> conn" where
  "serve_manifest w cfg hs dec request_close c =
     (if \<not> check_token (w_digest w) hs (cfg_token cfg) then (CloseConn, unauthorized c)
      else case load_manifest (w_files w) (cfg_manifest_path cfg) of
        None \<Rightarrow> (CloseConn, simple 404 BODY_NOT_FOUND [] c)
      | Some data \<Rightarrow>
          (case consume_body (fst dec) (fst (snd dec)) (snd (snd dec)) (cn_carry c) c of
             (None, c1) \<Rightarrow> (CloseConn, c1)
           | (Some (_, carry'), c1) \<Rightarrow>
               (case send_body_answer 200 [(''content-type'', ''application/json'')] data request_close
                       (c1\<lparr>cn_carry := carry'\<rparr>) of
                  (keep, c2) \<Rightarrow> (outcome_of keep, c2))))"

definition dispatch ::
  "world \<Rightarrow> config \<Rightarrow> string \<Rightarrow> string \<Rightarrow> headers \<Rightarrow> body_framing \<times> nat \<times> bool \<Rightarrow> bool \<Rightarrow> conn \<Rightarrow> outcome \<times> conn" where
  "dispatch w cfg meth target hs dec request_close c =
     (if cfg_mode cfg = ''ingress'' \<and> is_manifest target then serve_manifest w cfg hs dec request_close c
      else case choose_target w cfg meth target hs c of
        (None, c1) \<Rightarrow> (CloseConn, c1)
      | (Some (host, port, path), c1) \<Rightarrow>
          (case consume_body (fst dec) (fst (snd dec)) (snd (snd dec)) (cn_carry c1) c1 of
             (None, c2) \<Rightarrow> (CloseConn, c2)
           | (Some (body, carry'), c2) \<Rightarrow>
               let (tap, evs) = on_request (w_decode w) cfg meth target body;
                   c3 = c2\<lparr>cn_carry := carry', cn_tap := tap, cn_events := cn_events c2 @ evs\<rparr> in
               if is_websocket hs then forward_websocket w meth path hs host port carry' c3
               else forward w cfg meth path hs body host port request_close c3))"

section \<open>What sending changes\<close>

text \<open>Every answer only adds to what the client was sent.\<close>

definition sent_only :: "conn \<Rightarrow> conn \<Rightarrow> bool" where
  "sent_only c c' \<longleftrightarrow> (\<exists>outs oks. c' = c\<lparr>cn_out := cn_out c @ outs, cn_sends := oks\<rparr>)"

lemma sent_only_refl [simp, intro]: "sent_only c c"
  unfolding sent_only_def by (rule exI[of _ "[]"], rule exI[of _ "cn_sends c"]) simp

lemma sent_only_trans: "sent_only a b \<Longrightarrow> sent_only b c \<Longrightarrow> sent_only a c"
  unfolding sent_only_def by fastforce

lemma sent_only_sendall: "sendall d c = (ok, c') \<Longrightarrow> sent_only c c'"
proof -
  assume a: "sendall d c = (ok, c')"
  have "c' = c\<lparr>cn_out := cn_out c @ [d], cn_sends := cn_sends c'\<rparr> \<or> c' = c\<lparr>cn_out := cn_out c @ [], cn_sends := cn_sends c'\<rparr>"
    using a by (auto simp: sendall_def split: list.splits if_splits)
  then show ?thesis unfolding sent_only_def by blast
qed

lemma sendall_ok: "sendall d c = (True, c') \<Longrightarrow> cn_out c' = cn_out c @ [d]"
  by (auto simp: sendall_def split: list.splits if_splits)

lemma sent_only_simple [simp, intro]: "sent_only c (simple code' body hs c)"
  unfolding simple_def by (rule sent_only_sendall[OF prod.collapse[symmetric]])

lemma sent_only_keeps:
  assumes "sent_only c c'"
  shows "cn_inp c' = cn_inp c" "cn_carry c' = cn_carry c" "cn_tap c' = cn_tap c" "cn_events c' = cn_events c"
    "cn_access c' = cn_access c" "cn_upstream c' = cn_upstream c"
  using assms by (auto simp: sent_only_def)

lemma sent_only_all: "sent_only c c' \<Longrightarrow> cn_inp c' = cn_inp c \<and> cn_carry c' = cn_carry c \<and> cn_upstream c' = cn_upstream c"
  by (simp add: sent_only_keeps)

lemma sent_only_stream_length: "stream_length s n k c = (r, c') \<Longrightarrow> sent_only c c'"
proof (induction s n k c arbitrary: r c' rule: stream_length.induct)
  case (1 s n k c)
  have IH: "0 < n \<Longrightarrow> recv (min 65536 n) s = (Some d, s') \<Longrightarrow> d \<noteq> [] \<Longrightarrow> sendall (d) c = (True, c1) \<Longrightarrow>
    stream_length s' (n - length d) (k + length d) c1 = (r, c') \<Longrightarrow> sent_only c1 c'" for d s' c1
    by (rule 1(1)) simp_all
  show ?case using 1(2) unfolding stream_length.simps[of s n k c]
    by (auto split: if_splits option.splits prod.splits dest: sent_only_sendall)
     (rule sent_only_trans[OF sent_only_sendall IH], simp_all)
qed

lemma sent_only_stream_chunked: "stream_chunked s c = (r, c') \<Longrightarrow> sent_only c c'"
proof (induction s c arbitrary: r c' rule: stream_chunked.induct)
  case (1 s c)
  have IH: "recv 65536 s = (Some d, s') \<Longrightarrow> d \<noteq> [] \<Longrightarrow> sendall (hex_str (length d) @ CRLF @ d @ CRLF) c = (True, c1) \<Longrightarrow>
    stream_chunked s' c1 = (r, c') \<Longrightarrow> sent_only c1 c'" for d s' c1
    by (rule 1(1)) (simp_all, simp only:)
  show ?case using 1(2) unfolding stream_chunked.simps[of s c]
    by (auto split: if_splits option.splits prod.splits dest: sent_only_sendall)
     (rule sent_only_trans[OF sent_only_sendall IH], simp_all)
qed

lemma sent_only_stream_eof: "stream_eof s c = (r, c') \<Longrightarrow> sent_only c c'"
proof (induction s c arbitrary: r c' rule: stream_eof.induct)
  case (1 s c)
  have IH: "recv 65536 s = (Some d, s') \<Longrightarrow> d \<noteq> [] \<Longrightarrow> sendall (d) c = (True, c1) \<Longrightarrow>
    stream_eof s' c1 = (r, c') \<Longrightarrow> sent_only c1 c'" for d s' c1
    by (rule 1(1)) (simp_all, simp only:)
  show ?case using 1(2) unfolding stream_eof.simps[of s c]
    by (auto split: if_splits option.splits prod.splits dest: sent_only_sendall)
     (rule sent_only_trans[OF sent_only_sendall IH], simp_all)
qed

lemmas sent_only_streams = sent_only_sendall sent_only_stream_length sent_only_stream_chunked sent_only_stream_eof

lemma sent_only_relay: "relay cfg meth resp rc port path c = (o', c') \<Longrightarrow> sent_only c c'"
  unfolding relay_def Let_def
  by (auto split: if_splits option.splits prod.splits dest!: sent_only_streams intro: sent_only_trans)

lemma sent_only_answer: "send_body_answer code' hs body rc c = (k, c') \<Longrightarrow> sent_only c c'"
  unfolding send_body_answer_def by (auto split: prod.splits dest: sent_only_sendall)

lemma sent_only_pipe [simp, intro]: "sent_only c (pipe_until_eof s c)"
  unfolding pipe_until_eof_def by (rule sent_only_stream_eof[OF prod.collapse[symmetric]])

lemma forward_keeps:
  assumes "forward w cfg meth path hs body host port rc c = (o', c')"
  shows "cn_inp c' = cn_inp c \<and> cn_carry c' = cn_carry c \<and> cn_upstream c' = cn_upstream c @ [UpHttp host port
    (send_head meth path (filter_forward_headers hs (host_header host port) (w_client_ip w) ''https'') @ send_body body)]"
  using assms unfolding forward_def Let_def note_upstream_def
  by (auto split: up_result.splits if_splits prod.splits dest!: sent_only_relay sent_only_all
    simp: sent_only_keeps[OF sent_only_simple])

lemma forward_websocket_keeps:
  assumes "forward_websocket w meth path hs host port carry c = (o', c')"
  shows "cn_inp c' = cn_inp c \<and> cn_carry c' = cn_carry c \<and> o' \<noteq> KeepOpen \<and> cn_upstream c' = cn_upstream c @ [UpRaw host port
    (meth @ '' '' @ path @ '' HTTP/1.1'' @ CRLF @
     header_lines (filter_upgrade_headers hs (host_header host port) (w_client_ip w) ''https'') @ CRLF @ carry)]"
  using assms unfolding forward_websocket_def Let_def note_upstream_def send_if_any_def
  by (auto split: raw_result.splits option.splits if_splits prod.splits dest!: sent_only_sendall sent_only_all
    simp: sent_only_keeps[OF sent_only_simple] sent_only_keeps[OF sent_only_pipe])

section \<open>The connection\<close>

definition cn_size :: "conn \<Rightarrow> nat" where
  "cn_size c = length (cn_carry c) + inp_size (cn_inp c)"

lemma read_head_size:
  "read_head inp carry = (Some head, rest, inp') \<Longrightarrow> length rest + inp_size inp' < length carry + inp_size inp"
proof (induction inp carry rule: read_head.induct)
  case (1 inp carry)
  show ?case
  proof (cases "contains_sub END_OF_HEAD carry")
    case True
    obtain a f b where p: "py_partition END_OF_HEAD carry = (a, f, b)" by (cases "py_partition END_OF_HEAD carry")
    with True have "f" using py_partition_not_found[of END_OF_HEAD carry a b] by (cases f) auto
    with p have "length b < length carry" using py_partition_less[of END_OF_HEAD carry a b] by (simp add: END_OF_HEAD_def)
    moreover have "rest = b" "inp' = inp" using True p 1(2) by (simp_all add: read_head.simps[of inp carry])
    ultimately show ?thesis by simp
  next
    case False
    with 1(2) obtain chunk s where r: "recv 65536 inp = (Some chunk, s)" "chunk \<noteq> []"
      by (auto simp: read_head.simps split: option.splits prod.splits if_splits)
    then have "inp_size s + length chunk \<le> inp_size inp" using recv_size[of 65536 inp "Some chunk" s] by simp
    moreover have "inp_size s < inp_size inp" using recv_decreases[of "Some chunk" s 65536 inp chunk] r by simp
    moreover have "length rest + inp_size inp' < length (carry @ chunk) + inp_size s \<or> rest = [] \<and> inp' = s"
      using 1 False r by (auto simp: read_head.simps[of inp carry] split: if_splits)
    ultimately show ?thesis by auto
  qed
qed

lemma read_body_size: "read_body inp body len = (b, inp', ok) \<Longrightarrow> inp_size inp' \<le> inp_size inp"
proof (induction inp body len rule: read_body.induct)
  case (1 inp body len)
  show ?case
  proof (cases "len \<le> length body")
    case True
    with 1(2) show ?thesis by (simp add: read_body.simps)
  next
    case False
    obtain o' s where r: "recv (min 65536 (len - length body)) inp = (o', s)" by fastforce
    then have "inp_size s \<le> inp_size inp" using recv_size[OF r] False by simp
    moreover have "inp_size inp' \<le> inp_size s"
      using 1 False r by (auto simp: read_body.simps[of inp body len] split: option.splits if_splits)
    ultimately show ?thesis by simp
  qed
qed

lemma consume_body_size:
  assumes "consume_body f len expect (cn_carry c) c = (Some (body, carry'), c')"
  shows "length carry' + inp_size (cn_inp c') \<le> cn_size c \<and> cn_upstream c' = cn_upstream c"
  using assms unfolding consume_body_def read_body_carry_def Let_def cn_size_def
  by (auto split: if_splits prod.splits dest!: read_body_size sent_only_sendall sent_only_all)

lemma choose_target_keeps:
  "choose_target w cfg meth target hs c = (o', c') \<Longrightarrow> cn_inp c' = cn_inp c \<and> cn_carry c' = cn_carry c \<and> cn_upstream c' = cn_upstream c"
  unfolding choose_target_def Let_def unauthorized_def
  by (auto split: if_splits option.splits simp: sent_only_all[OF sent_only_simple])

lemma dispatch_size:
  "dispatch w cfg meth target hs dec rc c = (KeepOpen, c') \<Longrightarrow> cn_size c' \<le> cn_size c"
proof -
  assume a: "dispatch w cfg meth target hs dec rc c = (KeepOpen, c')"
  show ?thesis
  proof (cases "cfg_mode cfg = ''ingress'' \<and> is_manifest target")
    case True
    with a show ?thesis
      unfolding dispatch_def serve_manifest_def
      by (auto split: if_splits option.splits prod.splits dest!: consume_body_size sent_only_answer sent_only_all
        simp: cn_size_def)
  next
    case False
    with a obtain h p path c1 where t: "choose_target w cfg meth target hs c = (Some (h, p, path), c1)"
      unfolding dispatch_def by (auto split: option.splits prod.splits)
    obtain body carry' c2 where b:
      "consume_body (fst dec) (fst (snd dec)) (snd (snd dec)) (cn_carry c1) c1 = (Some (body, carry'), c2)"
      using a False t unfolding dispatch_def by (auto split: option.splits prod.splits)
    have "cn_inp c' = cn_inp c2 \<and> cn_carry c' = carry'"
      using a False t b unfolding dispatch_def Let_def
      by (auto split: prod.splits if_splits dest!: forward_keeps forward_websocket_keeps)
    with consume_body_size[OF b] choose_target_keeps[OF t] show ?thesis by (simp add: cn_size_def)
  qed
qed

lemma run_decreases:
  assumes "(Some head, rest, inp') = read_head (cn_inp c) (cn_carry c)"
    and "(KeepOpen, c2) = dispatch w cfg meth target hs dec rc (c\<lparr>cn_inp := inp', cn_carry := rest\<rparr>)"
  shows "cn_size c2 < cn_size c"
  using read_head_size[OF assms(1)[symmetric]] dispatch_size[OF assms(2)[symmetric]] by (simp add: cn_size_def)

text \<open>\<^verbatim>\<open>_run\<close>: one request after another while \<^verbatim>\<open>_dispatch\<close> keeps the connection.\<close>

function run :: "world \<Rightarrow> config \<Rightarrow> conn \<Rightarrow> conn" where
  "run w cfg c =
     (case read_head (cn_inp c) (cn_carry c) of
        (None, rest, inp') \<Rightarrow> c\<lparr>cn_inp := inp', cn_carry := rest\<rparr>
      | (Some head, rest, inp') \<Rightarrow>
          let c1 = c\<lparr>cn_inp := inp', cn_carry := rest\<rparr> in
          if head = TOO_BIG then simple 431 [] [] c1
          else (case validate_request head of
            FramingError st _ \<Rightarrow> simple st [] [] c1
          | FramingOk f len expect \<Rightarrow>
              (case parse_request head of
                 Inl (FramingError st _) \<Rightarrow> simple st [] [] c1
               | Inl (FramingOk _ _ _) \<Rightarrow> c1
               | Inr (meth, target, version, hs) \<Rightarrow>
                   let tokens = connection_tokens hs;
                       request_close = (''close'' \<in> set tokens \<or> version = ''HTTP/1.0'' \<and> ''keep-alive'' \<notin> set tokens) in
                   (case dispatch w cfg meth target hs (f, len, expect) request_close c1 of
                      (o', c2) \<Rightarrow> if o' = KeepOpen then run w cfg c2 else c2))))"
  by pat_completeness auto
termination by (relation "measure (\<lambda>(w, cfg, c). cn_size c)") (auto intro: run_decreases)

declare run.simps [simp del]

text \<open>\<^verbatim>\<open>handle\<close>: a slot of the semaphore is taken without waiting, and given back whatever happens.\<close>

definition MAX_CONNECTIONS :: nat where
  "MAX_CONNECTIONS = 256"

definition handle :: "world \<Rightarrow> config \<Rightarrow> nat \<Rightarrow> conn \<Rightarrow> conn" where
  "handle w cfg slots c = (if slots = 0 then simple 503 BODY_OVERLOADED [] c else run w cfg c)"

record proxy_server =
  ps_slots :: nat
  ps_running :: "nat list"
  ps_refused :: "nat list"

inductive server_step :: "proxy_server \<Rightarrow> proxy_server \<Rightarrow> bool" where
  acquire: "ps_slots s > 0 \<Longrightarrow> i \<notin> set (ps_running s) \<Longrightarrow>
    server_step s (s\<lparr>ps_slots := ps_slots s - 1, ps_running := i # ps_running s\<rparr>)"
| overload: "ps_slots s = 0 \<Longrightarrow> server_step s (s\<lparr>ps_refused := i # ps_refused s\<rparr>)"
| release: "i \<in> set (ps_running s) \<Longrightarrow>
    server_step s (s\<lparr>ps_slots := ps_slots s + 1, ps_running := remove1 i (ps_running s)\<rparr>)"

definition new_server :: proxy_server where
  "new_server = \<lparr>ps_slots = MAX_CONNECTIONS, ps_running = [], ps_refused = []\<rparr>"

section \<open>Facts\<close>

definition destination_ok :: "world \<Rightarrow> config \<Rightarrow> headers \<Rightarrow> string \<Rightarrow> int \<Rightarrow> bool" where
  "destination_ok w cfg hs host port =
     (if cfg_mode cfg = ''ingress''
      then host = ''127.0.0.1'' \<and> 1 \<le> port \<and> port \<le> 65535 \<and> port \<noteq> COCKPIT_PORT \<and>
        (port \<in> set (cfg_self_authed cfg) \<or>
         check_token (w_digest w) hs (cfg_token cfg) \<and> is_port_allowed (cfg_policy cfg) port)
      else host = cfg_target_host cfg \<and> port = cfg_target_port cfg \<and> check_token (w_digest w) hs (cfg_token cfg))"

text \<open>An upstream request is the forwarding of a client request whose headers allow it.\<close>

definition upstream_ok :: "world \<Rightarrow> config \<Rightarrow> upstream_request \<Rightarrow> bool" where
  "upstream_ok w cfg u \<longleftrightarrow> (\<exists>host port meth path hs rest.
     destination_ok w cfg hs host port \<and>
     (u = UpHttp host port
        (send_head meth path (filter_forward_headers hs (host_header host port) (w_client_ip w) ''https'') @ rest) \<or>
      u = UpRaw host port (meth @ '' '' @ path @ '' HTTP/1.1'' @ CRLF @
        header_lines (filter_upgrade_headers hs (host_header host port) (w_client_ip w) ''https'') @ CRLF @ rest)))"

lemma choose_target_ok:
  "choose_target w cfg meth target hs c = (Some (host, port, path), c') \<Longrightarrow> destination_ok w cfg hs host port"
  unfolding choose_target_def destination_ok_def Let_def
  by (auto split: if_splits option.splits dest: parse_route_bounds)

lemma consume_body_upstream: "consume_body f len expect carry c = (r, c') \<Longrightarrow> cn_upstream c' = cn_upstream c"
  unfolding consume_body_def read_body_carry_def Let_def
  by (auto split: if_splits prod.splits dest!: sent_only_sendall sent_only_all simp: sent_only_all[OF sent_only_simple])

lemma dispatch_upstream:
  assumes "dispatch w cfg meth target hs dec rc c = (o', c')"
  shows "\<exists>us. cn_upstream c' = cn_upstream c @ us \<and> list_all (upstream_ok w cfg) us"
proof (cases "cfg_mode cfg = ''ingress'' \<and> is_manifest target")
  case True
  then have "cn_upstream c' = cn_upstream c"
    using assms unfolding dispatch_def serve_manifest_def unauthorized_def
    by (auto split: if_splits option.splits prod.splits
      dest!: consume_body_upstream sent_only_answer sent_only_all simp: sent_only_all[OF sent_only_simple])
  then show ?thesis by simp
next
  case False
  obtain t c1 where t: "choose_target w cfg meth target hs c = (t, c1)" by fastforce
  have u1: "cn_upstream c1 = cn_upstream c" using choose_target_keeps[OF t] by simp
  show ?thesis
  proof (cases t)
    case None
    with assms False t u1 show ?thesis by (simp add: dispatch_def)
  next
    case (Some d)
    obtain host port path where d: "d = (host, port, path)" by (cases d)
    obtain b c2 where b: "consume_body (fst dec) (fst (snd dec)) (snd (snd dec)) (cn_carry c1) c1 = (b, c2)" by fastforce
    note u2 = consume_body_upstream[OF b]
    show ?thesis
    proof (cases b)
      case None
      with assms False t Some d b u1 u2 show ?thesis by (simp add: dispatch_def)
    next
      case (Some bc)
      have ok: "destination_ok w cfg hs host port" using choose_target_ok t \<open>t = Some d\<close> d by blast
      obtain u where "cn_upstream c' = cn_upstream c2 @ [u]" "upstream_ok w cfg u"
        using assms False t \<open>t = Some d\<close> d b Some ok unfolding dispatch_def Let_def upstream_ok_def
        by (auto split: prod.splits if_splits dest!: forward_keeps forward_websocket_keeps) blast+
      with u1 u2 show ?thesis by simp
    qed
  qed
qed

lemma run_upstream:
  "\<exists>us. cn_upstream (run w cfg c) = cn_upstream c @ us \<and> list_all (upstream_ok w cfg) us"
proof (induction w cfg c rule: run.induct)
  case (1 w cfg c)
  obtain r rest inp' where rh: "read_head (cn_inp c) (cn_carry c) = (r, rest, inp')" by (metis prod_cases3)
  let ?c1 = "c\<lparr>cn_inp := inp', cn_carry := rest\<rparr>"
  have quiet: ?case if "cn_upstream (run w cfg c) = cn_upstream c" using that by simp
  note sil = sent_only_all[OF sent_only_simple]
  show ?case
  proof (cases "\<exists>head f len expect p. r = Some head \<and> head \<noteq> TOO_BIG \<and> validate_request head = FramingOk f len expect
      \<and> parse_request head = Inr p")
    case False
    then show ?thesis
      by (intro quiet) (auto simp: run.simps[of w cfg c] rh Let_def sil split: option.splits framing_decision.splits sum.splits)
  next
    case True
    then obtain head f len expect meth target version hs where h: "r = Some head" "head \<noteq> TOO_BIG"
      "validate_request head = FramingOk f len expect" "parse_request head = Inr (meth, target, version, hs)" by auto
    define rc where "rc = (''close'' \<in> set (connection_tokens hs) \<or>
      version = ''HTTP/1.0'' \<and> ''keep-alive'' \<notin> set (connection_tokens hs))"
    obtain o' c2 where d: "dispatch w cfg meth target hs (f, len, expect) rc ?c1 = (o', c2)" by fastforce
    have run: "run w cfg c = (if o' = KeepOpen then run w cfg c2 else c2)"
      using h d by (simp add: run.simps[of w cfg c] rh Let_def rc_def)
    obtain us where us: "cn_upstream c2 = cn_upstream c @ us" "list_all (upstream_ok w cfg) us"
      using dispatch_upstream[OF d] by auto
    show ?thesis
    proof (cases "o' = KeepOpen")
      case True
      then have "\<exists>vs. cn_upstream (run w cfg c2) = cn_upstream c2 @ vs \<and> list_all (upstream_ok w cfg) vs"
        using 1 rh h d unfolding rc_def by simp
      with us run True show ?thesis by auto
    qed (use us run in simp)
  qed
qed

section \<open>Properties\<close>


text \<open>Answers that end where their head says they do.\<close>

definition chunk_wire :: "string \<Rightarrow> string" where
  "chunk_wire d = hex_str (length d) @ CRLF @ d @ CRLF"

definition delimited :: "string \<Rightarrow> nat \<Rightarrow> headers \<Rightarrow> string \<Rightarrow> bool" where
  "delimited meth status hs body =
     (if meth = ''HEAD'' \<or> status \<in> {204, 304} then body = []
      else header_values ''content-length'' hs = [nat_str (length body)] \<and> header_values ''transfer-encoding'' hs = [] \<or>
        header_values ''content-length'' hs = [] \<and> header_values ''transfer-encoding'' hs = [''chunked''] \<and>
        (\<exists>ds. list_all (\<lambda>d. d \<noteq> []) ds \<and> body = concat (map chunk_wire ds) @ ''0'' @ CRLF @ CRLF))"

lemma stream_length_sent:
  "stream_length s n k c = (Some m, c') \<Longrightarrow>
   \<exists>outs. cn_out c' = cn_out c @ outs \<and> k + length (concat outs) = m"
proof (induction s n k c rule: stream_length.induct)
  case (1 s n k c)
  show ?case
  proof (cases "n = 0 \<or> m = k \<and> c' = c")
    case True
    with 1(2) show ?thesis by (auto simp: stream_length.simps[of s n k c])
  next
    case False
    with 1(2) obtain d s' c1 where d: "recv (min 65536 n) s = (Some d, s')" "d \<noteq> []" "sendall d c = (True, c1)"
      "stream_length s' (n - length d) (k + length d) c1 = (Some m, c')"
      by (auto simp: stream_length.simps[of s n k c] split: option.splits prod.splits if_splits)
    have "\<exists>outs. cn_out c' = cn_out c1 @ outs \<and> k + length d + length (concat outs) = m"
      by (rule 1(1)) (use d False in simp_all)
    then obtain outs where o: "cn_out c' = cn_out c1 @ outs" "k + length d + length (concat outs) = m" by blast
    show ?thesis by (rule exI[of _ "d # outs"]) (use o sendall_ok[OF d(3)] in simp)
  qed
qed

lemma stream_chunked_sent:
  "stream_chunked s c = (True, c') \<Longrightarrow>
   \<exists>ds. cn_out c' = cn_out c @ map chunk_wire ds @ [''0'' @ CRLF @ CRLF] \<and> list_all (\<lambda>d. d \<noteq> []) ds"
proof (induction s c rule: stream_chunked.induct)
  case (1 s c)
  from 1(2) obtain d s' where r: "recv 65536 s = (Some d, s')"
    by (auto simp: stream_chunked.simps[of s c] split: option.splits prod.splits)
  show ?case
  proof (cases "d = []")
    case True
    with 1(2) r have "sendall (''0'' @ CRLF @ CRLF) c = (True, c')" by (simp add: stream_chunked.simps[of s c])
    from sendall_ok[OF this] show ?thesis by (intro exI[of _ "[]"]) simp
  next
    case False
    with 1(2) r obtain c1 where d: "sendall (chunk_wire d) c = (True, c1)" "stream_chunked s' c1 = (True, c')"
      by (auto simp: stream_chunked.simps[of s c] chunk_wire_def split: prod.splits if_splits)
    have "\<exists>ds. cn_out c' = cn_out c1 @ map chunk_wire ds @ [''0'' @ CRLF @ CRLF] \<and> list_all (\<lambda>d. d \<noteq> []) ds"
      by (rule 1(1)) (use d r False in \<open>(simp_all add: chunk_wire_def, simp only:)\<close>)
    then obtain ds where o: "cn_out c' = cn_out c1 @ map chunk_wire ds @ [''0'' @ CRLF @ CRLF]" "list_all (\<lambda>d. d \<noteq> []) ds"
      by blast
    show ?thesis by (rule exI[of _ "d # ds"]) (use o False sendall_ok[OF d(1)] in simp)
  qed
qed

lemma relay_headers_framing:
  "header_values ''content-length'' (relay_headers resp) = []"
  "header_values ''transfer-encoding'' (relay_headers resp) = []"
  by (auto simp: relay_headers_def header_values_nil Let_def)

lemma header_values_append: "header_values n (a @ b) = header_values n a @ header_values n b"
  by (simp add: header_values_def)

lemma relay_head_values:
  assumes "n = ''content-length'' \<or> n = ''transfer-encoding''"
  shows "header_values n (relay_headers resp @ fr @ [(''connection'', v)]) = header_values n fr"
  using assms by (auto simp: header_values_append relay_headers_framing) (auto simp: header_values_def)

text \<open>The head and the rest of a relayed answer that keeps the connection.\<close>

lemma relay_keep_cases:
  assumes "relay cfg meth resp rc port path c = (KeepOpen, c')"
  obtains rewritten fr c1 where
    "relay_framing meth resp rc rewritten = (fr, False)"
    "sendall (status_line (ur_status resp) @ header_lines (relay_headers resp @ fr @ [(''connection'', ''keep-alive'')]) @ CRLF) c
       = (True, c1)"
    "case rewritten of
       Some b \<Rightarrow> \<not> relay_bodyless meth resp \<and> sendall b c1 = (True, c')
     | None \<Rightarrow>
         if relay_bodyless meth resp then c' = c1
         else if ur_chunked resp then stream_chunked (ur_body resp) c1 = (True, c')
         else \<exists>n. ur_length resp = Some n \<and> stream_length (ur_body resp) n 0 c1 = (Some n, c')"
proof -
  let ?rw = "relay_rewritable cfg meth resp"
  obtain b where b: "(if ?rw then map_option (\<lambda>b. rewrite_base_href b (''/p/'' @ int_str port @ before_last_slash path @ ''/''))
      (read_upto (ur_body resp) (the (ur_length resp))) else Some (Some [])) = Some (Some b)"
    using assms unfolding relay_def Let_def by (auto split: option.splits)
  define rewritten where "rewritten = (if ?rw then Some b else None)"
  obtain fr close where f: "relay_framing meth resp rc rewritten = (fr, close)" by fastforce
  obtain ok c1 where s: "sendall (status_line (ur_status resp) @ header_lines (relay_headers resp @ fr @
      [(''connection'', if close then ''close'' else ''keep-alive'')]) @ CRLF) c = (ok, c1)" by fastforce
  note r = assms[unfolded relay_def Let_def b option.case rewritten_def[symmetric] f prod.case s outcome_of_def]
  have "ok" using r by (auto split: if_splits)
  have "\<not> close" using r by (auto split: if_splits option.splits prod.splits)
  moreover have "?rw \<Longrightarrow> \<not> relay_bodyless meth resp" by (simp add: relay_rewritable_def)
  ultimately show ?thesis using r f s \<open>ok\<close>
    by (intro that[of rewritten fr c1])
       (auto simp: rewritten_def relay_framing_def split: if_splits option.splits prod.splits)
qed

text \<open>
  C4. When the proxy keeps a connection open after relaying an upstream answer, what it has written
  is a status line, a header block and a body that ends exactly where that block says: nothing for
  a HEAD request or a 204 or 304, one \<^verbatim>\<open>content-length\<close> that is the number of body bytes, or complete
  chunks with the terminating one. So the next answer cannot be mistaken for part of this one.
\<close>

theorem relay_delimited:
  assumes "relay cfg meth resp rc port path c = (KeepOpen, c')"
  shows "\<exists>outs hs body. cn_out c' = cn_out c @ outs \<and> concat outs = status_line (ur_status resp) @ header_lines hs @ CRLF @ body \<and>
    delimited meth (ur_status resp) hs body"
proof -
  obtain rewritten fr c1 where a: "relay_framing meth resp rc rewritten = (fr, False)"
    "sendall (status_line (ur_status resp) @ header_lines (relay_headers resp @ fr @ [(''connection'', ''keep-alive'')]) @ CRLF) c
       = (True, c1)"
    and b: "case rewritten of
       Some b \<Rightarrow> \<not> relay_bodyless meth resp \<and> sendall b c1 = (True, c')
     | None \<Rightarrow>
         if relay_bodyless meth resp then c' = c1
         else if ur_chunked resp then stream_chunked (ur_body resp) c1 = (True, c')
         else \<exists>n. ur_length resp = Some n \<and> stream_length (ur_body resp) n 0 c1 = (Some n, c')"
    by (rule relay_keep_cases[OF assms])
  let ?hs = "relay_headers resp @ fr @ [(''connection'', ''keep-alive'')]"
  note head = sendall_ok[OF a(2)]
  have vals: "header_values n ?hs = header_values n fr" if "n = ''content-length'' \<or> n = ''transfer-encoding''" for n
    by (rule relay_head_values) (rule that)
  note vals = vals[of "''content-length''", simplified] vals[of "''transfer-encoding''", simplified]
  have fin: ?thesis if "cn_out c' = cn_out c1 @ outs" "delimited meth (ur_status resp) ?hs (concat outs)" for outs
    using that head by (intro exI[of _ "(status_line (ur_status resp) @ header_lines ?hs @ CRLF) # outs"] exI[of _ ?hs]
      exI[of _ "concat outs"]) simp
  show ?thesis
  proof (cases rewritten)
    case (Some t)
    then have fr: "fr = [(''content-length'', nat_str (length t))]" and o: "cn_out c' = cn_out c1 @ [t]"
      and nb: "\<not> relay_bodyless meth resp"
      using a(1) b sendall_ok by (auto simp: relay_framing_def)
    have "header_values ''content-length'' ?hs = [nat_str (length t)]" "header_values ''transfer-encoding'' ?hs = []"
      unfolding vals unfolding fr by (simp_all add: header_values_def)
    with o nb show ?thesis by (intro fin[of "[t]"]) (simp_all add: delimited_def relay_bodyless_def)
  next
    case None
    consider "relay_bodyless meth resp" | "\<not> relay_bodyless meth resp" "ur_chunked resp"
      | n where "\<not> relay_bodyless meth resp" "\<not> ur_chunked resp" "ur_length resp = Some n"
          "stream_length (ur_body resp) n 0 c1 = (Some n, c')"
      using b None by (auto split: if_splits)
    then show ?thesis
    proof cases
      case 1
      then show ?thesis using b None by (intro fin[of "[]"]) (auto simp: delimited_def relay_bodyless_def)
    next
      case 2
      then have fr: "fr = [(''transfer-encoding'', ''chunked'')]" using a(1) None by (auto simp: relay_framing_def)
      obtain ds where "cn_out c' = cn_out c1 @ map chunk_wire ds @ [''0'' @ CRLF @ CRLF]" "list_all (\<lambda>d. d \<noteq> []) ds"
        using 2 b None stream_chunked_sent by fastforce
      moreover have "header_values ''content-length'' ?hs = []" "header_values ''transfer-encoding'' ?hs = [''chunked'']"
        unfolding vals unfolding fr by (simp_all add: header_values_def)
      ultimately show ?thesis using 2
        by (intro fin[of "map chunk_wire ds @ [''0'' @ CRLF @ CRLF]"])
           (auto simp: delimited_def relay_bodyless_def)
    next
      case 3
      then have fr: "fr = [(''content-length'', nat_str n)]" using a(1) None by (auto simp: relay_framing_def)
      obtain outs where "cn_out c' = cn_out c1 @ outs" "length (concat outs) = n"
        using stream_length_sent[OF 3(4)] by auto
      moreover have "header_values ''content-length'' ?hs = [nat_str n]" "header_values ''transfer-encoding'' ?hs = []"
        unfolding vals unfolding fr by (simp_all add: header_values_def)
      ultimately show ?thesis using 3 by (intro fin[of outs]) (simp_all add: delimited_def relay_bodyless_def)
    qed
  qed
qed

definition idle_conn :: "recv_item list \<Rightarrow> conn" where
  "idle_conn inp = \<lparr>cn_inp = inp, cn_out = [], cn_sends = [], cn_carry = [], cn_tap = None, cn_events = [], cn_access = [],
     cn_upstream = []\<rparr>"

definition ok_response :: upstream_response where
  "ok_response = \<lparr>ur_status = 200, ur_headers = [(''Content-Length'', ''2'')], ur_length = Some 2, ur_chunked = False,
     ur_body = [Data ''ok'']\<rparr>"

theorem relay_delimited_witness:
  "\<exists>c'. relay (build_target_server ''t'' ''h'' 1) ''GET'' ok_response False 1 ''/'' (idle_conn []) = (KeepOpen, c') \<and>
     (\<exists>outs hs body. cn_out c' = cn_out (idle_conn []) @ outs \<and>
        concat outs = status_line (ur_status ok_response) @ header_lines hs @ CRLF @ body \<and>
        delimited ''GET'' (ur_status ok_response) hs body)"
proof -
  obtain c' where "relay (build_target_server ''t'' ''h'' 1) ''GET'' ok_response False 1 ''/'' (idle_conn []) = (KeepOpen, c')"
    by (simp add: relay_def relay_rewritable_def relay_bodyless_def relay_framing_def build_target_server_def ok_response_def
      idle_conn_def sendall_def stream_length.simps outcome_of_def)
  with relay_delimited[OF this] show ?thesis by blast
qed

text \<open>
  The 431 answer depends on how the network cuts the bytes: a head of any small size is refused as
  too large when its end arrives in the same piece as enough of the body, because the limit is
  tested on everything received before the end of the head is looked for.
\<close>

theorem read_head_spurious_431:
  assumes "a \<noteq> []" "\<not> contains_sub END_OF_HEAD a" "length a \<le> 65536" "b \<noteq> []" "length b \<le> 65536"
    and "MAX_HEADER_BYTES + 4 < length (a @ b)"
  shows "fst (read_head (Data a # Data b # s) []) = Some TOO_BIG"
proof -
  have "length a \<le> MAX_HEADER_BYTES + 4" using assms(3) by (simp add: MAX_HEADER_BYTES_def)
  then have "read_head (Data a # Data b # s) [] = read_head (Data b # s) a"
    using assms by (simp add: read_head.simps[of _ "[]"] END_OF_HEAD_def)
  also have "fst \<dots> = Some TOO_BIG" using assms by (simp add: read_head.simps[of _ a])
  finally show ?thesis .
qed

text \<open>The same bytes in one piece of the head and one of the body are accepted.\<close>

definition small_head :: string where
  "small_head = ''POST / HTTP/1.1'' @ CRLF @ ''host: h'' @ END_OF_HEAD"

lemma expand_plain: "c \<noteq> CHR 0x5C \<Longrightarrow> expand_template m (c # r) = map_option ((#) c) (expand_template m r)"
  by (simp add: expand_template.simps[of m "c # r"])

lemma expand_plains: "CHR 0x5C \<notin> set u \<Longrightarrow> expand_template m (u @ t) = map_option ((@) u) (expand_template m t)"
proof (induction u)
  case Nil
  show ?case by (cases "expand_template m t") simp_all
next
  case (Cons c u)
  then show ?case by (cases "expand_template m t") (auto simp: expand_plain eq_commute[of "CHR 0x5C"])
qed

lemma expand_bad_escape:
  "is_alpha d \<Longrightarrow> ctrl_escape d = None \<Longrightarrow> d \<noteq> CHR ''g'' \<Longrightarrow> expand_template m (CHR 0x5C # d # t) = None"
  by (subst expand_template.simps) (auto simp: char_class_defs)

lemma before_last_slash_keeps:
  assumes "CHR ''/'' \<in> set b"
  shows "\<exists>b1. before_last_slash (a @ b) = a @ b1"
proof -
  have "dropWhile (\<lambda>c. c \<noteq> CHR ''/'') (rev b) \<noteq> []" using assms by auto
  then obtain x xs where "dropWhile (\<lambda>c. c \<noteq> CHR ''/'') (rev b) = x # xs" by (cases "dropWhile (\<lambda>c. c \<noteq> CHR ''/'') (rev b)") auto
  then show ?thesis using assms by (auto simp: before_last_slash_def dropWhile_append)
qed

text \<open>
  A route whose path holds a backslash that is not a template escape ends the connection without any
  answer when the page has a base tag: the path becomes part of the replacement template of
  \<^verbatim>\<open>subn\<close>, which raises.
\<close>

theorem base_rewrite_crash:
  assumes "relay_rewritable cfg meth resp" "read_upto (ur_body resp) (the (ur_length resp)) = Some page"
    and "rx_search BASE_TAG None page \<noteq> None"
    and "path = ''/'' @ a @ [CHR 0x5C, d] @ b" "is_alpha d" "ctrl_escape d = None" "d \<noteq> CHR ''g''"
    and "CHR 0x5C \<notin> set a" "CHR ''/'' \<in> set b"
  shows "relay cfg meth resp rc port path c = (Crash, c)"
proof -
  obtain b1 where b1: "before_last_slash path = (''/'' @ a @ [CHR 0x5C, d]) @ b1"
    using before_last_slash_keeps[OF assms(9), of "''/'' @ a @ [CHR 0x5C, d]"] assms(4) by auto
  define u where "u = ''<base href='' @ CHR 0x22 # ''/p/'' @ int_str port @ ''/'' @ a"
  have "CHR 0x5C \<notin> set (int_str port)" using int_str_chars[of "CHR 0x5C" port] by (auto simp: char_class_defs)
  then have "CHR 0x5C \<notin> set u" using assms(8) by (auto simp: u_def)
  moreover have "base_tag_text (''/p/'' @ int_str port @ before_last_slash path @ ''/'') =
      u @ CHR 0x5C # d # b1 @ ''/'' @ CHR 0x22 # ''>''"
    by (simp add: base_tag_text_def b1 u_def)
  ultimately have "expand_template m (base_tag_text (''/p/'' @ int_str port @ before_last_slash path @ ''/'')) = None" for m
    by (simp add: expand_plains expand_bad_escape[OF assms(5-7)])
  then have "rewrite_base_href page (''/p/'' @ int_str port @ before_last_slash path @ ''/'') = None"
    using assms(3) by (auto simp: rewrite_base_href_def Let_def)
  then show ?thesis using assms(1,2) by (simp add: relay_def)
qed

section \<open>The tunnel and the slots\<close>

text \<open>What a peer delivers before its stream ends or fails.\<close>

fun wire :: "recv_item list \<Rightarrow> string" where
  "wire (Data (c # cs) # s) = (c # cs) @ wire s"
| "wire _ = []"

lemma wire_recv: "recv n s = (Some d, s') \<Longrightarrow> d \<noteq> [] \<Longrightarrow> 0 < n \<Longrightarrow> wire s = d @ wire s'"
proof (cases s rule: wire.cases)
  case (1 c cs s2)
  assume a: "recv n s = (Some d, s')" "d \<noteq> []" "0 < n"
  show ?thesis
  proof (cases "length (c # cs) \<le> n")
    case True
    with a 1 show ?thesis by auto
  next
    case False
    then obtain e es where e: "drop n (c # cs) = e # es" by (cases "drop n (c # cs)") auto
    with a 1 False have "d = take n (c # cs)" "s' = Data (e # es) # s2" by auto
    then show ?thesis using append_take_drop_id[of n "c # cs"] 1 unfolding e by (metis append_assoc wire.simps(1))
  qed
qed auto

fun pump_ok :: "string \<Rightarrow> pump \<Rightarrow> bool" where
  "pump_ok bytes p =
     (case pm_pc p of
        AtSend d \<Rightarrow> d \<noteq> [] \<and> pm_out p @ d @ wire (pm_in p) = bytes
      | PumpDone \<Rightarrow> \<exists>r. pm_out p @ r = bytes
      | _ \<Rightarrow> pm_out p @ wire (pm_in p) = bytes)"

lemma pump_ok_step: "pump_step (stop, p) (stop', p') \<Longrightarrow> pump_ok bytes p \<Longrightarrow> pump_ok bytes p'"
  by (erule pump_stepE) (auto dest: wire_recv split: pump_pc.splits)

definition tunnel_ok :: "string \<Rightarrow> string \<Rightarrow> tunnel \<Rightarrow> bool" where
  "tunnel_ok a b t \<longleftrightarrow> pump_ok a (tn_first t) \<and> pump_ok b (tn_second t) \<and>
     (pm_pc (tn_first t) = PumpDone \<or> pm_pc (tn_second t) = PumpDone \<longrightarrow> tn_stop t)"

lemma pump_step_stop: "pump_step (stop, p) (stop', p') \<Longrightarrow> (stop \<longrightarrow> stop') \<and> (pm_pc p' = PumpDone \<longrightarrow> stop')"
  by (erule pump_stepE) auto

interpretation tunnel_machine: invariant_machine "\<lambda>t. t = new_tunnel a b" tunnel_step "tunnel_ok (wire a) (wire b)" for a b
proof unfold_locales
  show "t = new_tunnel a b \<Longrightarrow> tunnel_ok (wire a) (wire b) t" for t
    by (simp add: tunnel_ok_def new_tunnel_def new_pump_def)
  show "tunnel_ok (wire a) (wire b) t" if "tunnel_ok (wire a) (wire b) s" "tunnel_step s t" for s t
    using that(2,1) by (cases rule: tunnel_step.cases)
      (auto simp: tunnel_ok_def simp del: pump_ok.simps dest: pump_ok_step pump_step_stop)
qed

text \<open>The witness of the previous section's property: the path \<open>/\q/x\<close> and a page with a base tag.\<close>

definition base_response :: upstream_response where
  "base_response = \<lparr>ur_status = 200, ur_headers = [(''Content-Type'', ''text/html'')], ur_length = Some 14, ur_chunked = False,
     ur_body = [Data ''<base href=/a>'']\<rparr>"

text \<open>
  C31. Whatever the interleaving of the two threads, a tunnel passes on the bytes of either side in order,
  without loss or insertion in the middle: what each side was sent is at any moment a beginning of
  what the other sent. And when a thread has ended, the other is told to stop.
\<close>

theorem tunnel_in_order:
  assumes "reach (\<lambda>t. t = new_tunnel a b) tunnel_step t"
  shows "(\<exists>r. wire a = pm_out (tn_first t) @ r) \<and> (\<exists>r. wire b = pm_out (tn_second t) @ r) \<and>
    (pm_pc (tn_first t) \<noteq> PumpDone \<and> pm_pc (tn_second t) \<noteq> PumpDone \<or> tn_stop t)"
  using tunnel_machine.reach_inv[OF assms] by (auto simp: tunnel_ok_def split: pump_pc.splits) metis+

theorem tunnel_in_order_witness:
  "\<exists>r. wire [Data ''ab''] = pm_out (tn_first (new_tunnel [Data ''ab''] [])) @ r"
  using tunnel_in_order[of "[Data ''ab'']" "[]" "new_tunnel [Data ''ab''] []"] by (auto intro: reach_init)

text \<open>
  A client that closes an upgraded connection whose server stays silent leaves the handler waiting: there is
  a reachable state in which the client's thread has ended and has set \<^verbatim>\<open>stop\<close>, the other thread waits
  in \<^verbatim>\<open>recv\<close>, and nothing can happen any more; the handler keeps its slot of the semaphore.
\<close>

theorem tunnel_stuck:
  "\<exists>t. reach (\<lambda>t. t = new_tunnel [Data []] []) tunnel_step t \<and> tn_stop t \<and> pm_pc (tn_first t) = PumpDone \<and>
     pm_pc (tn_second t) = AtRecv \<and> (\<nexists>t'. tunnel_step t t')"
proof -
  let ?p1 = "\<lparr>pm_in = [Data []], pm_out = [], pm_pc = AtRecv\<rparr>"
  let ?p2 = "\<lparr>pm_in = [], pm_out = [], pm_pc = AtRecv\<rparr>"
  let ?d = "\<lparr>pm_in = [], pm_out = [], pm_pc = PumpDone\<rparr>"
  let ?t = "\<lambda>stop p q. \<lparr>tn_stop = stop, tn_first = p, tn_second = q\<rparr>"
  have go: "pump_step (False, new_pump [Data []]) (False, ?p1)" "pump_step (False, new_pump []) (False, ?p2)"
    using pump_step.test_go[of "new_pump [Data []]"] pump_step.test_go[of "new_pump []"] by (simp_all add: new_pump_def)
  have stop: "pump_step (False, ?p1) (True, ?d)"
    using pump_step.recv_end[of ?p1 "Some []" "[]" False] by simp
  have "tunnel_step (new_tunnel [Data []] []) (?t False ?p1 (new_pump []))"
    using tunnel_step.first[of "new_tunnel [Data []] []"] go(1) by (force simp: new_tunnel_def)
  moreover have "tunnel_step (?t False ?p1 (new_pump [])) (?t False ?p1 ?p2)"
    using tunnel_step.second[of "?t False ?p1 (new_pump [])"] go(2) by force
  moreover have "tunnel_step (?t False ?p1 ?p2) (?t True ?d ?p2)"
    using tunnel_step.first[of "?t False ?p1 ?p2"] stop by force
  ultimately have "reach (\<lambda>t. t = new_tunnel [Data []] []) tunnel_step (?t True ?d ?p2)"
    by (intro reach_step[OF reach_step[OF reach_step[OF reach_init[of "\<lambda>t. t = new_tunnel [Data []] []", OF refl]]]])
  moreover have "\<nexists>t'. tunnel_step (?t True ?d ?p2) t'"
    by (auto elim!: tunnel_step.cases pump_stepE)
  ultimately show ?thesis by (intro exI[of _ "?t True ?d ?p2"]) simp
qed

interpretation slot_machine: invariant_machine "\<lambda>s. s = new_server" server_step
  "\<lambda>s. ps_slots s + length (ps_running s) = MAX_CONNECTIONS \<and> distinct (ps_running s)"
proof unfold_locales
  show "ps_slots t + length (ps_running t) = MAX_CONNECTIONS \<and> distinct (ps_running t)"
    if "ps_slots s + length (ps_running s) = MAX_CONNECTIONS \<and> distinct (ps_running s)" "server_step s t" for s t
    using that(2,1)
  proof (cases rule: server_step.cases)
    case (release i)
    then obtain n where "length (ps_running s) = Suc n" by (cases "ps_running s") auto
    with release that(1) show ?thesis by (simp add: length_remove1)
  qed auto
qed (simp add: new_server_def)

text \<open>
  The semaphore of the server is balanced: free slots and running handlers always add up to 256, so no more
  than 256 handlers run at once, and a connection is turned away with a 503 only while exactly that many do.
\<close>

theorem connections_bounded:
  assumes "reach (\<lambda>s. s = new_server) server_step s"
  shows "length (ps_running s) \<le> MAX_CONNECTIONS \<and> (ps_slots s = 0 \<longleftrightarrow> length (ps_running s) = MAX_CONNECTIONS)"
  using slot_machine.reach_inv[OF assms] by auto

end
