(* ===== verification/Jobs.thy ===== *)
theory Jobs
  imports Events
begin

text \<open>
  The job timeline rebuilt from the events (\<^verbatim>\<open>home/rdm/events/jobs.py\<close>). A missing field is \<^const>\<open>JNull\<close>, as
  \<^verbatim>\<open>get\<close> gives it. Time stamps are floating point numbers: their subtraction and comparison are
  parameters. Fields that are JSON lists or objects, for which a test of membership raises, do not
  occur in the events of the tap and are compared like other values.
\<close>

record float_ops =
  fsub :: "json \<Rightarrow> json \<Rightarrow> json"
  fgt :: "json \<Rightarrow> json \<Rightarrow> bool"

definition MUTATING_TOOLS :: "string list" where
  "MUTATING_TOOLS = [''write'', ''edit'', ''apply_patch'', ''bash'']"

definition TERMINAL_STATUSES :: "string list" where
  "TERMINAL_STATUSES = [''completed'', ''failed'', ''cancelled'']"

definition MATCH_WINDOW_SECONDS :: json where
  "MATCH_WINDOW_SECONDS = JFloat ''120.0''"

definition IDENTITY_KEYS :: "string list" where
  "IDENTITY_KEYS = [''session'', ''tool'', ''ts'']"

definition in_strs :: "json \<Rightarrow> string list \<Rightarrow> bool" where
  "in_strs j ss \<longleftrightarrow> (case j of JStr s \<Rightarrow> s \<in> set ss | _ \<Rightarrow> False)"

record job =
  jb_id :: json
  jb_tool :: json
  jb_session :: json
  jb_request_ts :: json
  jb_last_ts :: json
  jb_status :: json
  jb_permission :: json
  jb_exit :: json
  jb_requests :: nat
  jb_responses :: nat
  jb_terminal :: bool

definition new_job :: "json \<Rightarrow> job" where
  "new_job i = \<lparr>jb_id = i, jb_tool = JNull, jb_session = JNull, jb_request_ts = JNull, jb_last_ts = JNull,
     jb_status = JNull, jb_permission = JNull, jb_exit = JNull, jb_requests = 0, jb_responses = 0, jb_terminal = False\<rparr>"

definition numeric :: "json \<Rightarrow> json option" where
  "numeric v = (case v of JInt _ \<Rightarrow> Some v | JFloat _ \<Rightarrow> Some v | _ \<Rightarrow> None)"

definition count_request :: "event \<Rightarrow> job \<Rightarrow> job" where
  "count_request r j =
     (let j1 = j\<lparr>jb_requests := jb_requests j + 1\<rparr> in
      if jb_tool j1 = JNull
      then j1\<lparr>jb_tool := obj_get r ''tool'', jb_session := obj_get r ''session'', jb_request_ts := obj_get r ''ts''\<rparr>
      else j1)"

definition or_old :: "json \<Rightarrow> json \<Rightarrow> json" where
  "or_old new old = (if new \<noteq> JNull then new else old)"

definition apply_response :: "event \<Rightarrow> event option \<Rightarrow> job \<Rightarrow> job" where
  "apply_response e request j =
     (let j1 = j\<lparr>jb_responses := jb_responses j + 1\<rparr>;
          j2 = (case request of None \<Rightarrow> j1 | Some r \<Rightarrow> count_request r j1);
          j3 = j2\<lparr>jb_status := or_old (obj_get e ''status'') (jb_status j2),
                  jb_permission := or_old (obj_get e ''permission'') (jb_permission j2),
                  jb_exit := or_old (obj_get e ''exit'') (jb_exit j2),
                  jb_last_ts := or_old (obj_get e ''ts'') (jb_last_ts j2)\<rparr> in
      j3\<lparr>jb_terminal := in_strs (jb_status j3) TERMINAL_STATUSES\<rparr>)"

text \<open>\<^verbatim>\<open>pending.pop(index)\<close> at the first index, or at the last, that satisfies the test.\<close>

fun pop_first :: "('a \<Rightarrow> bool) \<Rightarrow> 'a list \<Rightarrow> ('a \<times> 'a list) option" where
  "pop_first P [] = None"
| "pop_first P (x # xs) = (if P x then Some (x, xs) else map_option (apsnd ((#) x)) (pop_first P xs))"

definition pop_last :: "('a \<Rightarrow> bool) \<Rightarrow> 'a list \<Rightarrow> ('a \<times> 'a list) option" where
  "pop_last P xs = map_option (apsnd rev) (pop_first P (rev xs))"

definition same_field :: "string \<Rightarrow> event \<Rightarrow> event \<Rightarrow> bool" where
  "same_field k response request \<longleftrightarrow> (has_key response k \<longrightarrow> obj_get request k = obj_get response k)"

definition within_window :: "float_ops \<Rightarrow> event \<Rightarrow> event \<Rightarrow> bool" where
  "within_window fl response request =
     (case (numeric (obj_get response ''ts''), numeric (obj_get request ''ts'')) of
        (Some a, Some b) \<Rightarrow> \<not> fgt fl (fsub fl a b) MATCH_WINDOW_SECONDS
      | _ \<Rightarrow> True)"

definition answers :: "float_ops \<Rightarrow> event \<Rightarrow> event \<Rightarrow> bool" where
  "answers fl response request \<longleftrightarrow>
     same_field ''session'' response request \<and> same_field ''tool'' response request \<and> within_window fl response request"

definition match_pending :: "float_ops \<Rightarrow> event list \<Rightarrow> event \<Rightarrow> event option \<times> event list" where
  "match_pending fl pending response =
     (let i = obj_get response ''job_id'';
          by_id = (if i \<noteq> JNull then pop_first (\<lambda>r. obj_get r ''job_id'' = i) pending else None) in
      case by_id of
        Some (r, rest) \<Rightarrow> (Some r, rest)
      | None \<Rightarrow>
          (case (if list_ex (has_key response) IDENTITY_KEYS then pop_last (answers fl response) pending
                 else pop_first (\<lambda>_. True) pending) of
             Some (r, rest) \<Rightarrow> (Some r, rest)
           | None \<Rightarrow> (None, pending)))"

record correlation =
  co_jobs :: "job list"
  co_open :: "event list"

text \<open>The dictionary of jobs and the list of their ids in the order of creation are one list here.\<close>

definition job_at :: "json \<Rightarrow> job list \<Rightarrow> job option" where
  "job_at i jobs = find (\<lambda>j. jb_id j = i) jobs"

definition update_job :: "json \<Rightarrow> (job \<Rightarrow> job) \<Rightarrow> job list \<Rightarrow> job list" where
  "update_job i f jobs = map (\<lambda>j. if jb_id j = i then f j else j) jobs"

definition is_call :: "event \<Rightarrow> bool" where
  "is_call e \<longleftrightarrow> obj_get e ''kind'' = JStr ''mcp_request'' \<and> obj_get e ''rpc_method'' = JStr ''tools/call''"

definition is_response :: "event \<Rightarrow> bool" where
  "is_response e \<longleftrightarrow> obj_get e ''kind'' = JStr ''mcp_response''"

definition correlate_step :: "float_ops \<Rightarrow> event \<Rightarrow> correlation \<Rightarrow> correlation" where
  "correlate_step fl e c =
     (let i = obj_get e ''job_id'' in
      if is_call e then
        (if i \<noteq> JNull \<and> job_at i (co_jobs c) \<noteq> None
         then c\<lparr>co_jobs := update_job i (count_request e) (co_jobs c)\<rparr>
         else c\<lparr>co_open := co_open c @ [e]\<rparr>)
      else if is_response e then
        (case match_pending fl (co_open c) e of (request, pending) \<Rightarrow>
           let c1 = c\<lparr>co_open := pending\<rparr> in
           if i = JNull then c1
           else let jobs = (if job_at i (co_jobs c1) = None then co_jobs c1 @ [new_job i] else co_jobs c1) in
             c1\<lparr>co_jobs := update_job i (apply_response e request) jobs\<rparr>)
      else c)"

definition correlate :: "float_ops \<Rightarrow> event list \<Rightarrow> correlation" where
  "correlate fl events = fold (correlate_step fl) events \<lparr>co_jobs = [], co_open = []\<rparr>"

record alarm =
  al_job :: json
  al_tool :: json
  al_session :: json
  al_ts :: json
  al_age :: json
  al_status :: json

text \<open>\<^verbatim>\<open>now - ts <= threshold\<close> is the negation of the comparison; time stamps are never NaN.\<close>

definition stalled :: "float_ops \<Rightarrow> json \<Rightarrow> json \<Rightarrow> json \<Rightarrow> json option" where
  "stalled fl now limit v =
     (case numeric v of None \<Rightarrow> None | Some ts \<Rightarrow> if fgt fl (fsub fl now ts) limit then Some ts else None)"

definition job_alarm :: "float_ops \<Rightarrow> json \<Rightarrow> json \<Rightarrow> job \<Rightarrow> alarm list" where
  "job_alarm fl now limit j =
     (if \<not> in_strs (jb_tool j) MUTATING_TOOLS \<or> jb_terminal j then []
      else case stalled fl now limit (jb_request_ts j) of
        None \<Rightarrow> []
      | Some ts \<Rightarrow> [\<lparr>al_job = jb_id j, al_tool = jb_tool j, al_session = jb_session j, al_ts = ts,
          al_age = fsub fl now ts, al_status = jb_status j\<rparr>])"

definition call_alarm :: "float_ops \<Rightarrow> json \<Rightarrow> json \<Rightarrow> event \<Rightarrow> alarm list" where
  "call_alarm fl now limit e =
     (if \<not> in_strs (obj_get e ''tool'') MUTATING_TOOLS then []
      else case stalled fl now limit (obj_get e ''ts'') of
        None \<Rightarrow> []
      | Some ts \<Rightarrow> [\<lparr>al_job = JNull, al_tool = obj_get e ''tool'', al_session = obj_get e ''session'', al_ts = ts,
          al_age = fsub fl now ts, al_status = JNull\<rparr>])"

definition stall_alarm :: "float_ops \<Rightarrow> json \<Rightarrow> json \<Rightarrow> event list \<Rightarrow> alarm list" where
  "stall_alarm fl now limit events =
     (let c = correlate fl events in
      concat (map (job_alarm fl now limit) (co_jobs c)) @ concat (map (call_alarm fl now limit) (co_open c)))"

section \<open>Facts\<close>

lemma pop_first_Some: "pop_first P xs = Some (x, ys) \<Longrightarrow> P x \<and> (\<exists>a b. xs = a @ x # b \<and> ys = a @ b)"
proof (induction xs arbitrary: ys)
  case (Cons y xs)
  show ?case
  proof (cases "P y")
    case False
    with Cons obtain zs where "pop_first P xs = Some (x, zs)" "ys = y # zs" by auto
    with Cons.IH show ?thesis by (metis append_Cons)
  qed (use Cons in auto)
qed simp

lemma pop_first_length: "pop_first P xs = Some (x, ys) \<Longrightarrow> length xs = Suc (length ys)"
  by (drule pop_first_Some) auto

lemma pop_last_length: "pop_last P xs = Some (x, ys) \<Longrightarrow> length xs = Suc (length ys)"
  by (auto simp: pop_last_def dest: pop_first_length)

lemma match_pending_length:
  "match_pending fl pending e = (r, rest) \<Longrightarrow> length pending = length rest + (case r of None \<Rightarrow> 0 | Some _ \<Rightarrow> 1)"
  by (auto simp: match_pending_def Let_def split: option.splits if_splits dest: pop_first_length pop_last_length)

lemma update_job_ids: "(\<And>j. jb_id (f j) = jb_id j) \<Longrightarrow> map jb_id (update_job i f jobs) = map jb_id jobs"
  by (simp add: update_job_def)

lemma update_job_other: "i \<notin> jb_id ` set jobs \<Longrightarrow> update_job i f jobs = jobs"
  by (induction jobs) (auto simp: update_job_def)

lemma update_job_sum:
  fixes g :: "job \<Rightarrow> nat"
  assumes "distinct (map jb_id jobs)" "i \<in> jb_id ` set jobs" "\<And>j. g (f j) = g j + d"
  shows "sum_list (map g (update_job i f jobs)) = sum_list (map g jobs) + d"
  using assms(1,2)
proof (induction jobs)
  case (Cons j jobs)
  show ?case
  proof (cases "jb_id j = i")
    case True
    with Cons.prems have "update_job i f jobs = jobs" by (intro update_job_other) auto
    then show ?thesis using True assms(3) by (simp add: update_job_def)
  next
    case False
    then have "update_job i f (j # jobs) = j # update_job i f jobs" by (simp add: update_job_def)
    with Cons False show ?thesis by auto
  qed
qed simp

lemma job_at_iff: "job_at i jobs \<noteq> None \<longleftrightarrow> i \<in> jb_id ` set jobs"
  by (auto simp: job_at_def find_None_iff)

lemma count_request_simps [simp]:
  "jb_id (count_request r j) = jb_id j" "jb_requests (count_request r j) = jb_requests j + 1"
  "jb_responses (count_request r j) = jb_responses j" "jb_status (count_request r j) = jb_status j"
  "jb_terminal (count_request r j) = jb_terminal j"
  by (simp_all add: count_request_def Let_def)

lemma apply_response_simps [simp]:
  "jb_id (apply_response e r j) = jb_id j" "jb_responses (apply_response e r j) = jb_responses j + 1"
  "jb_requests (apply_response e r j) = jb_requests j + (case r of None \<Rightarrow> 0 | Some _ \<Rightarrow> 1)"
  "jb_terminal (apply_response e r j) = in_strs (jb_status (apply_response e r j)) TERMINAL_STATUSES"
  by (auto simp: apply_response_def Let_def split: option.splits)

definition job_ok :: "job \<Rightarrow> bool" where
  "job_ok j \<longleftrightarrow> jb_id j \<noteq> JNull \<and> jb_terminal j = in_strs (jb_status j) TERMINAL_STATUSES"

definition anonymous :: "event \<Rightarrow> bool" where
  "anonymous e \<longleftrightarrow> obj_get e ''job_id'' = JNull"

definition count :: "(event \<Rightarrow> bool) \<Rightarrow> event list \<Rightarrow> nat" where
  "count P events = length (filter P events)"

definition accounted :: "event list \<Rightarrow> correlation \<Rightarrow> bool" where
  "accounted es c \<longleftrightarrow>
     distinct (map jb_id (co_jobs c)) \<and> list_all job_ok (co_jobs c) \<and>
     sum_list (map jb_responses (co_jobs c)) = count (\<lambda>e. is_response e \<and> \<not> anonymous e) es \<and>
     sum_list (map jb_requests (co_jobs c)) + length (co_open c) \<le> count is_call es \<and>
     count is_call es \<le> sum_list (map jb_requests (co_jobs c)) + length (co_open c) +
       count (\<lambda>e. is_response e \<and> anonymous e) es"

lemma call_not_response: "is_call e \<Longrightarrow> \<not> is_response e"
  by (simp add: is_call_def is_response_def)

lemma list_all_update: "list_all P jobs \<Longrightarrow> (\<And>j. P j \<Longrightarrow> P (f j)) \<Longrightarrow> list_all P (update_job i f jobs)"
  by (auto simp: list_all_iff update_job_def)

lemma accounted_call:
  assumes "accounted es c" "is_call e"
  shows "accounted (es @ [e]) (correlate_step fl e c)"
proof (cases "obj_get e ''job_id'' \<noteq> JNull \<and> job_at (obj_get e ''job_id'') (co_jobs c) \<noteq> None")
  case True
  let ?i = "obj_get e ''job_id''"
  have d: "distinct (map jb_id (co_jobs c))" "?i \<in> jb_id ` set (co_jobs c)"
    using assms True job_at_iff by (auto simp: accounted_def)
  have "sum_list (map jb_requests (update_job ?i (count_request e) (co_jobs c))) = sum_list (map jb_requests (co_jobs c)) + 1"
    "sum_list (map jb_responses (update_job ?i (count_request e) (co_jobs c))) = sum_list (map jb_responses (co_jobs c)) + 0"
    by (rule update_job_sum[OF d]; simp)+
  then show ?thesis using assms True call_not_response[of e]
    by (auto simp: accounted_def correlate_step_def count_def update_job_ids job_ok_def intro!: list_all_update)
next
  case False
  then have "correlate_step fl e c = c\<lparr>co_open := co_open c @ [e]\<rparr>" using assms by (auto simp: correlate_step_def)
  then show ?thesis using assms call_not_response[of e] by (simp add: accounted_def count_def)
qed

lemma accounted_response:
  assumes "accounted es c" "is_response e"
  shows "accounted (es @ [e]) (correlate_step fl e c)"
proof -
  let ?i = "obj_get e ''job_id''"
  obtain r rest where m: "match_pending fl (co_open c) e = (r, rest)" by fastforce
  note len = match_pending_length[OF m]
  have nc: "\<not> is_call e" using assms(2) call_not_response by blast
  show ?thesis
  proof (cases "?i = JNull")
    case True
    then have "correlate_step fl e c = c\<lparr>co_open := rest\<rparr>" using assms(2) nc m by (simp add: correlate_step_def)
    then show ?thesis using assms nc True len
      by (auto simp: accounted_def count_def anonymous_def split: option.splits)
  next
    case False
    define jobs where "jobs = (if job_at ?i (co_jobs c) = None then co_jobs c @ [new_job ?i] else co_jobs c)"
    have step: "correlate_step fl e c = \<lparr>co_jobs = update_job ?i (apply_response e r) jobs, co_open = rest\<rparr>"
      using assms(2) nc m False by (simp add: correlate_step_def jobs_def Let_def)
    have d: "distinct (map jb_id jobs)" "?i \<in> jb_id ` set jobs"
      using assms(1) job_at_iff[of ?i "co_jobs c"] by (auto simp: jobs_def accounted_def new_job_def)
    have ok: "list_all job_ok jobs" using assms(1) False
      by (auto simp: jobs_def accounted_def new_job_def job_ok_def in_strs_def)
    have same: "sum_list (map jb_requests jobs) = sum_list (map jb_requests (co_jobs c))"
      "sum_list (map jb_responses jobs) = sum_list (map jb_responses (co_jobs c))"
      by (simp_all add: jobs_def new_job_def)
    have "sum_list (map jb_requests (update_job ?i (apply_response e r) jobs)) =
        sum_list (map jb_requests jobs) + (case r of None \<Rightarrow> 0 | Some _ \<Rightarrow> 1)"
      "sum_list (map jb_responses (update_job ?i (apply_response e r) jobs)) = sum_list (map jb_responses jobs) + 1"
      by (rule update_job_sum[OF d]; simp)+
    moreover have "list_all job_ok (update_job ?i (apply_response e r) jobs)"
      by (rule list_all_update[OF ok]) (simp add: job_ok_def)
    ultimately show ?thesis using assms nc False len d(1) same
      by (auto simp: step accounted_def count_def anonymous_def update_job_ids split: option.splits)
  qed
qed

lemma correlate_accounted: "accounted es (correlate fl es)"
proof (induction es rule: rev_induct)
  case Nil
  show ?case by (simp add: correlate_def accounted_def count_def)
next
  case (snoc e es)
  have "correlate fl (es @ [e]) = correlate_step fl e (correlate fl es)" by (simp add: correlate_def)
  moreover have "accounted (es @ [e]) (correlate fl es)" if "\<not> is_call e" "\<not> is_response e"
    using snoc that by (simp add: accounted_def count_def)
  moreover have "correlate_step fl e (correlate fl es) = correlate fl es" if "\<not> is_call e" "\<not> is_response e"
    using that by (simp add: correlate_step_def Let_def)
  ultimately show ?case using accounted_call[OF snoc, of e fl] accounted_response[OF snoc, of e fl]
    by (cases "is_call e"; cases "is_response e") simp_all
qed

section \<open>Properties\<close>

text \<open>
  The timeline accounts for every event: jobs have distinct ids, their responses are exactly the
  responses that carry a job id, and every tool call is counted once, in a job or as an open call,
  except for at most one call for each response without a job id, which takes it from the open calls.
\<close>

theorem correlate_accounts:
  "distinct (map jb_id (co_jobs (correlate fl es))) \<and>
   sum_list (map jb_responses (co_jobs (correlate fl es))) = count (\<lambda>e. is_response e \<and> \<not> anonymous e) es \<and>
   sum_list (map jb_requests (co_jobs (correlate fl es))) + length (co_open (correlate fl es)) \<le> count is_call es \<and>
   count is_call es \<le> sum_list (map jb_requests (co_jobs (correlate fl es))) + length (co_open (correlate fl es)) +
     count (\<lambda>e. is_response e \<and> anonymous e) es"
  using correlate_accounted[of es fl] by (simp add: accounted_def)

text \<open>
  A job raises no alarm once it is finished: every alarm about a job is about a job of the timeline
  with a mutating tool whose last reported status is not a final one, and whose first call is older
  than the limit.
\<close>

theorem stall_alarm_sound:
  assumes "a \<in> set (stall_alarm fl now limit es)" "al_job a \<noteq> JNull"
  shows "\<exists>j \<in> set (co_jobs (correlate fl es)). al_job a = jb_id j \<and> in_strs (jb_tool j) MUTATING_TOOLS \<and>
    \<not> in_strs (jb_status j) TERMINAL_STATUSES \<and> numeric (jb_request_ts j) = Some (al_ts a) \<and> fgt fl (fsub fl now (al_ts a)) limit"
proof -
  have "\<exists>j \<in> set (co_jobs (correlate fl es)). a \<in> set (job_alarm fl now limit j)"
    using assms by (auto simp: stall_alarm_def Let_def call_alarm_def split: if_splits option.splits)
  then obtain j where j: "j \<in> set (co_jobs (correlate fl es))" "a \<in> set (job_alarm fl now limit j)" by blast
  have "job_ok j" using correlate_accounted[of es fl] j(1) by (auto simp: accounted_def list_all_iff)
  with j show ?thesis
    by (intro bexI[of _ j]) (auto simp: job_alarm_def job_ok_def stalled_def split: if_splits option.splits)
qed

definition int_ops :: float_ops where
  "int_ops = \<lparr>fsub = (\<lambda>a b. case (a, b) of (JInt i, JInt k) \<Rightarrow> JInt (i - k) | _ \<Rightarrow> a),
     fgt = (\<lambda>a b. case (a, b) of (JInt i, JInt k) \<Rightarrow> k < i | (JInt i, _) \<Rightarrow> 120 < i | _ \<Rightarrow> False)\<rparr>"

definition sample_events :: "event list" where
  "sample_events =
     [[(''kind'', JStr ''mcp_request''), (''rpc_method'', JStr ''tools/call''), (''tool'', JStr ''bash''), (''ts'', JInt 10)],
      [(''kind'', JStr ''mcp_response''), (''job_id'', JStr ''j1''), (''status'', JStr ''running''), (''ts'', JInt 12)]]"

end
