(* ===== verification/AuditChain.thy ===== *)
theory AuditChain
  imports Events
begin

text \<open>
  The audit log of the runner (\<^verbatim>\<open>home/rdm/runner/audit.py\<close>) and its verification
  (\<^verbatim>\<open>home/rdm/audit_verify.py\<close>). SHA-256 is a parameter, and so is the success of each file operation.
  The text of the log is the decoded one.
\<close>

section \<open>Writing\<close>

definition ROTATE_BYTES :: nat where
  "ROTATE_BYTES = 10 * 1024 * 1024"

definition GENESIS :: string where
  "GENESIS = replicate 64 CHR ''0''"

record audit_fs =
  au_log :: "string option"
  au_chain :: "string option"
  au_rotated :: "string option"

text \<open>Which of the operations succeed: the rename, the removal of the chain file, the append, the
  writing of the chain file.\<close>

record audit_io =
  io_rename :: bool
  io_unlink :: bool
  io_append :: bool
  io_chain :: bool

abbreviation LF :: char where
  "LF \<equiv> CHR 0x0A"

definition audit_rotate :: "audit_io \<Rightarrow> audit_fs \<Rightarrow> audit_fs" where
  "audit_rotate io fs =
     (case au_log fs of
        None \<Rightarrow> fs
      | Some t \<Rightarrow>
          if \<not> (ROTATE_BYTES < length (utf8 t)) \<or> \<not> io_rename io then fs
          else let fs1 = fs\<lparr>au_log := None, au_rotated := Some t\<rparr> in
            if io_unlink io then fs1\<lparr>au_chain := None\<rparr> else fs1)"

definition chain_entry :: "string \<Rightarrow> json \<Rightarrow> string \<Rightarrow> (string \<times> json) list" where
  "chain_entry ts obj prev = [(''ts'', JStr ts), (''event'', obj), (''prev'', JStr prev)]"

definition entry_hash :: "(string \<Rightarrow> string) \<Rightarrow> (string \<times> json) list \<Rightarrow> string" where
  "entry_hash sha d = sha (utf8 (dumps (fmt_default True) (sort_keys (JObj d))))"

definition audit_line :: "(string \<Rightarrow> string) \<Rightarrow> (string \<times> json) list \<Rightarrow> string" where
  "audit_line sha d = dumps (fmt_default False) (JObj (dset ''hash'' (JStr (entry_hash sha d)) d))"

definition audit :: "(string \<Rightarrow> string) \<Rightarrow> audit_io \<Rightarrow> string \<Rightarrow> json \<Rightarrow> audit_fs \<Rightarrow> audit_fs" where
  "audit sha io ts obj fs =
     (let fs1 = audit_rotate io fs;
          prev = (case au_chain fs1 of None \<Rightarrow> GENESIS | Some c \<Rightarrow> strip c);
          d = chain_entry ts obj prev in
      if \<not> io_append io then fs1
      else let fs2 = fs1\<lparr>au_log := Some ((case au_log fs1 of None \<Rightarrow> [] | Some t \<Rightarrow> t) @ audit_line sha d @ [LF])\<rparr> in
        if io_chain io then fs2\<lparr>au_chain := Some (entry_hash sha d)\<rparr> else fs2)"

section \<open>Verifying\<close>

text \<open>\<^verbatim>\<open>str.splitlines\<close>, for code points below 256.\<close>

definition line_sep :: "char \<Rightarrow> bool" where
  "line_sep c \<longleftrightarrow> code c \<in> {10, 11, 12, 13, 28, 29, 30, 133}"

function splitlines_from :: "string \<Rightarrow> string \<Rightarrow> string list" where
  "splitlines_from cur s =
     (case s of
        [] \<Rightarrow> if cur = [] then [] else [cur]
      | c # r \<Rightarrow>
          if \<not> line_sep c then splitlines_from (cur @ [c]) r
          else cur # splitlines_from [] (if c = CHR 0x0D \<and> starts_with [LF] r then tl r else r))"
  by pat_completeness auto
termination by (relation "measure (length \<circ> snd)") auto

declare splitlines_from.simps [simp del]

definition splitlines :: "string \<Rightarrow> string list" where
  "splitlines s = splitlines_from [] s"

datatype chain_reason = NoReason | CannotRead | BadJson | NoHash | Tampered nat | ChainBreak nat

record chain_report =
  cr_ok :: bool
  cr_entries :: nat
  cr_broken :: "nat option"
  cr_reason :: chain_reason

definition payload :: "(string \<times> json) list \<Rightarrow> (string \<times> json) list" where
  "payload d = filter (\<lambda>(k, v). k \<noteq> ''hash'') d"

definition rehash :: "(string \<Rightarrow> string) \<Rightarrow> (string \<times> json) list \<Rightarrow> string" where
  "rehash sha d = entry_hash sha (payload d)"

definition broken_at :: "nat \<Rightarrow> chain_reason \<Rightarrow> chain_report" where
  "broken_at n why = \<lparr>cr_ok = False, cr_entries = n - 1, cr_broken = Some n, cr_reason = why\<rparr>"

fun verify_lines :: "(string \<Rightarrow> string) \<Rightarrow> string \<Rightarrow> nat \<Rightarrow> string list \<Rightarrow> chain_report" where
  "verify_lines sha expected n [] = \<lparr>cr_ok = True, cr_entries = n, cr_broken = None, cr_reason = NoReason\<rparr>"
| "verify_lines sha expected n (line # rest) =
     (case loads line of
        None \<Rightarrow> broken_at (Suc n) BadJson
      | Some j \<Rightarrow>
          (case j of
             JObj d \<Rightarrow>
               (case obj_get d ''hash'' of
                  JStr h \<Rightarrow>
                    if rehash sha d \<noteq> h then broken_at (Suc n) (Tampered (Suc n))
                    else if obj_get d ''prev'' \<noteq> JStr expected then broken_at (Suc n) (ChainBreak (Suc n))
                    else verify_lines sha h (Suc n) rest
                | _ \<Rightarrow> broken_at (Suc n) NoHash)
           | _ \<Rightarrow> broken_at (Suc n) NoHash))"

text \<open>\<^const>\<open>None\<close>: the file cannot be read.\<close>

definition verify_file :: "(string \<Rightarrow> string) \<Rightarrow> string option \<Rightarrow> chain_report" where
  "verify_file sha text =
     (case text of
        None \<Rightarrow> \<lparr>cr_ok = False, cr_entries = 0, cr_broken = None, cr_reason = CannotRead\<rparr>
      | Some t \<Rightarrow> verify_lines sha GENESIS 0 (splitlines t))"

definition verify_main :: "chain_report \<Rightarrow> nat" where
  "verify_main r = (if cr_ok r then 0 else 1)"

section \<open>Facts\<close>

fun no_seps :: "json \<Rightarrow> bool" where
  "no_seps (JStr s) \<longleftrightarrow> CHR 0x85 \<notin> set s"
| "no_seps (JArr xs) \<longleftrightarrow> (\<forall>x \<in> set xs. no_seps x)"
| "no_seps (JObj d) \<longleftrightarrow> (\<forall>p \<in> set d. CHR 0x85 \<notin> set (fst p) \<and> no_seps (snd p))"
| "no_seps _ \<longleftrightarrow> True"

lemma line_sep_cases: "line_sep c \<Longrightarrow> code c < 32 \<or> c = CHR 0x85"
proof -
  assume "line_sep c"
  then consider "code c < 32" | "code c = code (CHR 0x85)" by (auto simp: line_sep_def)
  then show ?thesis using of_char_eq_iff by cases blast+
qed

lemma shown_no_sep: "shown (\<lambda>c. c \<noteq> CHR 0x85) c \<Longrightarrow> \<not> line_sep c"
  using line_sep_cases[of c] by (auto simp: shown_def)

lemma no_seps_chars: "no_seps j \<Longrightarrow> all_chars (\<lambda>c. c \<noteq> CHR 0x85) j"
  by (induction j rule: no_seps.induct) (auto simp: list_all_iff)

lemma dump_no_sep:
  "json_exact j \<Longrightarrow> no_seps j \<Longrightarrow> c \<in> set (dump (fmt_default False) l j) \<Longrightarrow> \<not> line_sep c"
  using dump_shown[OF _ no_seps_chars, of j False l] shown_no_sep by (auto simp: list_all_iff)

lemma splitlines_from_step: "list_all (\<lambda>c. \<not> line_sep c) l \<Longrightarrow> splitlines_from cur (l @ LF # r) = (cur @ l) # splitlines_from [] r"
proof (induction l arbitrary: cur)
  case Nil
  show ?case by (simp add: splitlines_from.simps[of cur "LF # r"] line_sep_def)
next
  case (Cons c l)
  then show ?case by (simp add: splitlines_from.simps[of cur "c # l @ LF # r"])
qed

lemma splitlines_lines:
  "list_all (\<lambda>l. list_all (\<lambda>c. \<not> line_sep c) l) ls \<Longrightarrow> splitlines (concat (map (\<lambda>l. l @ [LF]) ls)) = ls"
proof (induction ls)
  case Nil
  show ?case by (simp add: splitlines_def splitlines_from.simps)
next
  case (Cons l ls)
  then show ?case using splitlines_from_step[of l "[]"] by (simp add: splitlines_def)
qed

section \<open>The chain\<close>

text \<open>A digest is a word of 64 hexadecimal digits.\<close>

definition hex_digest :: "(string \<Rightarrow> string) \<Rightarrow> bool" where
  "hex_digest sha \<longleftrightarrow> (\<forall>x. length (sha x) = 64 \<and> list_all (\<lambda>c. is_digit c \<or> c \<in> set ''abcdef'') (sha x))"

lemma hex_digest_chars: "hex_digest sha \<Longrightarrow> c \<in> set (sha x) \<Longrightarrow> \<not> is_ws c \<and> c \<noteq> CHR 0x85"
proof -
  assume a: "hex_digest sha" "c \<in> set (sha x)"
  then have "is_digit c \<or> c \<in> set ''abcdef''" by (auto simp: hex_digest_def list_all_iff)
  then show ?thesis by (auto simp: is_digit_def is_ws_def)
qed

lemma strip_digest: "hex_digest sha \<Longrightarrow> strip (sha x) = sha x"
proof -
  assume a: "hex_digest sha"
  then have "length (sha x) = 64" unfolding hex_digest_def by blast
  then have "sha x \<noteq> []" by auto
  then show ?thesis using hex_digest_chars[OF a, of _ x] hd_in_set last_in_set by (intro strip_by_id) blast+
qed

definition good_event :: "string \<Rightarrow> json \<Rightarrow> bool" where
  "good_event ts obj \<longleftrightarrow> CHR 0x85 \<notin> set ts \<and> json_exact obj \<and> no_seps obj"

fun linked :: "(string \<Rightarrow> string) \<Rightarrow> string \<Rightarrow> (string \<times> json) list list \<Rightarrow> bool" where
  "linked sha prev [] \<longleftrightarrow> True"
| "linked sha prev (d # ds) \<longleftrightarrow>
     (\<exists>ts obj. d = chain_entry ts obj prev \<and> good_event ts obj) \<and> linked sha (entry_hash sha d) ds"

definition last_hash :: "(string \<Rightarrow> string) \<Rightarrow> string \<Rightarrow> (string \<times> json) list list \<Rightarrow> string" where
  "last_hash sha prev ds = (if ds = [] then prev else entry_hash sha (last ds))"

lemma linked_append: "linked sha prev (ds @ [d]) \<longleftrightarrow>
    linked sha prev ds \<and> (\<exists>ts obj. d = chain_entry ts obj (last_hash sha prev ds) \<and> good_event ts obj)"
proof (induction ds arbitrary: prev)
  case (Cons e ds)
  have "last_hash sha (entry_hash sha e) ds = last_hash sha prev (e # ds)" by (simp add: last_hash_def)
  with Cons show ?case by simp
qed (simp add: last_hash_def)

lemma line_of_entry:
  assumes "hex_digest sha" "d = chain_entry ts obj prev" "good_event ts obj" "CHR 0x85 \<notin> set prev"
  shows "loads (audit_line sha d) = Some (JObj (d @ [(''hash'', JStr (entry_hash sha d))]))"
    "list_all (\<lambda>c. \<not> line_sep c) (audit_line sha d)"
proof -
  let ?h = "entry_hash sha d"
  have u: "dset ''hash'' (JStr ?h) d = d @ [(''hash'', JStr ?h)]" using assms(2) by (simp add: chain_entry_def)
  have "CHR 0x85 \<notin> set ?h" using hex_digest_chars[OF assms(1)] by (auto simp: entry_hash_def)
  then have ok: "json_exact (JObj (d @ [(''hash'', JStr ?h)]))" "no_seps (JObj (d @ [(''hash'', JStr ?h)]))"
    using assms(2-4) by (auto simp: chain_entry_def good_event_def)
  show "loads (audit_line sha d) = Some (JObj (d @ [(''hash'', JStr ?h)]))"
    unfolding audit_line_def u by (rule loads_dumps[OF ok(1)]) simp
  show "list_all (\<lambda>c. \<not> line_sep c) (audit_line sha d)"
    unfolding audit_line_def u list_all_iff dumps_def using dump_no_sep[OF ok] by blast
qed

lemma linked_lines:
  assumes "hex_digest sha"
  shows "linked sha prev ds \<Longrightarrow> CHR 0x85 \<notin> set prev \<Longrightarrow>
    verify_lines sha prev n (map (audit_line sha) ds) =
      \<lparr>cr_ok = True, cr_entries = n + length ds, cr_broken = None, cr_reason = NoReason\<rparr> \<and>
    list_all (list_all (\<lambda>c. \<not> line_sep c)) (map (audit_line sha) ds)"
proof (induction ds arbitrary: prev n)
  case (Cons d ds)
  then obtain ts obj where d: "d = chain_entry ts obj prev" "good_event ts obj" by auto
  note line = line_of_entry[OF assms d Cons.prems(2)]
  have h: "CHR 0x85 \<notin> set (entry_hash sha d)" using hex_digest_chars[OF assms] by (auto simp: entry_hash_def)
  have "payload (d @ [(''hash'', JStr (entry_hash sha d))]) = d" by (simp add: payload_def d(1) chain_entry_def)
  moreover have "obj_get (d @ [(''hash'', JStr (entry_hash sha d))]) ''hash'' = JStr (entry_hash sha d)"
    "obj_get (d @ [(''hash'', JStr (entry_hash sha d))]) ''prev'' = JStr prev"
    by (simp_all add: obj_get_def d(1) chain_entry_def)
  ultimately show ?case using line Cons.IH[of "entry_hash sha d" "Suc n"] Cons.prems h by (simp add: rehash_def)
qed simp

definition log_ok :: "(string \<Rightarrow> string) \<Rightarrow> audit_fs \<Rightarrow> bool" where
  "log_ok sha fs \<longleftrightarrow> (\<exists>ds. linked sha GENESIS ds \<and>
     au_log fs = (if ds = [] then None else Some (concat (map (\<lambda>d. audit_line sha d @ [LF]) ds))) \<and>
     au_chain fs = (if ds = [] then None else Some (last_hash sha GENESIS ds)))"

definition io_clean :: "audit_io \<Rightarrow> bool" where
  "io_clean io \<longleftrightarrow> (io_rename io \<longrightarrow> io_unlink io) \<and> (io_append io \<longrightarrow> io_chain io)"

lemma rotate_log_ok: "log_ok sha fs \<Longrightarrow> io_clean io \<Longrightarrow> log_ok sha (audit_rotate io fs)"
proof -
  assume a: "log_ok sha fs" "io_clean io"
  have empty: "log_ok sha (fs\<lparr>au_log := None, au_rotated := r, au_chain := None\<rparr>)" for r
    unfolding log_ok_def by (rule exI[of _ "[]"]) simp
  show ?thesis using a empty by (auto simp: audit_rotate_def Let_def io_clean_def split: option.splits)
qed

lemma audit_log_ok:
  assumes "hex_digest sha" "log_ok sha fs" "io_clean io" "good_event ts obj"
  shows "log_ok sha (audit sha io ts obj fs)"
proof -
  let ?fs = "audit_rotate io fs"
  obtain ds where ds: "linked sha GENESIS ds"
    "au_log ?fs = (if ds = [] then None else Some (concat (map (\<lambda>d. audit_line sha d @ [LF]) ds)))"
    "au_chain ?fs = (if ds = [] then None else Some (last_hash sha GENESIS ds))"
    using rotate_log_ok[OF assms(2,3)] by (auto simp: log_ok_def)
  define prev where "prev = (case au_chain ?fs of None \<Rightarrow> GENESIS | Some c \<Rightarrow> strip c)"
  have prev: "prev = last_hash sha GENESIS ds"
    using ds(3) strip_digest[OF assms(1)] by (auto simp: prev_def last_hash_def entry_hash_def)
  let ?d = "chain_entry ts obj prev"
  have "linked sha GENESIS (ds @ [?d])" using ds(1) assms(4) prev by (auto simp: linked_append)
  moreover have "last_hash sha GENESIS (ds @ [?d]) = entry_hash sha ?d" by (simp add: last_hash_def)
  ultimately have app: "log_ok sha (?fs\<lparr>au_log := Some ((case au_log ?fs of None \<Rightarrow> [] | Some t \<Rightarrow> t) @ audit_line sha ?d @ [LF]),
      au_chain := Some (entry_hash sha ?d)\<rparr>)"
    unfolding log_ok_def using ds(2) by (intro exI[of _ "ds @ [?d]"]) simp
  show ?thesis
    using app rotate_log_ok[OF assms(2,3)] assms(3)
    by (auto simp: audit_def Let_def prev_def[symmetric] io_clean_def)
qed

section \<open>Properties\<close>

type_synonym audit_op = "audit_io \<times> string \<times> json"

definition run_audits :: "(string \<Rightarrow> string) \<Rightarrow> audit_op list \<Rightarrow> audit_fs" where
  "run_audits sha ops =
     fold (\<lambda>(io, ts, obj). audit sha io ts obj) ops \<lparr>au_log = None, au_chain = None, au_rotated = None\<rparr>"

definition op_ok :: "audit_op \<Rightarrow> bool" where
  "op_ok op = (case op of (io, ts, obj) \<Rightarrow> io_clean io \<and> good_event ts obj)"

lemma run_audits_ok: "hex_digest sha \<Longrightarrow> list_all op_ok ops \<Longrightarrow> log_ok sha (run_audits sha ops)"
proof (induction ops rule: rev_induct)
  case Nil
  show ?case unfolding log_ok_def run_audits_def by (rule exI[of _ "[]"]) simp
next
  case (snoc op ops)
  then show ?case by (cases op) (simp add: run_audits_def op_ok_def audit_log_ok)
qed

text \<open>
  C26. What the runner writes, the verifier accepts: after any number of entries, with rotations and
  with failed appends and failed rotations among them, the log passes verification, as long as no
  append goes without its chain file and no event holds a NEL character.
\<close>

theorem audit_log_verifies:
  assumes "hex_digest sha" "list_all op_ok ops" "au_log (run_audits sha ops) = Some t"
  shows "cr_ok (verify_file sha (Some t))"
proof -
  obtain ds where ds: "linked sha GENESIS ds" "t = concat (map (\<lambda>l. l @ [LF]) (map (audit_line sha) ds))"
    using run_audits_ok[OF assms(1,2)] assms(3) by (auto simp: log_ok_def comp_def split: if_splits)
  have "CHR 0x85 \<notin> set GENESIS" by (simp add: GENESIS_def)
  note v = linked_lines[OF assms(1) ds(1) this, of 0]
  then have "splitlines t = map (audit_line sha) ds" unfolding ds(2) by (intro splitlines_lines) simp
  then show ?thesis using v by (simp add: verify_file_def)
qed

definition zero_digest :: "string \<Rightarrow> string" where
  "zero_digest _ = GENESIS"

definition good_io :: audit_io where
  "good_io = \<lparr>io_rename = True, io_unlink = True, io_append = True, io_chain = True\<rparr>"

theorem audit_log_verifies_witness:
  "\<exists>t. au_log (run_audits zero_digest [(good_io, ''t'', JStr ''a''), (good_io, ''t'', JInt 5)]) = Some t \<and>
     cr_ok (verify_file zero_digest (Some t))"
proof -
  let ?ops = "[(good_io, ''t'', JStr ''a''), (good_io, ''t'', JInt 5)]"
  have "hex_digest zero_digest" by (simp add: hex_digest_def zero_digest_def GENESIS_def list_all_iff is_digit_def)
  moreover have "list_all op_ok ?ops" by code_simp
  moreover have "au_log (run_audits zero_digest ?ops) \<noteq> None"
    by (auto simp: run_audits_def audit_def Let_def good_io_def)
  ultimately show ?thesis using audit_log_verifies by blast
qed

lemma splitlines_nel:
  "list_all (\<lambda>c. \<not> line_sep c) l \<Longrightarrow> splitlines_from cur (l @ CHR 0x85 # x) = (cur @ l) # splitlines_from [] x"
proof (induction l arbitrary: cur)
  case Nil
  have "line_sep (CHR 0x85)" "CHR 0x85 \<noteq> CHR 0x0D" by code_simp+
  then show ?case by (simp add: splitlines_from.simps[of cur "CHR 0x85 # x"])
next
  case (Cons c l)
  then show ?case by (simp add: splitlines_from.simps[of cur "c # l @ CHR 0x85 # x"])
qed

text \<open>
  One NEL character in an event breaks the log: it is written unescaped, but the verifier ends a line at it,
  so the log of a runner that did nothing wrong is reported as broken at that entry.
\<close>

theorem audit_nel_breaks:
  "verify_file sha (au_log (audit sha good_io ''t'' (JStr [CHR 0x85]) \<lparr>au_log = None, au_chain = None, au_rotated = None\<rparr>)) =
     broken_at 1 BadJson"
proof -
  define a where "a = CHR 0x7B # dump_str False ''ts'' @ '': '' @ dump_str False ''t'' @ '', '' @ dump_str False ''event'' @ '': '' @ [CHR 0x22]"
  let ?d = "chain_entry ''t'' (JStr [CHR 0x85]) GENESIS"
  obtain r where r: "audit_line sha ?d = a @ CHR 0x85 # r"
    by (simp add: a_def audit_line_def dumps_def chain_entry_def bracket_def nl_def fmt_default_def dump_str_def esc_ch_def)
  have "list_all (\<lambda>c. \<not> line_sep c) a" unfolding a_def by code_simp
  from splitlines_nel[OF this, of "[]" "r @ [LF]"]
  have "splitlines (audit_line sha ?d @ [LF]) = a # splitlines_from [] (r @ [LF])" by (simp add: r splitlines_def)
  moreover have "loads a = None" unfolding a_def by code_simp
  ultimately show ?thesis
    by (simp add: audit_def audit_rotate_def Let_def good_io_def verify_file_def broken_at_def)
qed

section \<open>Tampering\<close>

definition line_dict :: "string \<Rightarrow> (string \<times> json) list" where
  "line_dict line = (case loads line of Some (JObj d) \<Rightarrow> d | _ \<Rightarrow> [])"

definition hashed_text :: "string \<Rightarrow> string" where
  "hashed_text line = utf8 (dumps (fmt_default True) (sort_keys (JObj (payload (line_dict line)))))"

definition line_hash :: "string \<Rightarrow> json" where
  "line_hash line = obj_get (line_dict line) ''hash''"

lemma verify_ok_snoc:
  "cr_ok (verify_lines sha e n (ls @ [l])) \<Longrightarrow>
   cr_ok (verify_lines sha e n ls) \<and> line_hash l = JStr (sha (hashed_text l)) \<and>
   obj_get (line_dict l) ''prev'' = (if ls = [] then JStr e else line_hash (last ls))"
proof (induction ls arbitrary: e n)
  case Nil
  then show ?case
    by (auto simp: broken_at_def line_hash_def line_dict_def hashed_text_def rehash_def entry_hash_def
      split: option.splits json.splits if_splits)
next
  case (Cons m ls)
  then obtain d h where m: "loads m = Some (JObj d)" "obj_get d ''hash'' = JStr h" "rehash sha d = h" "obj_get d ''prev'' = JStr e"
    "cr_ok (verify_lines sha h (Suc n) (ls @ [l]))"
    by (auto simp: broken_at_def split: option.splits json.splits if_splits)
  then show ?case using Cons.IH[OF m(5)] by (auto simp: line_hash_def line_dict_def)
qed

lemma distinct_sort_key: "distinct (map fst (sort_key fst xs)) \<longleftrightarrow> distinct (map fst xs)" for xs :: "(string \<times> json) list"
  by (metis distinct_map distinct_sort set_sort)
lemma json_exact_sort_keys: "json_exact j \<Longrightarrow> json_exact (sort_keys j)"
proof (induction j rule: sort_keys.induct)
  case (1 xs)
  then show ?case by simp
next
  case (2 d)
  let ?f = "\<lambda>(k, v). (k, sort_keys v)"
  have keys: "map fst (map ?f d) = map fst d" by (simp add: case_prod_unfold comp_def)
  have dist: "distinct (map fst (sort_key fst (map ?f d)))" unfolding distinct_sort_key keys using 2(2) by simp
  have ex: "json_exact (snd q)" if q: "q \<in> set (sort_key fst (map ?f d))" for q
  proof -
    obtain k v where kv: "(k, v) \<in> set d" "q = (k, sort_keys v)" using q by auto
    have "\<forall>p \<in> set d. json_exact (snd p)" using 2(2) by simp
    from bspec[OF this kv(1)] have "json_exact v" by simp
    with 2(1)[OF kv(1) refl] kv(2) show ?thesis by simp
  qed
  show ?case unfolding sort_keys.simps json_exact.simps using dist ex by blast
qed simp_all
definition exact_line :: "string \<Rightarrow> bool" where
  "exact_line line \<longleftrightarrow> json_exact (JObj (line_dict line))"

lemma sort_keys_str: "sort_keys v = JStr s \<Longrightarrow> v = JStr s"
  by (cases v) auto

lemma hashed_text_prev:
  assumes "exact_line l" "exact_line m" "hashed_text l = hashed_text m" "obj_get (line_dict l) ''prev'' = JStr p"
  shows "obj_get (line_dict m) ''prev'' = JStr p"
proof -
  let ?P = "\<lambda>x. JObj (payload (line_dict x))"
  have ex: "json_exact (sort_keys (?P x))" if "exact_line x" for x
  proof (rule json_exact_sort_keys)
    show "json_exact (?P x)" using that by (auto simp: exact_line_def payload_def intro: distinct_map_filter)
  qed
  have "dumps (fmt_default True) (sort_keys (?P l)) = dumps (fmt_default True) (sort_keys (?P m))"
    using assms(3) by (simp add: hashed_text_def utf8_inj)
  then have "sort_keys (?P l) = sort_keys (?P m)"
    using loads_dumps[OF ex[OF assms(1)]] loads_dumps[OF ex[OF assms(2)]] by (metis fmt_ok_simps(1) option.inject)
  then have "set (sort_key fst (map (\<lambda>(k, v). (k, sort_keys v)) (payload (line_dict l)))) =
      set (sort_key fst (map (\<lambda>(k, v). (k, sort_keys v)) (payload (line_dict m))))" by simp
  then have same: "(\<lambda>(k, v). (k, sort_keys v)) ` set (payload (line_dict l)) = (\<lambda>(k, v). (k, sort_keys v)) ` set (payload (line_dict m))"
    by simp
  have "(''prev'', JStr p) \<in> set (payload (line_dict l))"
    using assms(4) by (auto simp: obj_get_def payload_def dest: map_of_SomeD split: option.splits)
  then have "(''prev'', JStr p) \<in> (\<lambda>(k, v). (k, sort_keys v)) ` set (payload (line_dict m))" using same by force
  then obtain v where "(''prev'', v) \<in> set (payload (line_dict m))" "sort_keys v = JStr p" by auto
  then have "(''prev'', JStr p) \<in> set (payload (line_dict m))" using sort_keys_str[of v p] by simp
  then have "(''prev'', JStr p) \<in> set (line_dict m)" by (simp add: payload_def)
  moreover have "distinct (map fst (line_dict m))" using assms(2) by (simp add: exact_line_def)
  ultimately have "map_of (line_dict m) ''prev'' = Some (JStr p)" by simp
  then show ?thesis by (simp add: obj_get_def)
qed



end
