(* ===== verification/Snapshot.thy ===== *)
theory Snapshot
  imports Profiles
begin

text \<open>
  The snapshot of the MCP servers behind the exposed ones (\<^verbatim>\<open>home/rdm/gateway/snapshot.py\<close>): built from
  the layers of the opencode configuration, pinned by digests, verified before a session spawns.
  A layer is its path with the text of the file, or \<^const>\<open>None\<close> when there is no such file (one that
  cannot be read counts as text that is no JSON: the error is the same); SHA-256 is a
  parameter. Paths are POSIX paths. Every \<^verbatim>\<open>GatewaySnapshotError\<close> is a value.
\<close>

section \<open>Data\<close>

record server_snapshot =
  sn_command :: string
  sn_args :: "string list"
  sn_env :: "(string \<times> string) list"
  sn_specifier :: string
  sn_sha256 :: string

type_synonym snapshot = "(string \<times> server_snapshot) list"

datatype snap_error =
    LayerInvalid string
  | LayerNotObject string
  | LayerMcpNotObject string
  | NoSpecifier string
  | EntryNotObject string
  | RemoteServer string
  | NotLocal string
  | BadCommand string
  | BadEnvironment string
  | Unpinned string string
  | MissingOrDisabled string
  | ServerNotObject string
  | ServerFields string
  | MalformedCommand string
  | MalformedEnv string
  | MalformedPins string
  | IntegrityFailed string
  | SnapNotFound
  | SnapUnreadable
  | SnapNotServers
  | NotPinned string
  | Drifted string
  | SnapMissing

definition PACKAGE_RUNNERS :: "string list" where
  "PACKAGE_RUNNERS = [''npx'', ''uvx'']"

definition RUNNER_SUFFIXES :: "string list" where
  "RUNNER_SUFFIXES = [''.exe'', ''.cmd'', ''.bat'']"

definition SERVER_FIELDS :: "string list" where
  "SERVER_FIELDS = [''command'', ''args'', ''env'', ''pins'']"

definition PIN_FIELDS :: "string list" where
  "PIN_FIELDS = [''specifier'', ''sha256'']"

section \<open>Layers\<close>

type_synonym layer = "string \<times> string option"

definition layer_paths :: "string option \<Rightarrow> string \<Rightarrow> string \<Rightarrow> string list" where
  "layer_paths xdg home project =
     (let root = (case xdg of Some x \<Rightarrow> if x = [] then path_join home ''.config'' else x | None \<Rightarrow> path_join home ''.config'') in
      [path_join (path_join root ''opencode'') ''opencode.json'', path_join project ''opencode.json'',
       path_join (path_join project ''.opencode'') ''opencode.json''])"

definition merge_layer :: "layer \<Rightarrow> (string, json \<times> string) dict \<Rightarrow> snap_error + (string, json \<times> string) dict" where
  "merge_layer l merged =
     (case snd l of
        None \<Rightarrow> Inr merged
      | Some text \<Rightarrow>
          (case loads text of
             None \<Rightarrow> Inl (LayerInvalid (fst l))
           | Some (JObj data) \<Rightarrow>
               (case obj_get data ''mcp'' of
                  JNull \<Rightarrow> Inr merged
                | JObj mcp \<Rightarrow> Inr (fold (\<lambda>(name, entry). dset name (entry, fst l)) mcp merged)
                | _ \<Rightarrow> Inl (LayerMcpNotObject (fst l)))
           | Some _ \<Rightarrow> Inl (LayerNotObject (fst l))))"

fun merge_from :: "layer list \<Rightarrow> (string, json \<times> string) dict \<Rightarrow> snap_error + (string, json \<times> string) dict" where
  "merge_from [] merged = Inr merged"
| "merge_from (l # ls) merged = rbind (merge_layer l merged) (merge_from ls)"

definition merged_layers :: "layer list \<Rightarrow> snap_error + (string, json \<times> string) dict" where
  "merged_layers layers = merge_from layers []"

section \<open>Building\<close>

text \<open>\<^verbatim>\<open>Path(command).name\<close>\<close>

definition path_name :: "string \<Rightarrow> string" where
  "path_name p =
     (case filter (\<lambda>s. s \<noteq> [] \<and> s \<noteq> ''.'') (split_str ''/'' p) of [] \<Rightarrow> [] | ps \<Rightarrow> last ps)"

definition runner_name :: "string \<Rightarrow> string" where
  "runner_name command =
     (let name = lower (path_name command) in
      case find (\<lambda>s. ends_with s name) RUNNER_SUFFIXES of
        None \<Rightarrow> name
      | Some s \<Rightarrow> take (length name - length s) name)"

definition package_spec :: "string list \<Rightarrow> string \<Rightarrow> snap_error + string" where
  "package_spec args name =
     (case find (\<lambda>a. \<not> starts_with ''-'' a) args of None \<Rightarrow> Inl (NoSpecifier name) | Some a \<Rightarrow> Inr a)"

definition env_json :: "(string \<times> string) list \<Rightarrow> json" where
  "env_json env = JObj (map (\<lambda>(k, v). (k, JStr v)) env)"

definition digest_text :: "string \<Rightarrow> string list \<Rightarrow> (string \<times> string) list \<Rightarrow> string" where
  "digest_text command args env =
     dumps (fmt_compact False) (sort_keys (JObj
       [(''args'', JArr (map JStr args)), (''command'', JStr command), (''env'', env_json env)]))"

definition digest :: "(string \<Rightarrow> string) \<Rightarrow> string \<Rightarrow> string list \<Rightarrow> (string \<times> string) list \<Rightarrow> string" where
  "digest sha command args env = sha (utf8 (digest_text command args env))"

definition str_items :: "json \<Rightarrow> string list option" where
  "str_items j = (case j of JArr xs \<Rightarrow>
     if list_all is_str xs then Some (map (\<lambda>x. case x of JStr s \<Rightarrow> s | _ \<Rightarrow> []) xs) else None | _ \<Rightarrow> None)"

definition str_values :: "json \<Rightarrow> (string \<times> string) list option" where
  "str_values j = (case j of JObj d \<Rightarrow>
     if list_all (\<lambda>(_, v). is_str v) d then Some (map (\<lambda>(k, v). (k, case v of JStr s \<Rightarrow> s | _ \<Rightarrow> [])) d) else None
   | _ \<Rightarrow> None)"

definition sorted_env :: "(string \<times> string) list \<Rightarrow> (string \<times> string) list" where
  "sorted_env env = sort_key fst env"

definition pinned :: "string \<Rightarrow> bool" where
  "pinned spec \<longleftrightarrow> CHR ''@'' \<in> set (if starts_with ''@'' spec then tl spec else spec)"

definition specifier_of :: "string \<Rightarrow> string list \<Rightarrow> string \<Rightarrow> snap_error + string" where
  "specifier_of command args name =
     (if runner_name command \<in> set PACKAGE_RUNNERS
      then rbind (package_spec args name) (\<lambda>spec. if pinned spec then Inr spec else Inl (Unpinned name spec))
      else Inr command)"

definition server_snap :: "(string \<Rightarrow> string) \<Rightarrow> string \<Rightarrow> json \<Rightarrow> snap_error + server_snapshot" where
  "server_snap sha name entry =
     (case entry of
        JObj d \<Rightarrow>
          if obj_get d ''type'' = JStr ''remote'' then Inl (RemoteServer name)
          else if obj_get d ''type'' \<noteq> JStr ''local'' then Inl (NotLocal name)
          else (case str_items (obj_get d ''command'') of
            Some (command # args) \<Rightarrow>
              (case str_values (if obj_get d ''environment'' = JNull then JObj [] else obj_get d ''environment'') of
                 None \<Rightarrow> Inl (BadEnvironment name)
               | Some env \<Rightarrow>
                   rbind (specifier_of command args name) (\<lambda>spec.
                     Inr \<lparr>sn_command = command, sn_args = args, sn_env = sorted_env env, sn_specifier = spec,
                          sn_sha256 = digest sha command args (sorted_env env)\<rparr>))
          | _ \<Rightarrow> Inl (BadCommand name))
      | _ \<Rightarrow> Inl (EntryNotObject name))"

definition disabled :: "json \<Rightarrow> bool" where
  "disabled entry \<longleftrightarrow> (case entry of JObj d \<Rightarrow> obj_get d ''enabled'' = JBool False | _ \<Rightarrow> False)"

definition build_one ::
  "(string \<Rightarrow> string) \<Rightarrow> (string, json \<times> string) dict \<Rightarrow> exposed_mcp \<Rightarrow> snap_error + string \<times> server_snapshot" where
  "build_one sha merged e =
     (case dget merged (em_name e) of
        None \<Rightarrow> Inl (MissingOrDisabled (em_name e))
      | Some (entry, _) \<Rightarrow>
          if disabled entry then Inl (MissingOrDisabled (em_name e))
          else rbind (server_snap sha (em_name e) entry) (\<lambda>s. Inr (em_name e, s)))"

definition build_snapshot :: "(string \<Rightarrow> string) \<Rightarrow> layer list \<Rightarrow> profile \<Rightarrow> snap_error + snapshot" where
  "build_snapshot sha layers p =
     rbind (merged_layers layers) (\<lambda>merged. rtraverse (build_one sha merged) (exposed_mcps p))"

section \<open>Saving and loading\<close>

definition server_json :: "server_snapshot \<Rightarrow> json" where
  "server_json s =
     JObj [(''command'', JStr (sn_command s)), (''args'', JArr (map JStr (sn_args s))), (''env'', env_json (sn_env s)),
       (''pins'', JObj [(''specifier'', JStr (sn_specifier s)), (''sha256'', JStr (sn_sha256 s))])]"

text \<open>The comprehension keeps the last server of a name, at the place of the first.\<close>

definition snapshot_json :: "snapshot \<Rightarrow> json" where
  "snapshot_json snap = JObj [(''servers'', JObj (dupdate [] (map (\<lambda>(n, s). (n, server_json s)) snap)))]"

definition save_text :: "snapshot \<Rightarrow> string" where
  "save_text snap = dumps (fmt_indent2 False) (snapshot_json snap) @ [CHR 0x0A]"

definition same_keys :: "(string \<times> json) list \<Rightarrow> string list \<Rightarrow> bool" where
  "same_keys d ks \<longleftrightarrow> list_all (\<lambda>k. k \<in> set ks) (map fst d) \<and> list_all (\<lambda>k. k \<in> fst ` set d) ks"

definition server_from_json :: "(string \<Rightarrow> string) \<Rightarrow> string \<times> json \<Rightarrow> snap_error + string \<times> server_snapshot" where
  "server_from_json sha ne =
     (let name = fst ne in
      case snd ne of
        JObj d \<Rightarrow>
          if \<not> same_keys d SERVER_FIELDS then Inl (ServerFields name)
          else (case (obj_get d ''command'', str_items (obj_get d ''args'')) of
            (JStr command, Some args) \<Rightarrow>
              (case str_values (obj_get d ''env'') of
                 None \<Rightarrow> Inl (MalformedEnv name)
               | Some env \<Rightarrow>
                   (case obj_get d ''pins'' of
                      JObj pins \<Rightarrow>
                        if \<not> same_keys pins PIN_FIELDS then Inl (MalformedPins name)
                        else (case (obj_get pins ''specifier'', obj_get pins ''sha256'') of
                          (JStr spec, JStr h) \<Rightarrow>
                            if digest sha command args (sorted_env env) \<noteq> h then Inl (IntegrityFailed name)
                            else Inr (name, \<lparr>sn_command = command, sn_args = args, sn_env = sorted_env env,
                              sn_specifier = spec, sn_sha256 = h\<rparr>)
                        | _ \<Rightarrow> Inl (MalformedPins name))
                    | _ \<Rightarrow> Inl (MalformedPins name)))
          | _ \<Rightarrow> Inl (MalformedCommand name))
      | _ \<Rightarrow> Inl (ServerNotObject name))"

text \<open>The file: absent, unreadable or its text.\<close>

datatype snap_file = FileAbsent | FileBroken | FileText string

definition load_snapshot :: "(string \<Rightarrow> string) \<Rightarrow> snap_file \<Rightarrow> snap_error + snapshot" where
  "load_snapshot sha f =
     (case f of
        FileAbsent \<Rightarrow> Inl SnapNotFound
      | FileBroken \<Rightarrow> Inl SnapUnreadable
      | FileText t \<Rightarrow>
          (case loads t of
             None \<Rightarrow> Inl SnapUnreadable
           | Some (JObj d) \<Rightarrow>
               if \<not> same_keys d [''servers''] then Inl SnapNotServers
               else (case obj_get d ''servers'' of
                 JObj servers \<Rightarrow> rtraverse (server_from_json sha) servers
               | _ \<Rightarrow> Inl SnapNotServers)
           | Some _ \<Rightarrow> Inl SnapNotServers))"

fun verify_servers :: "snapshot \<Rightarrow> snapshot \<Rightarrow> snap_error + unit" where
  "verify_servers saved [] = Inr ()"
| "verify_servers saved ((name, s) # rest) =
     (case dget (dupdate [] saved) name of
        None \<Rightarrow> Inl (NotPinned name)
      | Some s' \<Rightarrow> if s' \<noteq> s then Inl (Drifted name) else verify_servers saved rest)"

definition verify_snapshot :: "(string \<Rightarrow> string) \<Rightarrow> layer list \<Rightarrow> profile \<Rightarrow> snapshot \<Rightarrow> snap_error + unit" where
  "verify_snapshot sha layers p snap = rbind (build_snapshot sha layers p) (verify_servers snap)"

text \<open>The text that is written, with the snapshot.\<close>

definition save_snapshot :: "(string \<Rightarrow> string) \<Rightarrow> layer list \<Rightarrow> profile \<Rightarrow> snap_error + snapshot \<times> string" where
  "save_snapshot sha layers p = rbind (build_snapshot sha layers p) (\<lambda>s. Inr (s, save_text s))"

definition load_verified :: "(string \<Rightarrow> string) \<Rightarrow> layer list \<Rightarrow> profile \<Rightarrow> snap_file \<Rightarrow> snap_error + snapshot" where
  "load_verified sha layers p f =
     (if f = FileAbsent then (if exposed_mcps p \<noteq> [] then Inl SnapMissing else Inr [])
      else rbind (load_snapshot sha f) (\<lambda>s. rbind (verify_snapshot sha layers p s) (\<lambda>_. Inr s)))"

section \<open>Facts\<close>

lemma str_items_map [simp]: "str_items (JArr (map JStr xs)) = Some xs"
  by (simp add: str_items_def list_all_iff is_str_def comp_def)

lemma str_values_env [simp]: "str_values (env_json env) = Some env"
  by (simp add: str_values_def env_json_def list_all_iff is_str_def comp_def case_prod_unfold)

lemma sorted_env_idem [simp]: "sorted_env (sorted_env env) = sorted_env env"
  by (simp add: sorted_env_def sort_key_id_if_sorted)

definition server_ok :: "(string \<Rightarrow> string) \<Rightarrow> server_snapshot \<Rightarrow> bool" where
  "server_ok sha s \<longleftrightarrow> sorted_env (sn_env s) = sn_env s \<and> sn_sha256 s = digest sha (sn_command s) (sn_args s) (sn_env s)"

definition env_distinct :: "snapshot \<Rightarrow> bool" where
  "env_distinct snap \<longleftrightarrow> list_all (\<lambda>(_, s). distinct (map fst (sn_env s))) snap"

lemma server_roundtrip: "server_ok sha s \<Longrightarrow> server_from_json sha (n, server_json s) = Inr (n, s)"
  by (cases s) (simp add: server_from_json_def server_json_def same_keys_def SERVER_FIELDS_def PIN_FIELDS_def
    obj_get_def server_ok_def)

lemma snapshot_json_distinct:
  assumes "distinct (map fst snap)"
  shows "snapshot_json snap = JObj [(''servers'', JObj (map (\<lambda>(n, s). (n, server_json s)) snap))]"
proof -
  have "map fst (map (\<lambda>(n, s). (n, server_json s)) snap) = map fst snap" by (simp add: case_prod_unfold comp_def)
  with assms have "distinct (map fst ([] @ map (\<lambda>(n, s). (n, server_json s)) snap))" by (simp del: map_map)
  from dupdate_append[OF this] show ?thesis by (simp add: snapshot_json_def)
qed

lemma env_json_exact: "distinct (map fst env) \<Longrightarrow> json_exact (env_json env)"
  by (auto simp: env_json_def case_prod_unfold comp_def)

lemma snapshot_json_exact:
  assumes "distinct (map fst snap)" "env_distinct snap"
  shows "json_exact (snapshot_json snap)"
proof -
  have "json_exact (server_json s)" if "(n, s) \<in> set snap" for n s
    using that assms(2) env_json_exact[of "sn_env s"] by (auto simp: server_json_def env_distinct_def list_all_iff)
  moreover have "map fst (map (\<lambda>(n, s). (n, server_json s)) snap) = map fst snap" by (simp add: case_prod_unfold comp_def)
  ultimately show ?thesis unfolding snapshot_json_distinct[OF assms(1)] using assms(1) by (auto simp del: map_map)
qed

lemma load_save:
  assumes "distinct (map fst snap)" "env_distinct snap" "list_all (\<lambda>(_, s). server_ok sha s) snap"
  shows "load_snapshot sha (FileText (save_text snap)) = Inr snap"
proof -
  have "loads (save_text snap) = Some (snapshot_json snap)"
    unfolding save_text_def by (rule loads_dumps_ws[OF snapshot_json_exact[OF assms(1,2)]]) (auto simp: jws_def)
  moreover have "rtraverse (server_from_json sha) (map (\<lambda>(n, s). (n, server_json s)) snap) = Inr snap"
    using assms(3) by (induction snap) (auto simp: server_roundtrip)
  ultimately show ?thesis
    by (simp add: load_snapshot_def snapshot_json_distinct[OF assms(1)] same_keys_def obj_get_def)
qed

lemma build_one_Inr:
  "build_one sha merged e = Inr (n, s) \<Longrightarrow> n = em_name e \<and> (\<exists>entry layer. dget merged n = Some (entry, layer) \<and>
     \<not> disabled entry \<and> server_snap sha n entry = Inr s)"
  by (auto simp: build_one_def res_iff split: option.splits if_splits)

lemma server_snap_ok: "server_snap sha n entry = Inr s \<Longrightarrow> server_ok sha s \<and>
    (runner_name (sn_command s) \<in> set PACKAGE_RUNNERS \<longrightarrow> pinned (sn_specifier s))"
  by (auto simp: server_snap_def server_ok_def specifier_of_def res_iff split: json.splits if_splits option.splits list.splits)

lemma build_snapshot_Inr:
  assumes "build_snapshot sha layers p = Inr snap"
  obtains merged where "merged_layers layers = Inr merged" "map fst snap = map em_name (exposed_mcps p)"
    "list_all2 (\<lambda>e ns. build_one sha merged e = Inr ns) (exposed_mcps p) snap"
proof -
  from assms obtain merged where m: "merged_layers layers = Inr merged"
    "list_all2 (\<lambda>e ns. build_one sha merged e = Inr ns) (exposed_mcps p) snap"
    by (auto simp: build_snapshot_def res_iff)
  moreover have "map fst snap = map em_name (exposed_mcps p)"
    using m(2) by (induction rule: list_all2_induct) (auto dest!: build_one_Inr)
  ultimately show ?thesis using that by blast
qed

section \<open>Properties\<close>

text \<open>
  What is saved loads back: a snapshot built from the configuration, written to its file and read
  again, is the same snapshot, passes the integrity check of every server and the comparison with
  the configuration it was built from. (Names of exposed servers are distinct in a valid profile,
  and the names of environment variables in a parsed object are.)
\<close>

theorem snapshot_roundtrip:
  assumes "save_snapshot sha layers p = Inr (snap, text)"
    and "distinct (map em_name (exposed_mcps p))" "env_distinct snap"
  shows "load_verified sha layers p (FileText text) = Inr snap"
proof -
  have b: "build_snapshot sha layers p = Inr snap" "text = save_text snap"
    using assms(1) by (auto simp: save_snapshot_def res_iff)
  from b(1) obtain merged where m: "map fst snap = map em_name (exposed_mcps p)"
    "list_all2 (\<lambda>e ns. build_one sha merged e = Inr ns) (exposed_mcps p) snap" by (rule build_snapshot_Inr)
  have d: "distinct (map fst snap)" using m(1) assms(2) by simp
  have ok: "list_all (\<lambda>(_, s). server_ok sha s) snap"
    using m(2) by (induction rule: list_all2_induct) (auto dest!: build_one_Inr server_snap_ok)
  have "verify_servers snap ss = Inr ()" if "set ss \<subseteq> set snap" for ss
    using that d dupdate_append[of "[]" snap] by (induction ss) (auto simp: split_beta)
  then have "verify_snapshot sha layers p snap = Inr ()" using b(1) by (simp add: verify_snapshot_def)
  then show ?thesis by (simp add: load_verified_def b(2) load_save[OF d assms(3) ok])
qed

definition sample_layers :: "layer list" where
  "sample_layers = [(''/g'', Some (dumps (fmt_compact False) (JObj [(''mcp'', JObj [(''ctx'', JObj [(''type'', JStr ''local''),
     (''command'', JArr [JStr ''npx'', JStr ''-y'', JStr ''ctx@1.2''])])])]))), (''/p'', None)]"

definition exposing_profile :: profile where
  "exposing_profile = \<lparr>project_dir = ''/w'', toolchain = [], git_name = [], git_email = [], preview_origin = [], mode = [],
     ui_port = None, host_services = [], runner_commands = [], runner_port = None, allowed_ports = [], port_ranges = [],
     port_deny = [], deny_mounts = [], setup_cmds = [], scripts = [], gateway_port = None,
     exposed_mcps = [\<lparr>em_name = ''ctx'', em_mode = ''readonly'', em_tool_allow = [''q'']\<rparr>]\<rparr>"

definition sample_snapshot :: snapshot where
  "sample_snapshot = [(''ctx'', \<lparr>sn_command = ''npx'', sn_args = [''-y'', ''ctx@1.2''], sn_env = [], sn_specifier = ''ctx@1.2'',
     sn_sha256 = ''00''\<rparr>)]"

lemma sample_build: "build_snapshot (\<lambda>_. ''00'') sample_layers exposing_profile = Inr sample_snapshot"
  "merged_layers sample_layers \<noteq> Inl e"
  by code_simp+

lemma dupdate_dget_mem:
  assumes "dget (dupdate [] kvs) k = Some v"
  shows "(k, v) \<in> set kvs"
proof -
  have "dget (fold (\<lambda>(k, v). dset k v) kvs d) k = Some v \<Longrightarrow> (k, v) \<in> set kvs \<or> dget d k = Some v" for d
    by (induction kvs arbitrary: d) (force split: prod.splits if_splits)+
  from this[of "[]"] show ?thesis using assms by (auto simp: dupdate_def)
qed

lemma verify_servers_mem: "verify_servers saved ss = Inr () \<Longrightarrow> set ss \<subseteq> set saved"
  by (induction saved ss rule: verify_servers.induct) (auto split: option.splits if_splits dest: dupdate_dget_mem)

text \<open>
  C28. What a session spawns for an exposed server is what the owner pinned and what the configuration says
  now: a snapshot that is loaded and verified holds, for every exposed server, exactly the server
  that its enabled entry in the configuration gives; a server that runs a package runner names a
  package with a version.
\<close>

theorem load_verified_pins:
  assumes "load_verified sha layers p (FileText text) = Inr snap" "e \<in> set (exposed_mcps p)"
  shows "\<exists>merged entry layer s. merged_layers layers = Inr merged \<and> dget merged (em_name e) = Some (entry, layer) \<and>
    \<not> disabled entry \<and> server_snap sha (em_name e) entry = Inr s \<and> (em_name e, s) \<in> set snap \<and>
    (runner_name (sn_command s) \<in> set PACKAGE_RUNNERS \<longrightarrow> pinned (sn_specifier s))"
proof -
  from assms(1) obtain cur where c: "build_snapshot sha layers p = Inr cur" "verify_servers snap cur = Inr ()"
    by (auto simp: load_verified_def verify_snapshot_def res_iff)
  from c(1) obtain merged where m: "merged_layers layers = Inr merged"
    "list_all2 (\<lambda>e ns. build_one sha merged e = Inr ns) (exposed_mcps p) cur" by (rule build_snapshot_Inr)
  from assms(2) obtain i where "i < length (exposed_mcps p)" "e = exposed_mcps p ! i" by (auto simp: in_set_conv_nth)
  with m(2) have "cur ! i \<in> set cur" "build_one sha merged e = Inr (cur ! i)" by (auto simp: list_all2_conv_all_nth)
  then obtain ns where "ns \<in> set cur" "build_one sha merged e = Inr ns" by blast
  then obtain s where "(em_name e, s) \<in> set cur" "build_one sha merged e = Inr (em_name e, s)"
    using build_one_Inr[of sha merged e "fst ns" "snd ns"] by (metis prod.collapse)
  with build_one_Inr[of sha merged e "em_name e" s] m(1) verify_servers_mem[OF c(2)] show ?thesis
    by (auto dest: server_snap_ok)
qed

theorem load_verified_pins_witness: "\<exists>s. (''ctx'', s) \<in> set sample_snapshot \<and> pinned (sn_specifier s)"
proof -
  have "build_snapshot (\<lambda>_. ''00'') sample_layers exposing_profile = Inr sample_snapshot" "sorted_env [] = []"
    by (rule sample_build) (simp add: sorted_env_def)
  moreover have "load_snapshot (\<lambda>_. ''00'') (FileText (save_text sample_snapshot)) = Inr sample_snapshot"
    by (rule load_save) (simp_all add: sample_snapshot_def env_distinct_def server_ok_def digest_def sorted_env_def)
  moreover have "verify_servers sample_snapshot sample_snapshot = Inr ()" by code_simp
  ultimately have l: "load_verified (\<lambda>_. ''00'') sample_layers exposing_profile (FileText (save_text sample_snapshot)) = Inr sample_snapshot"
    by (simp add: load_verified_def verify_snapshot_def)
  have e: "\<lparr>em_name = ''ctx'', em_mode = ''readonly'', em_tool_allow = [''q'']\<rparr> \<in> set (exposed_mcps exposing_profile)"
    by (simp add: exposing_profile_def)
  from load_verified_pins[OF l e] obtain s where s: "(''ctx'', s) \<in> set sample_snapshot"
    "runner_name (sn_command s) \<in> set PACKAGE_RUNNERS \<longrightarrow> pinned (sn_specifier s)" by auto
  then have "sn_command s = ''npx''" by (auto simp: sample_snapshot_def)
  moreover have "runner_name ''npx'' \<in> set PACKAGE_RUNNERS" by code_simp
  ultimately show ?thesis using s by auto
qed

text \<open>
  A server that is no longer exposed is still started: with no exposed server left, the old snapshot
  passes verification unchanged, and every server in it is spawned with its saved environment.
\<close>

theorem stale_snapshot_spawns:
  assumes "merged_layers layers = Inr merged" "exposed_mcps p = []"
    and "distinct (map fst snap)" "env_distinct snap" "list_all (\<lambda>(_, s). server_ok sha s) snap"
  shows "load_verified sha layers p (FileText (save_text snap)) = Inr snap"
  using load_save[OF assms(3-5)] assms(1,2)
  by (simp add: load_verified_def verify_snapshot_def build_snapshot_def)

end
