(* ===== verification/GatewaySession.thy ===== *)
theory GatewaySession
  imports GatewayPolicy Snapshot Events
begin

text \<open>
  Sessions of the MCP gateway (\<^verbatim>\<open>home/rdm/gateway/sessions.py\<close>) and the dispatch of a tool call
  (\<^verbatim>\<open>home/rdm/gateway/dispatch.py\<close>). A child is what the session reads of it; what it answers to a
  request is a parameter. A call that is under way has registered itself in the session and has not
  returned yet, so a call is a beginning and an end; \<open>call_tool\<close> composes the two. Creation of a
  session is split in the same way, at the lock. Times are in whole seconds.
\<close>

section \<open>Data\<close>

record session_policy =
  sp_allowlists :: "(string, string list) dict"
  sp_project_dir :: "string option"

record child =
  ch_live :: bool
  ch_tools :: "json list"
  ch_capabilities :: "(string \<times> json) list"

record call_result =
  cr_content :: "json list"
  cr_is_error :: bool
  cr_truncated :: bool

record session =
  ss_id :: string
  ss_children :: "(string, child) dict"
  ss_registry :: "(string, string) dict"
  ss_tool_defs :: "(string, string \<times> string \<times> json) dict"
  ss_pending :: "(json, string) dict"
  ss_counter :: int
  ss_stamp :: int
  ss_closed :: bool
  ss_instructions :: string
  ss_capabilities :: json

definition MAX_TEXT_ITEM_CHARS :: nat where
  "MAX_TEXT_ITEM_CHARS = 1000000"

definition session_check :: "session_policy \<Rightarrow> string \<Rightarrow> string \<Rightarrow> (string \<times> json) list \<Rightarrow> call_verdict" where
  "session_check pol server tool args =
     check_call server tool (dget (sp_allowlists pol) server) (Some args) (sp_project_dir pol)"

definition new_session :: "string \<Rightarrow> int \<Rightarrow> session" where
  "new_session i now = \<lparr>ss_id = i, ss_children = [], ss_registry = [], ss_tool_defs = [], ss_pending = [], ss_counter = 0,
     ss_stamp = now, ss_closed = False, ss_instructions = [], ss_capabilities = JObj []\<rparr>"

definition instructions_of :: "(string, child) dict \<Rightarrow> string" where
  "instructions_of children =
     (let names = py_join '', '' (sort (dkeys children)) in
      if names = [] then ''No MCP servers are exposed.''
      else ''Exposed MCP servers: '' @ names @ ''. Tools are exposed as <server>__<tool>.'')"

definition merge_flags :: "(string \<times> json) list \<Rightarrow> (string \<times> json) list \<Rightarrow> (string \<times> json) list" where
  "merge_flags entry flags =
     fold (\<lambda>(flag, v) fl. case v of JBool b \<Rightarrow> dset flag (JBool (obj_get fl flag = JBool True \<or> b)) fl | _ \<Rightarrow> fl) entry flags"

definition merge_capabilities :: "(string, child) dict \<Rightarrow> json" where
  "merge_capabilities children =
     (let entries = filter (\<lambda>e. e \<noteq> JNull) (map (\<lambda>(_, c). obj_get (ch_capabilities c) ''tools'') children);
          flags = fold (\<lambda>e fl. case e of JObj d \<Rightarrow> merge_flags d fl | _ \<Rightarrow> fl) entries [] in
      if entries = [] then JObj [] else JObj [(''tools'', JObj flags)])"

section \<open>Registration\<close>

text \<open>One tool of a child: \<^const>\<open>None\<close> when it is not an object, which raises.\<close>

definition register_tool ::
  "session_policy \<Rightarrow> string \<Rightarrow> json \<Rightarrow> (string, string \<times> string \<times> json) dict \<times> string list \<Rightarrow>
     ((string, string \<times> string \<times> json) dict \<times> string list) option" where
  "register_tool pol server tool acc =
     (case tool of
        JObj d \<Rightarrow>
          (case obj_get d ''name'' of
             JStr name \<Rightarrow>
               if name \<notin> set (dget_or (sp_allowlists pol) server []) \<or> name \<in> set META_TOOL_DENY then Some acc
               else let exposed = exposed_tool_name server name;
                        schema = (if truthy (obj_get d ''inputSchema'') then obj_get d ''inputSchema'' else JObj []) in
                 Some (dset exposed (server, name, schema) (fst acc), snd acc @ [exposed])
           | _ \<Rightarrow> Some acc)
      | _ \<Rightarrow> None)"

fun register_child ::
  "session_policy \<Rightarrow> string \<Rightarrow> json list \<Rightarrow> (string, string \<times> string \<times> json) dict \<times> string list \<Rightarrow>
     ((string, string \<times> string \<times> json) dict \<times> string list) option" where
  "register_child pol server [] acc = Some acc"
| "register_child pol server (t # ts) acc =
     (case register_tool pol server t acc of None \<Rightarrow> None | Some acc' \<Rightarrow> register_child pol server ts acc')"

fun register_all ::
  "session_policy \<Rightarrow> (string, child) dict \<Rightarrow> (string, string \<times> string \<times> json) dict \<times> string list \<Rightarrow>
     ((string, string \<times> string \<times> json) dict \<times> string list) option" where
  "register_all pol [] acc = Some acc"
| "register_all pol ((server, c) # cs) acc =
     (case register_child pol server (ch_tools c) acc of None \<Rightarrow> None | Some acc' \<Rightarrow> register_all pol cs acc')"

definition register_session :: "session_policy \<Rightarrow> (string, child) dict \<Rightarrow> session \<Rightarrow> session option" where
  "register_session pol children s =
     (case register_all pol children (ss_tool_defs s, []) of
        None \<Rightarrow> None
      | Some (defs, exposed) \<Rightarrow>
          Some (s\<lparr>ss_children := children, ss_tool_defs := defs, ss_registry := register_tools exposed,
                  ss_instructions := instructions_of children, ss_capabilities := merge_capabilities children\<rparr>))"

definition child_live :: "session \<Rightarrow> string \<Rightarrow> bool" where
  "child_live s server = (case dget (ss_children s) server of None \<Rightarrow> False | Some c \<Rightarrow> ch_live c)"

definition list_tools :: "session \<Rightarrow> (string \<times> string \<times> string \<times> json) list" where
  "list_tools s =
     concat (map (\<lambda>(registered, exposed).
       case dget (ss_tool_defs s) exposed of
         None \<Rightarrow> []
       | Some (server, tool, schema) \<Rightarrow> if child_live s server then [(registered, server, tool, schema)] else [])
     (ss_registry s))"

section \<open>Calls\<close>

definition error_result :: "string \<Rightarrow> call_result" where
  "error_result why =
     \<lparr>cr_content = [JObj [(''type'', JStr ''text''), (''text'', JStr why)]], cr_is_error = True, cr_truncated = False\<rparr>"

text \<open>\<^verbatim>\<open>list(x)\<close> for a true value: \<^const>\<open>None\<close> raises.\<close>

definition py_list :: "json \<Rightarrow> json list option" where
  "py_list j = (if \<not> truthy j then Some [] else case j of
      JArr xs \<Rightarrow> Some xs | JStr s \<Rightarrow> Some (map (\<lambda>c. JStr [c]) s) | JObj d \<Rightarrow> Some (map (JStr \<circ> fst) d) | _ \<Rightarrow> None)"

definition text_of :: "json \<Rightarrow> string option" where
  "text_of item =
     (case item of
        JObj d \<Rightarrow> if obj_get d ''type'' = JStr ''text'' then (case obj_get d ''text'' of JStr t \<Rightarrow> Some t | _ \<Rightarrow> None) else None
      | _ \<Rightarrow> None)"

definition set_text :: "string \<Rightarrow> json \<Rightarrow> json" where
  "set_text t item = (case item of JObj d \<Rightarrow> JObj (dset ''text'' (JStr t) d) | _ \<Rightarrow> item)"

definition too_long :: "nat \<Rightarrow> json \<Rightarrow> bool" where
  "too_long n item = (case text_of item of None \<Rightarrow> False | Some t \<Rightarrow> n < length t)"

definition cut_text :: "nat \<Rightarrow> json \<Rightarrow> json" where
  "cut_text n item = (case text_of item of None \<Rightarrow> item | Some t \<Rightarrow> if n < length t then set_text (take n t) item else item)"

definition from_upstream_result :: "json \<Rightarrow> call_result option" where
  "from_upstream_result result =
     (case result of
        JObj d \<Rightarrow>
          (case py_list (obj_get d ''content'') of
             None \<Rightarrow> None
           | Some content \<Rightarrow>
               Some \<lparr>cr_content = map (cut_text MAX_TEXT_ITEM_CHARS) content, cr_is_error = truthy (obj_get d ''isError''),
                 cr_truncated = list_ex (too_long MAX_TEXT_ITEM_CHARS) content\<rparr>)
      | _ \<Rightarrow> None)"

text \<open>The id under which a call waits, the child, and the parameters of the request.\<close>

record started =
  st_call_id :: json
  st_server :: string
  st_params :: json

definition call_begin ::
  "session_policy \<Rightarrow> int \<Rightarrow> string \<Rightarrow> (string \<times> json) list \<Rightarrow> json \<Rightarrow> json \<Rightarrow> session \<Rightarrow> (call_result + started) \<times> session" where
  "call_begin pol now exposed args progress rpc_id s0 =
     (let s = s0\<lparr>ss_stamp := now\<rparr> in
      case parse_exposed_tool_name (dget_or (ss_registry s) exposed exposed) of
        None \<Rightarrow> (Inl (error_result ''unknown tool''), s)
      | Some (server, tool) \<Rightarrow>
          let verdict = session_check pol server tool args in
          if verdict \<noteq> CallOk then (Inl (error_result (reason_str verdict)), s)
          else if \<not> child_live s server then (Inl (error_result (''server unavailable: '' @ server)), s)
          else let params = [(''name'', JStr tool), (''arguments'', JObj args)] @
                     (if progress \<noteq> JNull then [(''_meta'', JObj [(''progressToken'', progress)])] else []);
                   counter = (if rpc_id \<noteq> JNull then ss_counter s else ss_counter s + 1);
                   call_id = (if rpc_id \<noteq> JNull then rpc_id else JInt counter) in
            (Inr \<lparr>st_call_id = call_id, st_server = server, st_params = JObj params\<rparr>,
             s\<lparr>ss_counter := counter, ss_pending := dset call_id server (ss_pending s)\<rparr>))"

text \<open>\<open>answer\<close> is the error text of an \<^verbatim>\<open>UpstreamError\<close> or the result; the outcome \<^const>\<open>None\<close> raises.\<close>

definition call_end :: "json \<Rightarrow> string + json \<Rightarrow> session \<Rightarrow> call_result option \<times> session" where
  "call_end call_id answer s =
     (case answer of Inl e \<Rightarrow> Some (error_result e) | Inr r \<Rightarrow> from_upstream_result r,
      s\<lparr>ss_pending := ddel call_id (ss_pending s)\<rparr>)"

definition call_tool ::
  "session_policy \<Rightarrow> (string \<Rightarrow> json \<Rightarrow> string + json) \<Rightarrow> int \<Rightarrow> string \<Rightarrow> (string \<times> json) list \<Rightarrow> json \<Rightarrow> json \<Rightarrow> session \<Rightarrow>
     call_result option \<times> session" where
  "call_tool pol upstream now exposed args progress rpc_id s =
     (case call_begin pol now exposed args progress rpc_id s of
        (Inl r, s1) \<Rightarrow> (Some r, s1)
      | (Inr st, s1) \<Rightarrow> call_end (st_call_id st) (upstream (st_server st) (st_params st)) s1)"

text \<open>\<^verbatim>\<open>cancel\<close>: the child and its request in flight that are told to stop; \<open>inflight\<close> reads a child.\<close>

definition cancel :: "(string \<Rightarrow> json option) \<Rightarrow> json \<Rightarrow> session \<Rightarrow> (string \<times> json) option" where
  "cancel inflight rpc_id s =
     (case dget (ss_pending s) rpc_id of
        None \<Rightarrow> None
      | Some server \<Rightarrow> map_option (Pair server) (inflight server))"

section \<open>The manager\<close>

record manager =
  mg_max :: nat
  mg_idle :: int
  mg_sessions :: "(string, session) dict"
  mg_creating :: nat
  mg_next :: nat

definition new_manager :: "nat \<Rightarrow> int \<Rightarrow> manager" where
  "new_manager m idle = \<lparr>mg_max = m, mg_idle = idle, mg_sessions = [], mg_creating = 0, mg_next = 1\<rparr>"

definition session_name :: "nat \<Rightarrow> string" where
  "session_name n = ''sess-'' @ nat_str n"

definition create_begin :: "manager \<Rightarrow> string option \<times> manager" where
  "create_begin m =
     (if mg_max m \<le> length (mg_sessions m) + mg_creating m then (None, m)
      else (Some (session_name (mg_next m)), m\<lparr>mg_creating := mg_creating m + 1, mg_next := mg_next m + 1\<rparr>))"

definition create_end :: "session option \<Rightarrow> manager \<Rightarrow> manager" where
  "create_end r m =
     (let m1 = m\<lparr>mg_creating := mg_creating m - 1\<rparr> in
      case r of None \<Rightarrow> m1 | Some s \<Rightarrow> m1\<lparr>mg_sessions := dset (ss_id s) s (mg_sessions m1)\<rparr>)"

datatype create_error = SessionLimit | CreateFailed

text \<open>\<open>spawn i\<close> loads the snapshot and starts the children of session \<open>i\<close>: \<^const>\<open>None\<close> raises.\<close>

definition create_session ::
  "session_policy \<Rightarrow> (string \<Rightarrow> (string, child) dict option) \<Rightarrow> int \<Rightarrow> manager \<Rightarrow> (create_error + session) \<times> manager" where
  "create_session pol spawn now m =
     (case create_begin m of
        (None, m1) \<Rightarrow> (Inl SessionLimit, m1)
      | (Some i, m1) \<Rightarrow>
          (case (case spawn i of None \<Rightarrow> None | Some cs \<Rightarrow> register_session pol cs (new_session i now)) of
             None \<Rightarrow> (Inl CreateFailed, create_end None m1)
           | Some s \<Rightarrow> (Inr s, create_end (Some s) m1)))"

definition manager_get :: "manager \<Rightarrow> string \<Rightarrow> session option" where
  "manager_get m i = dget (mg_sessions m) i"

definition mgr_drop :: "string \<Rightarrow> manager \<Rightarrow> manager" where
  "mgr_drop i m = m\<lparr>mg_sessions := ddel i (mg_sessions m)\<rparr>"

text \<open>\<^verbatim>\<open>Session.close\<close> calls \<^verbatim>\<open>_drop\<close>; the session itself is not reachable afterwards.\<close>

definition close_sessions :: "string list \<Rightarrow> manager \<Rightarrow> manager" where
  "close_sessions ids m = fold mgr_drop ids m"

definition reap_idle :: "int \<Rightarrow> manager \<Rightarrow> manager" where
  "reap_idle now m =
     close_sessions (map fst (filter (\<lambda>(_, s). mg_idle m < now - ss_stamp s) (mg_sessions m))) m"

definition close_all :: "manager \<Rightarrow> manager" where
  "close_all m = close_sessions (dkeys (mg_sessions m)) m"

section \<open>Dispatch\<close>

definition is_resource_link :: "json \<Rightarrow> bool" where
  "is_resource_link item \<longleftrightarrow> (case item of JObj d \<Rightarrow> obj_get d ''type'' = JStr ''resource_link'' | _ \<Rightarrow> False)"

definition strip_resource_links :: "json list \<Rightarrow> json list" where
  "strip_resource_links content = filter (\<lambda>i. \<not> is_resource_link i) content"

definition DENY_REASONS :: "string list" where
  "DENY_REASONS = [''tool-not-allowed'', ''meta-tool-deny'', ''default-deny'', ''empty-allowlist'', ''arg-outside-project'']"

definition first_text :: "json list \<Rightarrow> string" where
  "first_text content = (case List.map_filter text_of content of [] \<Rightarrow> [] | t # _ \<Rightarrow> t)"

definition status_of :: "call_result \<Rightarrow> string" where
  "status_of r =
     (if \<not> cr_is_error r then ''ok''
      else let why = first_text (cr_content r) in
        if why \<in> set DENY_REASONS then ''denied''
        else if why \<in> {''unknown tool'', ''unknown-tool''} \<or> starts_with ''server unavailable'' why \<or>
          starts_with ''server-unavailable'' why then ''unavailable''
        else ''error'')"

definition audit_event :: "string \<Rightarrow> string \<Rightarrow> string \<Rightarrow> json \<Rightarrow> string \<Rightarrow> int \<Rightarrow> int \<Rightarrow> bool \<Rightarrow> event" where
  "audit_event sid server tool rpc_id status latency out trunc =
     map (\<lambda>(k, v). (k, redact_value v))
       [(''kind'', JStr ''gateway''), (''session'', JStr sid), (''server'', JStr server), (''tool'', JStr tool),
        (''rpc_id'', rpc_id), (''status'', JStr status), (''latency_ms'', JInt latency), (''bytes'', JInt out),
        (''truncated'', JBool trunc)]"

text \<open>\<^verbatim>\<open>dispatch.call\<close>: it does not hand the id of the request to the session.\<close>

definition dispatch_result :: "string \<Rightarrow> string \<Rightarrow> json \<Rightarrow> int \<Rightarrow> call_result \<Rightarrow> call_result \<times> event" where
  "dispatch_result sid exposed rpc_id latency r =
     (let content = strip_resource_links (cr_content r);
          (server, _, tool) = py_partition ''__'' exposed in
      (r\<lparr>cr_content := content\<rparr>,
       audit_event sid server tool rpc_id (status_of r) latency
         (int (length (dumps (fmt_default False) (JArr content)))) (cr_truncated r)))"

definition dispatch_call ::
  "session_policy \<Rightarrow> (string \<Rightarrow> json \<Rightarrow> string + json) \<Rightarrow> int \<Rightarrow> int \<Rightarrow> string \<Rightarrow> (string \<times> json) list \<Rightarrow> json \<Rightarrow> json \<Rightarrow> session \<Rightarrow>
     (call_result \<times> event) option \<times> session" where
  "dispatch_call pol upstream now latency exposed args progress rpc_id s =
     (case call_tool pol upstream now exposed args progress JNull s of
        (r, s1) \<Rightarrow> (map_option (dispatch_result (ss_id s) exposed rpc_id latency) r, s1))"

section \<open>Session stores\<close>

text \<open>What the server relies on: a new session has an id never handed out before, and a closed one is gone.\<close>

locale session_store =
  fixes get :: "'m \<Rightarrow> string \<Rightarrow> 's option"
    and create :: "'a \<Rightarrow> 'm \<Rightarrow> (string \<times> 's) option \<times> 'm"
    and close :: "string \<Rightarrow> 'm \<Rightarrow> 'm"
    and born :: "'m \<Rightarrow> string \<Rightarrow> bool"
    and inv :: "'m \<Rightarrow> bool"
  assumes create_Some: "inv m \<Longrightarrow> create a m = (Some (i, s), m') \<Longrightarrow> \<not> born m i \<and> inv m' \<and>
      get m' = (get m)(i := Some s) \<and> (\<forall>j. born m' j \<longleftrightarrow> j = i \<or> born m j)"
    and create_None: "inv m \<Longrightarrow> create a m = (None, m') \<Longrightarrow> inv m' \<and> get m' = get m \<and> (\<forall>j. born m j \<longrightarrow> born m' j)"
    and close: "inv m \<Longrightarrow> inv (close i m) \<and> get (close i m) = (get m)(i := None) \<and> (\<forall>j. born (close i m) j \<longleftrightarrow> born m j)"
begin

fun run_ops :: "('a + string) list \<Rightarrow> 'm \<Rightarrow> 'm" where
  "run_ops [] m = m"
| "run_ops (Inl a # ops) m = run_ops ops (snd (create a m))"
| "run_ops (Inr i # ops) m = run_ops ops (close i m)"

lemma create_keeps:
  assumes "inv m" "born m i" "get m i = None"
  shows "inv (snd (create a m)) \<and> born (snd (create a m)) i \<and> get (snd (create a m)) i = None"
proof (cases "create a m")
  case (Pair r m')
  then show ?thesis
  proof (cases r)
    case None
    with Pair assms create_None show ?thesis by auto
  next
    case (Some p)
    obtain k s where "p = (k, s)" by (cases p)
    with Pair Some assms create_Some[of m a k s m'] show ?thesis by auto
  qed
qed

lemma dead_stays_dead: "inv m \<Longrightarrow> born m i \<Longrightarrow> get m i = None \<Longrightarrow> get (run_ops ops m) i = None"
  by (induction ops m rule: run_ops.induct) (use create_keeps close in auto)

end

definition create_for ::
  "session_policy \<times> (string \<Rightarrow> (string, child) dict option) \<times> int \<Rightarrow> manager \<Rightarrow> (string \<times> session) option \<times> manager" where
  "create_for a m =
     (case create_session (fst a) (fst (snd a)) (snd (snd a)) m of
        (Inl _, m') \<Rightarrow> (None, m')
      | (Inr s, m') \<Rightarrow> (Some (ss_id s, s), m'))"

definition id_born :: "manager \<Rightarrow> string \<Rightarrow> bool" where
  "id_born m i \<longleftrightarrow> (\<exists>k < mg_next m. i = session_name k)"

definition mgr_inv :: "manager \<Rightarrow> bool" where
  "mgr_inv m \<longleftrightarrow> distinct (dkeys (mg_sessions m)) \<and> (\<forall>i \<in> set (dkeys (mg_sessions m)). id_born m i)"

lemma ddel_mem: "p \<in> set (ddel i d) \<Longrightarrow> p \<in> set d"
  by (induction d) (auto split: if_splits)

lemma session_name_inj: "session_name a = session_name b \<longleftrightarrow> a = b"
  by (simp add: session_name_def)

lemma register_session_id: "register_session pol cs s = Some s' \<Longrightarrow> ss_id s' = ss_id s"
  by (auto simp: register_session_def split: option.splits)

lemma create_session_cases:
  assumes "create_session pol spawn now m = (r, m')"
  obtains "r = Inl SessionLimit" "m' = m"
  | "r = Inl CreateFailed" "m' = m\<lparr>mg_next := mg_next m + 1\<rparr>"
  | s where "r = Inr s" "ss_id s = session_name (mg_next m)"
      "m' = m\<lparr>mg_next := mg_next m + 1, mg_sessions := dset (session_name (mg_next m)) s (mg_sessions m)\<rparr>"
proof (cases "create_begin m")
  case (Pair a m1)
  show ?thesis
  proof (cases a)
    case None
    then have "m1 = m" using Pair by (auto simp: create_begin_def split: if_splits)
    then show ?thesis using assms Pair None that(1) by (simp add: create_session_def)
  next
    case (Some i)
    then have i: "i = session_name (mg_next m)" "m1 = m\<lparr>mg_creating := mg_creating m + 1, mg_next := mg_next m + 1\<rparr>"
      using Pair by (auto simp: create_begin_def split: if_splits)
    show ?thesis using assms Pair Some i that(2,3)
      by (auto simp: create_session_def create_end_def Let_def new_session_def split: option.splits dest!: register_session_id)
  qed
qed

interpretation mgr_store: session_store manager_get create_for mgr_drop id_born mgr_inv
proof
  fix m a i s m'
  assume inv: "mgr_inv m" and c: "create_for a m = (Some (i, s), m')"
  then obtain r where r: "create_session (fst a) (fst (snd a)) (snd (snd a)) m = (r, m')" "r = Inr s" "i = ss_id s"
    by (auto simp: create_for_def split: prod.splits sum.splits)
  then have m': "i = session_name (mg_next m)"
    "m' = m\<lparr>mg_next := mg_next m + 1, mg_sessions := dset (session_name (mg_next m)) s (mg_sessions m)\<rparr>"
    by (auto elim: create_session_cases)
  show "\<not> id_born m i \<and> mgr_inv m' \<and> manager_get m' = (manager_get m)(i := Some s) \<and> (\<forall>j. id_born m' j \<longleftrightarrow> j = i \<or> id_born m j)"
    using inv m' by (auto simp: id_born_def mgr_inv_def manager_get_def session_name_inj update_keys less_Suc_eq fun_eq_iff)
next
  fix m a m'
  assume inv: "mgr_inv m" and c: "create_for a m = (None, m')"
  then obtain e where "create_session (fst a) (fst (snd a)) (snd (snd a)) m = (Inl e, m')"
    by (auto simp: create_for_def split: prod.splits sum.splits)
  then have "m' = m \<or> m' = m\<lparr>mg_next := mg_next m + 1\<rparr>" by (auto elim: create_session_cases)
  with inv show "mgr_inv m' \<and> manager_get m' = manager_get m \<and> (\<forall>j. id_born m j \<longrightarrow> id_born m' j)"
    by (fastforce simp: mgr_inv_def id_born_def manager_get_def fun_eq_iff less_Suc_eq)
next
  fix m i
  assume inv: "mgr_inv m"
  then show "mgr_inv (mgr_drop i m) \<and> manager_get (mgr_drop i m) = (manager_get m)(i := None) \<and>
      (\<forall>j. id_born (mgr_drop i m) j \<longleftrightarrow> id_born m j)"
    by (fastforce simp: mgr_inv_def mgr_drop_def id_born_def manager_get_def fun_eq_iff dest: ddel_mem)
qed

section \<open>Creation under interleaving\<close>

text \<open>The steps other threads can see: the check at the lock, the end of a creation, a close.\<close>

inductive mgr_step :: "manager \<times> string list \<Rightarrow> manager \<times> string list \<Rightarrow> bool" where
  start: "create_begin m = (Some i, m') \<Longrightarrow> mgr_step (m, pend) (m', i # pend)"
| refuse: "create_begin m = (None, m') \<Longrightarrow> mgr_step (m, pend) (m', pend)"
| finish: "i \<in> set pend \<Longrightarrow> ss_id s = i \<Longrightarrow> mgr_step (m, pend) (create_end (Some s) m, remove1 i pend)"
| fail: "i \<in> set pend \<Longrightarrow> mgr_step (m, pend) (create_end None m, remove1 i pend)"
| closed: "mgr_step (m, pend) (mgr_drop i m, pend)"

definition mgr_ok :: "nat \<Rightarrow> manager \<times> string list \<Rightarrow> bool" where
  "mgr_ok n mp \<longleftrightarrow> (case mp of (m, pend) \<Rightarrow>
     mg_max m = n \<and> mg_creating m = length pend \<and> length (mg_sessions m) + length pend \<le> n \<and>
     distinct (dkeys (mg_sessions m) @ pend) \<and> list_all (id_born m) (dkeys (mg_sessions m) @ pend))"

lemma length_dset_new: "k \<notin> set (dkeys d) \<Longrightarrow> length (dset k v d) = Suc (length d)"
  by (simp add: dset_new)

lemma length_ddel: "length (ddel k d) \<le> length d"
  by (induction d) auto

lemma mgr_ok_start:
  assumes "mgr_ok n (m, pend)" "create_begin m = (Some i, m')"
  shows "mgr_ok n (m', i # pend)"
proof -
  have i: "i = session_name (mg_next m)" "m' = m\<lparr>mg_creating := mg_creating m + 1, mg_next := mg_next m + 1\<rparr>"
    "length (mg_sessions m) + mg_creating m < mg_max m"
    using assms(2) by (auto simp: create_begin_def split: if_splits)
  have "\<not> id_born m i" by (simp add: id_born_def i session_name_inj)
  then have "i \<notin> set (dkeys (mg_sessions m) @ pend)" using assms(1) by (auto simp: mgr_ok_def list_all_iff)
  moreover have "id_born m j \<Longrightarrow> id_born m' j" "id_born m' i" for j by (auto simp: id_born_def i less_Suc_eq)
  ultimately show ?thesis using assms(1) i by (auto simp: mgr_ok_def list_all_iff)
qed

lemma create_end_simps [simp]:
  "mg_max (create_end r m) = mg_max m" "mg_creating (create_end r m) = mg_creating m - 1"
  "mg_sessions (create_end None m) = mg_sessions m"
  "mg_sessions (create_end (Some s) m) = dset (ss_id s) s (mg_sessions m)"
  "id_born (create_end r m) = id_born m"
  by (simp_all add: create_end_def Let_def id_born_def fun_eq_iff split: option.splits)

lemma mgr_ok_end:
  assumes "mgr_ok n (m, pend)" "i \<in> set pend"
  shows "mgr_ok n (create_end None m, remove1 i pend)"
    "ss_id s = i \<Longrightarrow> mgr_ok n (create_end (Some s) m, remove1 i pend)"
proof -
  let ?ks = "dkeys (mg_sessions m)"
  note ok = assms(1)[unfolded mgr_ok_def prod.case]
  have len: "length pend = Suc (length (remove1 i pend))" using assms(2) length_pos_if_in_set[OF assms(2)]
    by (simp add: length_remove1)
  have sub: "set (remove1 i pend) = set pend - {i}" using ok by simp
  have ids: "\<forall>j \<in> set ?ks \<union> set pend. id_born m j" using ok by (simp add: list_all_iff)
  have dist: "distinct ?ks" "distinct (remove1 i pend)" "set ?ks \<inter> set pend = {}" using ok by auto
  have rest: "set ?ks \<inter> (set pend - {i}) = {}" "\<forall>j \<in> set ?ks \<union> (set pend - {i}). id_born m j" using dist(3) ids by blast+
  show "mgr_ok n (create_end None m, remove1 i pend)"
    unfolding mgr_ok_def prod.case using ok len dist(1,2) sub rest by (simp add: list_all_iff)
  assume s: "ss_id s = i"
  have new: "i \<notin> set ?ks" using assms(2) dist(3) by blast
  have keys: "dkeys (dset i s (mg_sessions m)) = ?ks @ [i]" "length (dset i s (mg_sessions m)) = Suc (length (mg_sessions m))"
    using dset_new[OF new, of s] by simp_all
  have "i \<notin> set (remove1 i pend)" using sub by simp
  then show "mgr_ok n (create_end (Some s) m, remove1 i pend)"
    unfolding mgr_ok_def prod.case using ok len dist sub ids new s assms(2) by (simp add: list_all_iff keys)
qed

interpretation mgr_machine: invariant_machine "\<lambda>mp. mp = (new_manager n idle, [])" mgr_step "mgr_ok n" for n idle
proof unfold_locales
  show "mp = (new_manager n idle, []) \<Longrightarrow> mgr_ok n mp" for mp
    by (simp add: mgr_ok_def new_manager_def)
  show "mgr_ok n t" if "mgr_ok n s" "mgr_step s t" for s t
    using that(2,1)
  proof cases
    case (closed m pend i)
    have "set (dkeys (ddel i (mg_sessions m))) \<subseteq> set (dkeys (mg_sessions m))" by (auto dest: ddel_mem)
    moreover have "id_born (mgr_drop i m) = id_born m" by (simp add: fun_eq_iff id_born_def mgr_drop_def)
    ultimately show ?thesis using closed that(1) length_ddel[of i "mg_sessions m"] distinct_ddel[of "mg_sessions m" i]
      by (auto simp: mgr_ok_def mgr_drop_def list_all_iff)
  qed (use mgr_ok_start mgr_ok_end in \<open>auto simp: create_begin_def split: if_splits\<close>)
qed

section \<open>Properties\<close>

text \<open>
  C29. The session limit holds under every interleaving of creations and closes: sessions that exist and
  sessions being created never exceed the limit together, and no two of them share an id.
\<close>

theorem sessions_bounded:
  assumes "reach (\<lambda>mp. mp = (new_manager n idle, [])) mgr_step (m, pend)"
  shows "length (mg_sessions m) + length pend \<le> n \<and> distinct (dkeys (mg_sessions m) @ pend)"
  using mgr_machine.reach_inv[OF assms] by (simp add: mgr_ok_def)

theorem sessions_bounded_witness:
  "length (mg_sessions (snd (create_begin (new_manager 4 1800)))) + length [session_name 1] \<le> 4"
proof -
  have "mgr_step (new_manager 4 1800, []) (snd (create_begin (new_manager 4 1800)), [session_name 1])"
    by (rule mgr_step.start) (simp add: create_begin_def new_manager_def)
  then have "reach (\<lambda>mp. mp = (new_manager 4 1800, [])) mgr_step (snd (create_begin (new_manager 4 1800)), [session_name 1])"
    by (rule reach_step[rotated]) (rule reach_init, rule refl)
  from sessions_bounded[OF this] show ?thesis by simp
qed

text \<open>
  A closed session is closed for good: an id that was handed out and is not live any more stays unknown to
  the manager through any sequence of creations and closes, so a client that keeps it never gets
  another client's session.
\<close>

theorem closed_session_stays_closed:
  assumes "mgr_inv m" "id_born m i" "manager_get m i = None"
  shows "manager_get (mgr_store.run_ops ops m) i = None"
  by (rule mgr_store.dead_stays_dead[OF assms])

definition defs_ok :: "session_policy \<Rightarrow> (string, string \<times> string \<times> json) dict \<Rightarrow> bool" where
  "defs_ok pol defs \<longleftrightarrow> (\<forall>(e, srv, tool, sch) \<in> set defs. tool \<in> set (dget_or (sp_allowlists pol) srv []) \<and>
     tool \<notin> set META_TOOL_DENY \<and> e = exposed_tool_name srv tool)"

lemma dset_mem: "p \<in> set (dset k v d) \<Longrightarrow> p = (k, v) \<or> p \<in> set d"
  by (induction d) (auto split: if_splits)

lemma register_tool_inv:
  "register_tool pol server t acc = Some acc' \<Longrightarrow> defs_ok pol (fst acc) \<Longrightarrow> defs_ok pol (fst acc')"
  by (auto simp: register_tool_def defs_ok_def Let_def split: json.splits if_splits dest!: dset_mem)

lemma register_child_inv: "register_child pol server ts acc = Some acc' \<Longrightarrow> defs_ok pol (fst acc) \<Longrightarrow> defs_ok pol (fst acc')"
  by (induction pol server ts acc rule: register_child.induct) (auto split: option.splits dest: register_tool_inv)

lemma register_all_inv: "register_all pol cs acc = Some acc' \<Longrightarrow> defs_ok pol (fst acc) \<Longrightarrow> defs_ok pol (fst acc')"
  by (induction pol cs acc rule: register_all.induct) (auto split: option.splits dest: register_child_inv)

text \<open>
  C19. Only allowed tools are offered: every tool a registered session lists belongs to a live child, is in the
  allowlist of its server and is not a meta tool; and a call of it under its listed name goes to that
  child as that tool, after the policy has let the arguments through, or is refused by the policy.
\<close>

theorem listed_tool_call:
  assumes "register_session pol cs (new_session i t0) = Some s" "(r, server, tool, schema) \<in> set (list_tools s)"
    and "valid_server_name server" "tool \<noteq> []"
    and "call_begin pol now r args progress rpc_id s = (res, s')"
  shows "tool \<in> set (dget_or (sp_allowlists pol) server []) \<and> tool \<notin> set META_TOOL_DENY \<and> child_live s server \<and>
    (if session_check pol server tool args = CallOk
     then \<exists>st. res = Inr st \<and> st_server st = server \<and> dget (ss_pending s') (st_call_id st) = Some server
     else res = Inl (error_result (reason_str (session_check pol server tool args))))"
proof -
  from assms(1) obtain defs exposed where reg: "register_all pol cs ([], []) = Some (defs, exposed)"
    "ss_tool_defs s = defs" "ss_registry s = register_tools exposed"
    by (auto simp: register_session_def new_session_def split: option.splits)
  have ok: "defs_ok pol defs" using register_all_inv[OF reg(1)] by (simp add: defs_ok_def)
  from assms(2) obtain e where e: "(r, e) \<in> set (ss_registry s)" "dget (ss_tool_defs s) e = Some (server, tool, schema)"
    "child_live s server"
    by (auto simp: list_tools_def split: option.splits if_splits)
  from e(2) reg(2) have "(e, server, tool, schema) \<in> set defs" by (auto dest: map_of_SomeD)
  with ok have t: "tool \<in> set (dget_or (sp_allowlists pol) server [])" "tool \<notin> set META_TOOL_DENY" "e = exposed_tool_name server tool"
    by (auto simp: defs_ok_def)
  have "distinct (dkeys (ss_registry s))" using register_fold[of "[]" exposed] by (simp add: reg(3) register_tools_def)
  with e(1) have "dget_or (ss_registry s) r r = e" by (simp add: dget_or_def)
  moreover have "parse_exposed_tool_name e = Some (server, tool)"
    unfolding t(3) by (rule parse_exposed[OF assms(3,4)])
  ultimately show ?thesis using assms(5) e(3) t(1,2)
    by (auto simp: call_begin_def Let_def child_live_def)
qed

definition demo_policy :: session_policy where
  "demo_policy = \<lparr>sp_allowlists = [(''ctx'', [''query''])], sp_project_dir = Some ''/w''\<rparr>"

definition demo_children :: "(string, child) dict" where
  "demo_children = [(''ctx'', \<lparr>ch_live = True, ch_tools = [JObj [(''name'', JStr ''query'')], JObj [(''name'', JStr ''delete'')]],
     ch_capabilities = [(''tools'', JObj [])]\<rparr>)]"

definition demo_session :: session where
  "demo_session = the (register_session demo_policy demo_children (new_session ''sess-1'' 0))"

lemma demo_session:
  "register_session demo_policy demo_children (new_session ''sess-1'' 0) = Some demo_session"
  "map (\<lambda>(r, srv, t, _). (r, srv, t)) (list_tools demo_session) = [(''ctx__query'', ''ctx'', ''query'')]"
  by code_simp+

theorem listed_tool_call_witness:
  "\<exists>st. fst (call_begin demo_policy 5 ''ctx__query'' [] JNull JNull demo_session) = Inr st \<and> st_server st = ''ctx''"
proof -
  obtain schema where "(''ctx__query'', ''ctx'', ''query'', schema) \<in> set (list_tools demo_session)"
    using demo_session(2) by (cases "list_tools demo_session") auto
  moreover have "valid_server_name ''ctx''" "session_check demo_policy ''ctx'' ''query'' [] = CallOk" by code_simp+
  ultimately show ?thesis
    using listed_tool_call[OF demo_session(1), of "''ctx__query''" "''ctx''" "''query''" schema 5 "[]" JNull JNull]
    by (auto simp: prod_eq_iff)
qed

text \<open>
  A call the policy refuses never reaches a child and is audited as denied: whatever the child would
  have answered, the event of the call has the status \<^verbatim>\<open>denied\<close>, and no call is left waiting.
\<close>

theorem refused_call_audited:
  assumes "parse_exposed_tool_name (dget_or (ss_registry s) exposed exposed) = Some (server, tool)"
    and "session_check pol server tool args \<noteq> CallOk"
  shows "\<exists>r ev. dispatch_call pol upstream now latency exposed args progress rpc_id s = (Some (r, ev), s\<lparr>ss_stamp := now\<rparr>) \<and>
    cr_is_error r \<and> dget ev ''status'' = Some (JStr (redact_text ''denied''))"
proof -
  let ?v = "session_check pol server tool args"
  have why: "reason_str ?v \<in> set DENY_REASONS" using assms(2) by (cases ?v) (auto simp: reason_str_def DENY_REASONS_def)
  have c: "call_tool pol upstream now exposed args progress JNull s = (Some (error_result (reason_str ?v)), s\<lparr>ss_stamp := now\<rparr>)"
    using assms by (simp add: call_tool_def call_begin_def Let_def)
  have st: "status_of (error_result (reason_str ?v)) = ''denied''"
    using why by (simp add: status_of_def error_result_def first_text_def text_of_def obj_get_def)
  show ?thesis
    by (auto simp: dispatch_call_def c dispatch_result_def Let_def st audit_event_def redact_value_def split: prod.splits)
      (simp add: error_result_def)
qed

text \<open>
  A client cannot cancel its call by the id it gave it: the dispatch does not hand the id on, so the call
  waits under a number of the session's own counter, and a cancellation by any other id finds nothing.
\<close>

theorem cancel_misses:
  assumes "call_begin pol now exposed args progress JNull s = (Inr st, s')" "ss_pending s = []"
    and "rpc_id \<noteq> JInt (ss_counter s + 1)"
  shows "cancel inflight rpc_id s' = None"
  using assms by (auto simp: call_begin_def cancel_def Let_def split: option.splits if_splits prod.splits)

end
