(* ===== verification/GatewayServer.thy ===== *)
theory GatewayServer
  imports GatewaySession Ingress "HOL-Library.Sublist"
begin

text \<open>
  The HTTP server of the MCP gateway (\<^verbatim>\<open>home/rdm/gateway/server.py\<close>): the size limits of a result, the
  server's own state beside the session manager, the three request handlers with the JSON-RPC methods,
  and the event stream. A request is what \<^verbatim>\<open>BaseHTTPRequestHandler\<close> hands to a handler; an answer
  is the status, the headers the code sets and the body. Decoding UTF-8, the hash of the comparison
  of tokens, the children of a session and whether a call outlives its time limit are parameters. A handler
  that dies of an exception answers \<^const>\<open>None\<close>: the connection ends without an answer.
\<close>

section \<open>Limits of a result\<close>

definition MAX_TEXT_CHARS :: nat where
  "MAX_TEXT_CHARS = 32000"

definition MAX_RESULT_CHARS :: nat where
  "MAX_RESULT_CHARS = 64000"

definition result_chars :: "json list \<Rightarrow> nat" where
  "result_chars items = length (dumps (fmt_default False) (JArr items))"

definition item_text :: "json \<Rightarrow> string" where
  "item_text item = (case text_of item of None \<Rightarrow> [] | Some t \<Rightarrow> t)"

text \<open>The index of the last text item.\<close>

fun last_text :: "json list \<Rightarrow> nat option" where
  "last_text [] = None"
| "last_text (x # xs) =
     (case last_text xs of Some i \<Rightarrow> Some (Suc i) | None \<Rightarrow> if text_of x \<noteq> None then Some 0 else None)"

lemma last_text_Some: "last_text xs = Some i \<Longrightarrow> i < length xs \<and> text_of (xs ! i) \<noteq> None"
  by (induction xs arbitrary: i) (auto split: option.splits if_splits)

lemma text_of_set_text [simp]: "text_of item = Some t \<Longrightarrow> text_of (set_text t' item) = Some t'"
  by (auto simp: text_of_def set_text_def obj_get_def update_conv' split: json.splits if_splits)

definition weight :: "json list \<Rightarrow> nat" where
  "weight items = (\<Sum>x \<leftarrow> items. Suc (length (item_text x)))"

lemma weight_simps [simp]: "weight [] = 0" "weight (x # xs) = Suc (length (item_text x)) + weight xs"
  "weight (xs @ ys) = weight xs + weight ys"
  by (simp_all add: weight_def)

lemma weight_split: "i < length items \<Longrightarrow>
  weight items = weight (take i items) + Suc (length (item_text (items ! i))) + weight (drop (Suc i) items)"
  by (subst id_take_nth_drop[of i items]) simp_all

lemma weight_update: "i < length items \<Longrightarrow>
  weight (items[i := x]) = weight (take i items) + Suc (length (item_text x)) + weight (drop (Suc i) items)"
  by (simp add: upd_conv_take_nth_drop)

text \<open>One round of the loop: the last text item loses its end or goes; without one the last item goes.\<close>

definition cap_round :: "json list \<Rightarrow> json list" where
  "cap_round items =
     (case last_text items of
        None \<Rightarrow> butlast items
      | Some i \<Rightarrow>
          let t = item_text (items ! i);
              excess = result_chars items - MAX_RESULT_CHARS;
              cut = min (length t) (excess + 64) in
          if length t \<le> cut then take i items @ drop (Suc i) items
          else items[i := set_text (take (length t - cut) t) (items ! i)])"

lemma cap_round_weight:
  assumes "items \<noteq> []"
  shows "weight (cap_round items) < weight items"
proof (cases "last_text items")
  case None
  have "weight items = weight (butlast items) + Suc (length (item_text (last items)))"
    using assms by (subst append_butlast_last_id[symmetric]) (simp_all only: weight_simps, simp)
  with None show ?thesis by (simp add: cap_round_def)
next
  case (Some i)
  then obtain t where t: "text_of (items ! i) = Some t" "i < length items" "item_text (items ! i) = t"
    using last_text_Some[of items i] by (auto simp: item_text_def)
  then have "item_text (set_text u (items ! i)) = u" for u by (simp add: item_text_def)
  with Some t(2,3) show ?thesis by (auto simp: cap_round_def Let_def weight_update weight_split[OF t(2)])
qed

function cap_loop :: "json list \<Rightarrow> bool \<Rightarrow> json list \<times> bool" where
  "cap_loop items truncated =
     (if result_chars items \<le> MAX_RESULT_CHARS \<or> items = [] then (items, truncated)
      else cap_loop (cap_round items) True)"
  by pat_completeness auto
termination
  by (relation "measure (\<lambda>(items, _). weight items)") (auto simp: cap_round_weight)

declare cap_loop.simps [simp del]

definition cap_content :: "json list \<Rightarrow> json list \<times> bool" where
  "cap_content content =
     cap_loop (map (cut_text MAX_TEXT_CHARS) content) (list_ex (too_long MAX_TEXT_CHARS) content)"

section \<open>Requests and answers\<close>

text \<open>\<open>hr_rest\<close> is what the connection still holds; a reader gets at most that.\<close>

record http_request =
  hr_target :: string
  hr_headers :: "(string \<times> string) list"
  hr_rest :: string

record http_answer =
  an_status :: int
  an_headers :: "(string \<times> string) list"
  an_body :: string

text \<open>\<^verbatim>\<open>self.headers.get\<close>: the first header of that name, whatever its case.\<close>

fun hdr :: "(string \<times> string) list \<Rightarrow> string \<Rightarrow> string" where
  "hdr [] n = []"
| "hdr ((k, v) # hs) n = (if lower k = lower n then v else hdr hs n)"

text \<open>
  The path of \<^verbatim>\<open>urllib.parse.urlsplit\<close>: leading control characters and spaces, tabs and line ends, the
  scheme, the authority, the fragment and the query go. \<open>netloc_ok\<close> is the check of an authority with
  brackets; \<^const>\<open>None\<close> is its \<^verbatim>\<open>ValueError\<close>.
\<close>

definition scheme_char :: "char \<Rightarrow> bool" where
  "scheme_char c \<longleftrightarrow> is_alnum c \<or> c \<in> {CHR ''+'', CHR ''-'', CHR ''.''}"

definition drop_scheme :: "string \<Rightarrow> string" where
  "drop_scheme url =
     (case py_partition '':'' url of
        (a, found, b) \<Rightarrow> if found \<and> a \<noteq> [] \<and> is_alpha (hd a) \<and> list_all scheme_char a then b else url)"

definition url_path :: "(string \<Rightarrow> bool) \<Rightarrow> string \<Rightarrow> string option" where
  "url_path netloc_ok target =
     (let url = filter (\<lambda>c. code c \<notin> {9, 10, 13}) (dropWhile (\<lambda>c. code c \<le> 32) target);
          u = drop_scheme url;
          inside = takeWhile (\<lambda>c. c \<notin> {CHR ''/'', CHR ''?'', CHR ''#''});
          path = (\<lambda>v. fst (py_partition ''?'' (fst (py_partition ''#'' v)))) in
      if starts_with ''//'' u
      then if netloc_ok (inside (drop 2 u)) then Some (path (drop (length (inside (drop 2 u))) (drop 2 u))) else None
      else Some (path u))"

text \<open>What the process gets from outside: \<^verbatim>\<open>GATEWAY_TOKEN\<close>, the digest, UTF-8 decoding, the check above.\<close>

record gw_env =
  ge_token :: string
  ge_digest :: "string \<Rightarrow> string"
  ge_decode :: "string \<Rightarrow> string option"
  ge_netloc :: "string \<Rightarrow> bool"

definition auth_ok :: "gw_env \<Rightarrow> http_request \<Rightarrow> bool" where
  "auth_ok e rq =
     (if ge_token e = [] then True
      else case py_partition '' '' (hdr (hr_headers rq) ''Authorization'') of
        (scheme, _, v) \<Rightarrow> lower scheme = ''bearer'' \<and> constant_time_equal (ge_digest e) (utf8 v) (utf8 (ge_token e)))"

definition post_body :: "http_request \<Rightarrow> string" where
  "post_body rq =
     (let h = hdr (hr_headers rq) ''Content-Length'' in
      case (if list_ex (\<lambda>(k, _). lower k = ''content-length'') (hr_headers rq) then py_int h else Some 0) of
        None \<Rightarrow> []
      | Some n \<Rightarrow> if n \<le> 0 then [] else take (nat n) (hr_rest rq))"

definition respond :: "int \<Rightarrow> string \<Rightarrow> string \<Rightarrow> http_answer" where
  "respond status body ctype =
     \<lparr>an_status = status, an_headers = [(''Content-Type'', ctype), (''Content-Length'', nat_str (length body))],
      an_body = body\<rparr>"

definition accepted :: http_answer where
  "accepted = \<lparr>an_status = 202, an_headers = [(''Content-Length'', ''0'')], an_body = []\<rparr>"

definition send_json :: "int \<Rightarrow> json \<Rightarrow> (string \<times> string) list \<Rightarrow> http_answer" where
  "send_json status j extra =
     (let body = utf8 (dumps (fmt_default False) j) in
      \<lparr>an_status = status, an_headers = [(''Content-Type'', ''application/json; charset=utf-8''),
         (''Content-Length'', nat_str (length body))] @ extra, an_body = body\<rparr>)"

definition jsonrpc_result :: "json \<Rightarrow> json \<Rightarrow> (string \<times> string) list \<Rightarrow> http_answer" where
  "jsonrpc_result r rpc_id extra =
     send_json 200 (JObj [(''jsonrpc'', JStr ''2.0''), (''id'', rpc_id), (''result'', r)]) extra"

definition jsonrpc_error :: "int \<Rightarrow> int \<Rightarrow> string \<Rightarrow> json \<Rightarrow> (string \<times> string) list \<Rightarrow> http_answer" where
  "jsonrpc_error status err why rpc_id extra =
     send_json status (JObj [(''jsonrpc'', JStr ''2.0''), (''id'', rpc_id),
       (''error'', JObj [(''code'', JInt err), (''message'', JStr why)])]) extra"

definition PARSE_ERROR :: int where "PARSE_ERROR = - 32700"
definition INVALID_REQUEST :: int where "INVALID_REQUEST = - 32600"
definition METHOD_NOT_FOUND :: int where "METHOD_NOT_FOUND = - 32601"
definition INVALID_PARAMS :: int where "INVALID_PARAMS = - 32602"
definition INTERNAL_ERROR :: int where "INTERNAL_ERROR = - 32603"
definition SESSION_REQUIRED :: int where "SESSION_REQUIRED = - 32000"
definition SESSION_NOT_FOUND :: int where "SESSION_NOT_FOUND = - 32001"

definition PLAIN :: string where
  "PLAIN = ''text/plain; charset=utf-8''"

definition unauthorized :: http_answer where
  "unauthorized = jsonrpc_error 401 SESSION_REQUIRED ''unauthorized'' JNull []"

section \<open>The server's state\<close>

datatype notice = Notice json | StreamEnd

record gateway =
  gw_manager :: "manager option"
  gw_known :: "string list"
  gw_streams :: "string list"
  gw_queues :: "(string, notice list) dict"
  gw_stopping :: bool

definition new_gateway :: gateway where
  "new_gateway = \<lparr>gw_manager = None, gw_known = [], gw_streams = [], gw_queues = [], gw_stopping = False\<rparr>"

text \<open>A session counts when both the manager and the server know it.\<close>

definition find_session :: "gateway \<Rightarrow> string \<Rightarrow> session option" where
  "find_session g i =
     (case gw_manager g of
        None \<Rightarrow> None
      | Some m \<Rightarrow> if i \<in> set (gw_known g) then manager_get m i else None)"

text \<open>The session objects are shared: a handler changes the one the manager holds, while it holds it.\<close>

definition put_session :: "session \<Rightarrow> gateway \<Rightarrow> gateway" where
  "put_session s g =
     g\<lparr>gw_manager := map_option (\<lambda>m. m\<lparr>mg_sessions :=
        map (\<lambda>(i, t). if i = ss_id s then (i, s) else (i, t)) (mg_sessions m)\<rparr>) (gw_manager g)\<rparr>"

definition put_notice :: "string \<Rightarrow> notice \<Rightarrow> gateway \<Rightarrow> gateway" where
  "put_notice i n g = g\<lparr>gw_queues := dset i (dget_or (gw_queues g) i [] @ [n]) (gw_queues g)\<rparr>"

definition known_session :: "string \<Rightarrow> gateway \<Rightarrow> gateway" where
  "known_session i g = g\<lparr>gw_known := (if i \<in> set (gw_known g) then gw_known g else gw_known g @ [i])\<rparr>"

definition drop_session :: "string \<Rightarrow> gateway \<Rightarrow> gateway" where
  "drop_session i g = g\<lparr>gw_known := filter (\<lambda>j. j \<noteq> i) (gw_known g)\<rparr>"

definition acquire_stream :: "string \<Rightarrow> gateway \<Rightarrow> bool \<times> gateway" where
  "acquire_stream i g =
     (if i \<in> set (gw_streams g) then (False, g) else (True, g\<lparr>gw_streams := i # gw_streams g\<rparr>))"

definition release_stream :: "string \<Rightarrow> gateway \<Rightarrow> gateway" where
  "release_stream i g = g\<lparr>gw_streams := filter (\<lambda>j. j \<noteq> i) (gw_streams g)\<rparr>"

text \<open>\<^verbatim>\<open>Session.close\<close> as the server calls it: the manager forgets the session.\<close>

definition close_session :: "string \<Rightarrow> gateway \<Rightarrow> gateway" where
  "close_session i g = g\<lparr>gw_manager := map_option (mgr_drop i) (gw_manager g)\<rparr>"

definition stop_gateway :: "gateway \<Rightarrow> gateway" where
  "stop_gateway g =
     (if gw_stopping g then g
      else let ids = gw_known g in
        fold close_session ids (fold (\<lambda>i. put_notice i StreamEnd) ids (g\<lparr>gw_known := [], gw_stopping := True\<rparr>)))"

section \<open>Methods\<close>

text \<open>
  What a handler meets while it runs: the policy of the sessions and whether \<^verbatim>\<open>_ensure_defaults\<close> returns, the
  limits of the manager a factory makes (\<^const>\<open>None\<close> raises), the children of a new session, the clock, whether a
  call outlives 300 seconds, and the children's answers and requests in flight.
\<close>

record call_env =
  ce_policy :: session_policy
  ce_defaults :: bool
  ce_fresh :: "(nat \<times> int) option"
  ce_spawn :: "string \<Rightarrow> (string, child) dict option"
  ce_now :: int
  ce_latency :: int
  ce_late :: bool
  ce_upstream :: "string \<Rightarrow> json \<Rightarrow> string + json"
  ce_inflight :: "string \<Rightarrow> json option"

text \<open>What a handler does beside its answer: a request of a child is cancelled, an event is written.\<close>

datatype effect = CancelUpstream string json | AuditEvent event

type_synonym handled = "http_answer option \<times> gateway \<times> effect list"

definition cancel_effects :: "call_env \<Rightarrow> json \<Rightarrow> session \<Rightarrow> effect list" where
  "cancel_effects ce i s =
     (case cancel (ce_inflight ce) i s of None \<Rightarrow> [] | Some (server, up) \<Rightarrow> [CancelUpstream server up])"

datatype call_failure = CallTimeout | CallRaised

text \<open>\<^verbatim>\<open>_call_tool\<close>: the call runs in a thread of its own, which a late call keeps.\<close>

definition run_call ::
  "call_env \<Rightarrow> string \<Rightarrow> (string \<times> json) list \<Rightarrow> json \<Rightarrow> json \<Rightarrow> session \<Rightarrow>
     (call_failure + call_result) \<times> session \<times> effect list" where
  "run_call ce name args progress rpc_id s =
     (case call_begin (ce_policy ce) (ce_now ce) name args progress JNull s of
        (began, s1) \<Rightarrow>
          if ce_late ce \<and> \<not> isl began then
            if hashable rpc_id then (Inl CallTimeout, s1, cancel_effects ce rpc_id s1) else (Inl CallRaised, s1, [])
          else
            (case dispatch_call (ce_policy ce) (ce_upstream ce) (ce_now ce) (ce_latency ce) name args progress rpc_id s of
               (None, s2) \<Rightarrow> (Inl CallRaised, s2, [])
             | (Some (r, ev), s2) \<Rightarrow> (Inr r, s2, [AuditEvent ev])))"

definition call_answer :: "json \<Rightarrow> call_result \<Rightarrow> http_answer" where
  "call_answer rpc_id r =
     (if cr_is_error r \<and> cr_content r = [] then jsonrpc_error 200 INTERNAL_ERROR ''upstream tool call failed'' rpc_id []
      else case cap_content (cr_content r) of
        (content, truncated) \<Rightarrow>
          jsonrpc_result (JObj ([(''content'', JArr content), (''isError'', JBool (cr_is_error r))] @
            (if truncated \<or> cr_truncated r then [(''_meta'', JObj [(''truncated'', JBool True)])] else []))) rpc_id [])"

definition call_reply :: "json \<Rightarrow> call_failure + call_result \<Rightarrow> http_answer" where
  "call_reply rpc_id r =
     (case r of
        Inl CallTimeout \<Rightarrow> jsonrpc_error 200 INTERNAL_ERROR ''tool call timed out'' rpc_id []
      | Inl CallRaised \<Rightarrow> jsonrpc_error 200 INTERNAL_ERROR ''internal error'' rpc_id []
      | Inr r \<Rightarrow> call_answer rpc_id r)"

text \<open>The name, the arguments and the progress token of a call, or why the parameters are refused.\<close>

definition tool_request :: "json \<Rightarrow> session \<Rightarrow> string + string \<times> (string \<times> json) list \<times> json" where
  "tool_request params s =
     (case params of
        JObj p \<Rightarrow>
          (let arguments = obj_get p ''arguments'' in
           case obj_get p ''name'' of
             JStr name \<Rightarrow>
               if arguments \<noteq> JNull \<and> \<not> is_dict arguments then Inl ''invalid params''
               else if \<not> list_ex (\<lambda>(n, _). n = name) (list_tools s) then Inl ''unknown tool''
               else Inr (name, case arguments of JObj d \<Rightarrow> d | _ \<Rightarrow> [],
                 case obj_get p ''_meta'' of JObj m \<Rightarrow> obj_get m ''progressToken'' | _ \<Rightarrow> JNull)
           | _ \<Rightarrow> Inl ''invalid params'')
      | _ \<Rightarrow> Inl ''invalid params'')"

definition tools_call :: "call_env \<Rightarrow> json \<Rightarrow> json \<Rightarrow> session \<Rightarrow> http_answer \<times> session \<times> effect list" where
  "tools_call ce params rpc_id s =
     (case tool_request params s of
        Inl why \<Rightarrow> (jsonrpc_error 200 INVALID_PARAMS why rpc_id [], s, [])
      | Inr (name, args, progress) \<Rightarrow>
          (case run_call ce name args progress rpc_id s of (r, s1, fx) \<Rightarrow> (call_reply rpc_id r, s1, fx)))"

definition tools_listing :: "session \<Rightarrow> json" where
  "tools_listing s =
     JObj [(''tools'', JArr (map (\<lambda>(n, _, _, schema). JObj [(''name'', JStr n), (''inputSchema'', schema)]) (list_tools s)))]"

text \<open>\<^verbatim>\<open>_dispatch\<close>: the answer \<^const>\<open>None\<close> is the \<^verbatim>\<open>TypeError\<close> of an id that is no key.\<close>

definition method_call ::
  "call_env \<Rightarrow> string \<Rightarrow> json \<Rightarrow> json \<Rightarrow> session \<Rightarrow> http_answer option \<times> session \<times> effect list" where
  "method_call ce meth params rpc_id s =
     (if rpc_id = JNull then
        let req = (case params of JObj p \<Rightarrow> if meth = ''notifications/cancelled'' then obj_get p ''requestId'' else JNull
                     | _ \<Rightarrow> JNull) in
        if \<not> hashable req then (None, s, [])
        else (Some accepted, s, if req = JNull then [] else cancel_effects ce req s)
      else if meth = ''ping'' then (Some (jsonrpc_result (JObj []) rpc_id []), s, [])
      else if meth = ''tools/list'' then (Some (jsonrpc_result (tools_listing s) rpc_id []), s, [])
      else if meth = ''tools/call'' then (case tools_call ce params rpc_id s of (a, s1, fx) \<Rightarrow> (Some a, s1, fx))
      else (Some (jsonrpc_error 200 METHOD_NOT_FOUND ''method not found'' rpc_id []), s, []))"

section \<open>Handlers\<close>

definition SUPPORTED_VERSIONS :: "string list" where
  "SUPPORTED_VERSIONS = [''2025-03-26'', ''2025-06-18'']"

definition DEFAULT_VERSION :: string where
  "DEFAULT_VERSION = ''2025-03-26''"

definition handle_initialize :: "call_env \<Rightarrow> string \<Rightarrow> json \<Rightarrow> gateway \<Rightarrow> http_answer \<times> gateway" where
  "handle_initialize ce version rpc_id g =
     (let unavailable = jsonrpc_error 200 INTERNAL_ERROR ''session layer unavailable'' rpc_id [] in
      case (case gw_manager g of
          None \<Rightarrow> map_option (\<lambda>(n, idle). new_manager n idle) (ce_fresh ce) | Some m \<Rightarrow> Some m) of
        None \<Rightarrow> (unavailable, g)
      | Some m \<Rightarrow>
          if \<not> ce_defaults ce then (unavailable, g\<lparr>gw_manager := Some m\<rparr>)
          else (case create_session (ce_policy ce) (ce_spawn ce) (ce_now ce) m of
            (Inl SessionLimit, m1) \<Rightarrow>
              (jsonrpc_error 429 SESSION_REQUIRED ''session limit reached'' rpc_id [], g\<lparr>gw_manager := Some m1\<rparr>)
          | (Inl CreateFailed, m1) \<Rightarrow> (unavailable, g\<lparr>gw_manager := Some m1\<rparr>)
          | (Inr s, m1) \<Rightarrow>
              (jsonrpc_result (JObj [(''protocolVersion'', JStr (if version \<in> set SUPPORTED_VERSIONS then version else DEFAULT_VERSION)),
                  (''capabilities'', ss_capabilities s),
                  (''serverInfo'', JObj [(''name'', JStr ''devbox-gateway''), (''version'', JStr ''0.1.0'')]),
                  (''instructions'', JStr (ss_instructions s))]) rpc_id [(''Mcp-Session-Id'', ss_id s)],
               known_session (ss_id s) (g\<lparr>gw_manager := Some m1\<rparr>))))"

definition on_mcp :: "gw_env \<Rightarrow> http_request \<Rightarrow> http_answer option option" where
  "on_mcp e rq =
     (case url_path (ge_netloc e) (hr_target rq) of
        None \<Rightarrow> Some None
      | Some path \<Rightarrow>
          if path \<noteq> ''/mcp'' then Some (Some (respond 404 [] PLAIN))
          else if \<not> auth_ok e rq then Some (Some unauthorized) else None)"

text \<open>The session a request names, or the answer that refuses it.\<close>

definition request_session :: "http_request \<Rightarrow> json \<Rightarrow> gateway \<Rightarrow> http_answer + session" where
  "request_session rq rpc_id g =
     (let i = hdr (hr_headers rq) ''Mcp-Session-Id'' in
      if i = [] then Inl (jsonrpc_error 400 SESSION_REQUIRED ''missing Mcp-Session-Id header'' rpc_id [])
      else case find_session g i of
        None \<Rightarrow> Inl (jsonrpc_error 404 SESSION_NOT_FOUND ''session not found'' rpc_id [])
      | Some s \<Rightarrow> Inr s)"

definition post_message :: "call_env \<Rightarrow> http_request \<Rightarrow> string \<Rightarrow> (string \<times> json) list \<Rightarrow> gateway \<Rightarrow> handled" where
  "post_message ce rq version m g =
     (let rpc_id = obj_get m ''id'' in
      case obj_get m ''method'' of
        JStr meth \<Rightarrow>
          if meth = ''initialize'' then (case handle_initialize ce version rpc_id g of (a, g1) \<Rightarrow> (Some a, g1, []))
          else (case request_session rq rpc_id g of
            Inl a \<Rightarrow> (Some a, g, [])
          | Inr s \<Rightarrow>
              (case method_call ce meth (obj_get m ''params'') rpc_id s of
                 (a, s1, fx) \<Rightarrow> (a, put_session s1 g, fx)))
      | _ \<Rightarrow>
          if has_key m ''result'' \<or> has_key m ''error'' then (Some accepted, g, [])
          else (Some (jsonrpc_error 400 INVALID_REQUEST ''invalid request'' JNull []), g, []))"

definition do_post :: "gw_env \<Rightarrow> call_env \<Rightarrow> http_request \<Rightarrow> gateway \<Rightarrow> handled" where
  "do_post e ce rq g =
     (case on_mcp e rq of
        Some a \<Rightarrow> (a, g, [])
      | None \<Rightarrow>
          let version = hdr (hr_headers rq) ''MCP-Protocol-Version'' in
          if version \<noteq> [] \<and> version \<notin> set SUPPORTED_VERSIONS then
            (Some (jsonrpc_error 400 SESSION_REQUIRED ''unsupported protocol version'' JNull
               [(''MCP-Protocol-Version'', DEFAULT_VERSION)]), g, [])
          else (case Option.bind (ge_decode e (post_body rq)) loads of
            None \<Rightarrow> (Some (jsonrpc_error 400 PARSE_ERROR ''parse error'' JNull []), g, [])
          | Some (JArr _) \<Rightarrow> (Some (jsonrpc_error 400 INVALID_REQUEST ''batch requests are not supported'' JNull []), g, [])
          | Some (JObj m) \<Rightarrow> post_message ce rq version m g
          | Some _ \<Rightarrow> (Some (jsonrpc_error 400 INVALID_REQUEST ''invalid request'' JNull []), g, [])))"

definition do_delete :: "gw_env \<Rightarrow> http_request \<Rightarrow> gateway \<Rightarrow> http_answer option \<times> gateway" where
  "do_delete e rq g =
     (case on_mcp e rq of
        Some a \<Rightarrow> (a, g)
      | None \<Rightarrow>
          (case request_session rq JNull g of
             Inl a \<Rightarrow> (Some a, g)
           | Inr s \<Rightarrow>
               let i = ss_id s in
               (Some (respond 200 [] PLAIN), put_notice i StreamEnd (drop_session i (close_session i g)))))"

datatype get_answer = Reply "http_answer option" | OpenStream string

definition do_get :: "gw_env \<Rightarrow> http_request \<Rightarrow> gateway \<Rightarrow> get_answer \<times> gateway" where
  "do_get e rq g =
     (if url_path (ge_netloc e) (hr_target rq) = Some ''/healthz'' then (Reply (Some (respond 200 (''ok'' @ [CHR 0x0A]) PLAIN)), g)
      else case on_mcp e rq of
        Some a \<Rightarrow> (Reply a, g)
      | None \<Rightarrow>
          (case request_session rq JNull g of
             Inl a \<Rightarrow> (Reply (Some a), g)
           | Inr s \<Rightarrow>
               (case acquire_stream (hdr (hr_headers rq) ''Mcp-Session-Id'') g of
                  (False, g1) \<Rightarrow> (Reply (Some (jsonrpc_error 409 SESSION_REQUIRED ''session stream already open'' JNull [])), g1)
                | (True, g1) \<Rightarrow> (OpenStream (ss_id s), g1))))"

section \<open>The event stream\<close>

definition SSE_HEARTBEAT_MS :: int where
  "SSE_HEARTBEAT_MS = 15000"

definition sse_frame :: "json \<Rightarrow> string" where
  "sse_frame j = ''event: message'' @ [CHR 0x0A] @ ''data: '' @ utf8 (dumps (fmt_default False) j) @ [CHR 0x0A, CHR 0x0A]"

definition heartbeat :: string where
  "heartbeat = '': heartbeat'' @ [CHR 0x0A, CHR 0x0A]"

text \<open>
  One turn of the loop: whether the server stops or the manager lost the session, what the queue gives within
  the poll time, whether the two writes succeed, and the clock in milliseconds.
\<close>

record sse_turn =
  tu_over :: bool
  tu_item :: "notice option"
  tu_sent :: bool
  tu_now :: int
  tu_beat :: bool

text \<open>The bytes written, and whether the stream has ended.\<close>

fun sse_stream :: "int \<Rightarrow> sse_turn list \<Rightarrow> string \<times> bool" where
  "sse_stream beat [] = ([], False)"
| "sse_stream beat (t # ts) =
     (if tu_over t \<or> tu_item t = Some StreamEnd then ([], True)
      else case (case tu_item t of Some (Notice j) \<Rightarrow> if tu_sent t then Some (sse_frame j) else None | _ \<Rightarrow> Some []) of
        None \<Rightarrow> ([], True)
      | Some out \<Rightarrow>
          if tu_now t - beat < SSE_HEARTBEAT_MS then apfst ((@) out) (sse_stream beat ts)
          else if tu_beat t then apfst ((@) (out @ heartbeat)) (sse_stream (tu_now t) ts)
          else (out, True))"

text \<open>The notifications a stream takes from the queue before it ends.\<close>

fun sse_sent :: "int \<Rightarrow> sse_turn list \<Rightarrow> json list" where
  "sse_sent beat [] = []"
| "sse_sent beat (t # ts) =
     (let js = (case tu_item t of Some (Notice j) \<Rightarrow> [j] | _ \<Rightarrow> []);
          late = SSE_HEARTBEAT_MS \<le> tu_now t - beat in
      if tu_over t \<or> tu_item t = Some StreamEnd \<or> js \<noteq> [] \<and> \<not> tu_sent t then []
      else if late \<and> \<not> tu_beat t then js
      else js @ sse_sent (if late then tu_now t else beat) ts)"

text \<open>
  A client's side, from the specification of server-sent events: lines end with a line feed; a line that
  starts with a colon is a comment, \<^verbatim>\<open>data\<close> lines collect, and an empty line delivers what was collected.
\<close>

definition sse_line :: "string \<Rightarrow> string option \<Rightarrow> string option" where
  "sse_line l data =
     (if starts_with ''data: '' l then Some (case data of None \<Rightarrow> drop 6 l | Some d \<Rightarrow> d @ CHR 0x0A # drop 6 l) else data)"

fun sse_client :: "string \<Rightarrow> string option \<Rightarrow> string \<Rightarrow> string list" where
  "sse_client l data [] = []"
| "sse_client l data (c # cs) =
     (if c \<noteq> CHR 0x0A then sse_client (l @ [c]) data cs
      else if l = [] then (case data of None \<Rightarrow> sse_client [] None cs | Some d \<Rightarrow> d # sse_client [] None cs)
      else sse_client [] (sse_line l data) cs)"

section \<open>Starting\<close>

definition LOOPBACK_HOST :: string where
  "LOOPBACK_HOST = ''127.0.0.1''"

text \<open>\<^verbatim>\<open>build_server\<close> refuses any other address; \<^verbatim>\<open>main\<close> gives the address the server listens on.\<close>

definition build_gateway :: "string \<Rightarrow> int \<Rightarrow> (string \<times> int) option" where
  "build_gateway host port = (if host \<noteq> LOOPBACK_HOST then None else Some (host, port))"

definition gateway_main :: "(string, string) dict \<Rightarrow> start_error + (string \<times> int) option" where
  "gateway_main env =
     rbind (py_int_env (env_get env ''MCP_HTTP_PORT'' (int_str (DEFAULT_GATEWAY_PORT + 1)))) (\<lambda>port.
     Inr (build_gateway ''127.0.0.1'' port))"

section \<open>What the limits keep\<close>

text \<open>What a limit may do to an item: nothing, or cut its text at the end.\<close>

definition shortened :: "json \<Rightarrow> json \<Rightarrow> bool" where
  "shortened x y \<longleftrightarrow> x = y \<or> (\<exists>t n. text_of y = Some t \<and> x = set_text (take n t) y)"

lemma set_text_twice: "text_of y = Some t \<Longrightarrow> set_text u (set_text v y) = set_text u y"
proof (cases y)
  case (JObj d)
  have "dset ''text'' (JStr u) (dset ''text'' (JStr v) d) = dset ''text'' (JStr u) d" by (induction d) auto
  then show ?thesis by (simp add: JObj set_text_def)
qed (simp_all add: set_text_def)

lemma shortened_refl [simp, intro]: "shortened x x"
  by (simp add: shortened_def)

lemma shortened_trans: "shortened x y \<Longrightarrow> shortened y z \<Longrightarrow> shortened x z"
  by (auto simp: shortened_def set_text_twice) (metis take_take)

abbreviation reduced :: "json list \<Rightarrow> json list \<Rightarrow> bool" where
  "reduced \<equiv> list_emb shortened"

lemma reduced_refl [simp]: "reduced xs xs"
  by (rule list_emb_refl) simp

lemma reduced_trans: "reduced xs ys \<Longrightarrow> reduced ys zs \<Longrightarrow> reduced xs zs"
  by (rule list_emb_trans) (auto intro: shortened_trans)

lemma reduced_pointwise: "list_all2 shortened xs ys \<Longrightarrow> reduced xs ys"
  by (induction rule: list_all2_induct) auto

lemma reduced_update: "i < length xs \<Longrightarrow> shortened x (xs ! i) \<Longrightarrow> reduced (xs[i := x]) xs"
  by (rule reduced_pointwise) (auto simp: list_all2_conv_all_nth nth_list_update)

lemma reduced_delete: "reduced (take i xs @ drop (Suc i) xs) xs"
proof (cases "i < length xs")
  case True
  have "reduced (take i xs @ drop (Suc i) xs) (take i xs @ xs ! i # drop (Suc i) xs)"
    by (rule list_emb_append_mono) (auto intro: list_emb_Cons)
  with True show ?thesis by (simp add: id_take_nth_drop[symmetric])
qed simp

lemma reduced_butlast: "reduced (butlast xs) xs"
proof (cases "xs = []")
  case False
  have "reduced (butlast xs @ []) (butlast xs @ [last xs])" by (rule list_emb_append_mono) auto
  with False show ?thesis by simp
qed simp

lemma reduced_round: "reduced (cap_round items) items"
proof (cases "last_text items")
  case None
  then show ?thesis by (simp add: cap_round_def reduced_butlast)
next
  case (Some i)
  then obtain t where t: "text_of (items ! i) = Some t" "i < length items" "item_text (items ! i) = t"
    using last_text_Some[of items i] by (auto simp: item_text_def)
  then have "shortened (set_text (take n t) (items ! i)) (items ! i)" for n by (auto simp: shortened_def)
  with Some t show ?thesis by (auto simp: cap_round_def Let_def reduced_delete intro!: reduced_update)
qed

lemma cap_loop_bound: "result_chars (fst (cap_loop items b)) \<le> MAX_RESULT_CHARS"
proof (induction items b rule: cap_loop.induct)
  case (1 items b)
  have "result_chars [] \<le> MAX_RESULT_CHARS" by (simp add: result_chars_def dumps_def bracket_def MAX_RESULT_CHARS_def)
  with 1 show ?case by (subst cap_loop.simps) auto
qed

lemma cap_loop_reduced: "reduced (fst (cap_loop items b)) items"
proof (induction items b rule: cap_loop.induct)
  case (1 items b)
  then show ?case using reduced_trans[OF _ reduced_round] by (subst cap_loop.simps) auto
qed

lemma cap_loop_True: "snd (cap_loop items True)"
proof (induction items True rule: cap_loop.induct)
  case (1 items)
  then show ?case by (subst cap_loop.simps) simp
qed

lemma cap_loop_same: "\<not> snd (cap_loop items b) \<Longrightarrow> fst (cap_loop items b) = items"
  by (subst (asm) cap_loop.simps, subst cap_loop.simps) (auto simp: cap_loop_True split: if_splits)

lemma reduced_cut: "reduced (map (cut_text n) items) items"
  by (rule reduced_pointwise) (auto simp: list_all2_conv_all_nth cut_text_def shortened_def split: option.splits)

lemma cut_text_short: "\<not> list_ex (too_long n) items \<Longrightarrow> map (cut_text n) items = items"
  by (rule map_idI) (auto simp: cut_text_def too_long_def list_ex_iff split: option.splits)

text \<open>
  C22. The loop that caps a result ends, for every content: what it returns prints in at most 64000 characters,
  is the original list with items removed or cut at the end of their text, and when nothing is
  reported as truncated it is the original list.
\<close>

theorem cap_content_correct:
  "(case cap_content content of (items, truncated) \<Rightarrow>
      result_chars items \<le> MAX_RESULT_CHARS \<and> reduced items content \<and> (truncated \<or> items = content))"
proof -
  let ?c = "map (cut_text MAX_TEXT_CHARS) content" and ?b = "list_ex (too_long MAX_TEXT_CHARS) content"
  have "reduced (fst (cap_loop ?c ?b)) content" by (rule reduced_trans[OF cap_loop_reduced reduced_cut])
  moreover have "fst (cap_loop ?c ?b) = content" if "\<not> snd (cap_loop ?c ?b)"
  proof -
    have "\<not> ?b" using that cap_loop_True by (cases ?b) auto
    then show ?thesis using cap_loop_same[OF that] cut_text_short by simp
  qed
  ultimately show ?thesis using cap_loop_bound[of ?c ?b] unfolding cap_content_def case_prod_beta by blast
qed

section \<open>Streams\<close>

lemma sse_client_line: "CHR 0x0A \<notin> set l \<Longrightarrow> l \<noteq> [] \<Longrightarrow>
  sse_client [] data (l @ CHR 0x0A # rest) = sse_client [] (sse_line l data) rest"
proof -
  assume l: "CHR 0x0A \<notin> set l" "l \<noteq> []"
  have "sse_client p data (k @ CHR 0x0A # rest) = sse_client [] (sse_line (p @ k) data) rest"
    if "CHR 0x0A \<notin> set k" "p @ k \<noteq> []" for p k
    using that by (induction k arbitrary: p) auto
  from this[of l "[]"] l show ?thesis by simp
qed

definition json_line :: "json \<Rightarrow> string" where
  "json_line j = utf8 (dumps (fmt_default False) j)"

lemma all_chars_True: "all_chars (\<lambda>_. True) j"
  by (induction "\<lambda>_ :: char. True" j rule: all_chars.induct) (simp_all add: list_all_iff)

lemma json_line_LF: "json_exact j \<Longrightarrow> CHR 0x0A \<notin> set (json_line j)"
proof -
  assume "json_exact j"
  then have "list_all (shown (\<lambda>_. True)) (dumps (fmt_default False) j)"
    unfolding dumps_def by (rule dump_shown) (rule all_chars_True)
  then show ?thesis by (auto simp: json_line_def utf8_ascii list_all_iff shown_def)
qed

lemma sse_client_frame:
  "json_exact j \<Longrightarrow> sse_client [] None (sse_frame j @ rest) = json_line j # sse_client [] None rest"
proof -
  assume j: "json_exact j"
  have frame: "sse_frame j @ rest = ''event: message'' @ CHR 0x0A # (''data: '' @ json_line j) @ CHR 0x0A # CHR 0x0A # rest"
    by (simp add: sse_frame_def json_line_def)
  show ?thesis unfolding frame
    by (subst sse_client_line, simp, simp, subst sse_client_line)
      (use json_line_LF[OF j] in \<open>simp_all add: sse_line_def\<close>)
qed

lemma sse_client_heartbeat: "sse_client [] None (heartbeat @ rest) = sse_client [] None rest"
proof -
  have "heartbeat @ rest = '': heartbeat'' @ CHR 0x0A # CHR 0x0A # rest" by (simp add: heartbeat_def)
  then show ?thesis by (simp only:) (subst sse_client_line, simp_all add: sse_line_def)
qed

text \<open>
  C23. A notification cannot break the event stream: a client that parses the bytes by the rules of server-sent
  events gets exactly the notifications taken from the queue, in order and each as one event,
  whatever their content, with heartbeats, failing writes and the end of the stream at any point.
\<close>

theorem sse_stream_events:
  assumes "\<forall>t \<in> set ts. \<forall>j. tu_item t = Some (Notice j) \<longrightarrow> json_exact j"
  shows "sse_client [] None (fst (sse_stream beat ts)) = map json_line (sse_sent beat ts)"
  using assms
proof (induction beat ts rule: sse_stream.induct)
  case (2 beat t ts)
  have j: "tu_item t = Some (Notice j) \<Longrightarrow> json_exact j" for j using 2(3) by simp
  let ?fr = "case tu_item t of Some (Notice j) \<Rightarrow> sse_frame j | _ \<Rightarrow> []"
  let ?js = "case tu_item t of Some (Notice j) \<Rightarrow> [j] | _ \<Rightarrow> []"
  have fr: "sse_client [] None (?fr @ r) = map json_line ?js @ sse_client [] None r" for r
    using sse_client_frame[OF j] by (auto split: option.splits notice.splits)
  show ?case
  proof (cases "tu_over t \<or> tu_item t = Some StreamEnd \<or> ?js \<noteq> [] \<and> \<not> tu_sent t")
    case True
    then show ?thesis by (auto split: option.splits notice.splits)
  next
    case False
    then have out: "(case tu_item t of Some (Notice j) \<Rightarrow> if tu_sent t then Some (sse_frame j) else None | _ \<Rightarrow> Some []) = Some ?fr"
      "\<not> (tu_over t \<or> tu_item t = Some StreamEnd)" by (auto split: option.splits notice.splits)
    have IH1: "sse_client [] None (fst (sse_stream beat ts)) = map json_line (sse_sent beat ts)"
      if "tu_now t - beat < SSE_HEARTBEAT_MS"
      by (rule 2(1)[OF out(2,1) that]) (use 2(3) in simp)
    have IH2: "sse_client [] None (fst (sse_stream (tu_now t) ts)) = map json_line (sse_sent (tu_now t) ts)"
      if "\<not> tu_now t - beat < SSE_HEARTBEAT_MS" "tu_beat t"
      by (rule 2(2)[OF out(2,1) that]) (use 2(3) in simp)
    have st: "sse_sent beat (t # ts) = (if SSE_HEARTBEAT_MS \<le> tu_now t - beat \<and> \<not> tu_beat t then ?js
        else ?js @ sse_sent (if SSE_HEARTBEAT_MS \<le> tu_now t - beat then tu_now t else beat) ts)"
      using False by (simp only: sse_sent.simps Let_def if_False) 
    show ?thesis
      unfolding st using out fr[of "[]"] IH1 IH2 by (auto simp: fr sse_client_heartbeat)
  qed
qed simp

theorem sse_stream_events_witness:
  "sse_client [] None (fst (sse_stream 0 [\<lparr>tu_over = False, tu_item = Some (Notice (JStr [CHR 0x0A])), tu_sent = True, tu_now = 20000,
     tu_beat = True\<rparr>])) = [json_line (JStr [CHR 0x0A])]"
  by (subst sse_stream_events) (simp_all add: SSE_HEARTBEAT_MS_def)

section \<open>Authorization\<close>

lemma auth_ok_header:
  assumes "ge_token e \<noteq> []" "inj (ge_digest e)"
  shows "auth_ok e rq \<longleftrightarrow> (\<exists>scheme. hdr (hr_headers rq) ''Authorization'' = scheme @ '' '' @ ge_token e \<and> lower scheme = ''bearer'')"
proof -
  let ?h = "hdr (hr_headers rq) ''Authorization''"
  obtain s f v where p: "py_partition '' '' ?h = (s, f, v)" by (cases "py_partition '' '' ?h")
  have "ge_digest e (utf8 v) = ge_digest e (utf8 (ge_token e)) \<longleftrightarrow> v = ge_token e"
    unfolding inj_eq[OF assms(2)] utf8_inj ..
  then have auth: "auth_ok e rq \<longleftrightarrow> lower s = ''bearer'' \<and> v = ge_token e"
    unfolding auth_ok_def p prod.case constant_time_equal_def using assms(1) by simp
  have split: "if f then ?h = s @ CHR '' '' # v else ?h = s \<and> v = []"
    using py_partition_char_cases[OF p] by simp
  have sp: "CHR '' '' \<notin> set sc" if "lower sc = ''bearer''" for sc
  proof
    assume "CHR '' '' \<in> set sc"
    then have "lower_ch (CHR '' '') \<in> set (lower sc)" by simp
    then show False unfolding that by (simp add: lower_ch_def)
  qed
  show ?thesis
  proof
    assume "auth_ok e rq"
    then have s: "lower s = ''bearer''" "v = ge_token e" using auth by blast+
    then have "?h = s @ '' '' @ ge_token e" using split assms(1) by (cases f) simp_all
    then show "\<exists>scheme. ?h = scheme @ '' '' @ ge_token e \<and> lower scheme = ''bearer''"
      using s(1) by (intro exI[of _ s] conjI)
  next
    assume "\<exists>scheme. ?h = scheme @ '' '' @ ge_token e \<and> lower scheme = ''bearer''"
    then obtain sc where sc: "?h = sc @ '' '' @ ge_token e" "lower sc = ''bearer''" by (elim exE conjE)
    have "py_partition '' '' ?h = (sc, True, ge_token e)"
      unfolding sc(1) using py_partition_char[OF sp[OF sc(2)], of "ge_token e"] by simp
    then have "s = sc" "v = ge_token e" unfolding p by simp_all
    then show "auth_ok e rq" unfolding auth using sc(2) by (intro conjI) (simp_all only:)
  qed
qed

lemma on_mcp_unauthorized:
  "\<not> auth_ok e rq \<Longrightarrow> \<exists>a \<in> {None, Some (respond 404 [] PLAIN), Some unauthorized}. on_mcp e rq = Some a"
  by (simp add: on_mcp_def split: option.split)


definition demo_gw_env :: gw_env where
  "demo_gw_env = \<lparr>ge_token = ''t'', ge_digest = (\<lambda>x. x), ge_decode = Some, ge_netloc = (\<lambda>_. True)\<rparr>"


section \<open>Answers\<close>

text \<open>A JSON-RPC answer to a request: its id, and a result or an error.\<close>

definition answers_id :: "json \<Rightarrow> http_answer \<Rightarrow> bool" where
  "answers_id i a \<longleftrightarrow> (\<exists>k v. (k = ''result'' \<or> k = ''error'') \<and>
     an_body a = json_line (JObj [(''jsonrpc'', JStr ''2.0''), (''id'', i), (k, v)]) \<and>
     (''Content-Length'', nat_str (length (an_body a))) \<in> set (an_headers a))"

lemma answers_id_intros [simp]:
  "answers_id i (jsonrpc_result r i extra)" "answers_id i (jsonrpc_error status err why i extra)"
  by (auto simp: answers_id_def jsonrpc_result_def jsonrpc_error_def send_json_def Let_def json_line_def)

lemma call_answer_id [simp]: "answers_id i (call_answer i r)"
  by (simp add: call_answer_def split: prod.split)

lemma call_reply_id [simp]: "answers_id i (call_reply i r)"
  by (simp add: call_reply_def split: sum.split call_failure.split)

lemma tools_call_id: "answers_id i (fst (tools_call ce params i s))"
  by (simp add: tools_call_def split: sum.split prod.split)

lemma method_call_id: "i \<noteq> JNull \<Longrightarrow> \<exists>a. fst (method_call ce meth params i s) = Some a \<and> answers_id i a"
  using tools_call_id[of i ce params s] by (auto simp: method_call_def split: prod.splits)

lemma handle_initialize_id: "answers_id i (fst (handle_initialize ce version i g))"
  by (simp add: handle_initialize_def Let_def split: option.split prod.split sum.split create_error.split)


definition demo_ping :: string where
  "demo_ping = dumps (fmt_default False) (JObj [(''method'', JStr ''ping''), (''id'', JInt 7)])"

definition demo_post :: http_request where
  "demo_post = \<lparr>hr_target = ''/mcp'', hr_headers = [(''Authorization'', ''Bearer t''),
     (''Content-Length'', int_str (int (length demo_ping)))], hr_rest = demo_ping\<rparr>"

lemma demo_post:
  "on_mcp demo_gw_env demo_post = None" "hdr (hr_headers demo_post) ''MCP-Protocol-Version'' = []"
  "ge_decode demo_gw_env (post_body demo_post) = Some demo_ping"
proof -
  have h: "hdr (hr_headers demo_post) ''Authorization'' = ''Bearer t''" by (simp add: demo_post_def)
  have "lower ''Bearer'' = ''bearer''" by code_simp
  then have "auth_ok demo_gw_env demo_post" unfolding auth_ok_def h by (simp add: demo_gw_env_def constant_time_equal_def)
  moreover have "url_path (ge_netloc demo_gw_env) ''/mcp'' = Some ''/mcp''" by code_simp
  ultimately show "on_mcp demo_gw_env demo_post = None" by (simp add: on_mcp_def demo_post_def)
  have n: "lower ''Authorization'' = ''authorization''" "lower ''Content-Length'' = ''content-length''"
    "lower ''MCP-Protocol-Version'' = ''mcp-protocol-version''" by code_simp+
  then show "hdr (hr_headers demo_post) ''MCP-Protocol-Version'' = []" by (simp add: demo_post_def)
  have "demo_ping \<noteq> []" by (simp add: demo_ping_def dumps_def bracket_def)
  then show "ge_decode demo_gw_env (post_body demo_post) = Some demo_ping"
    using n by (simp add: demo_post_def post_body_def demo_gw_env_def Let_def)
qed


section \<open>Sessions over a run of the server\<close>

text \<open>What handlers do to the manager.\<close>

inductive evolves :: "manager option \<Rightarrow> manager option \<Rightarrow> bool" where
  same: "evolves m m"
| fresh: "evolves None (Some (new_manager n idle))"
| create: "create_session pol spawn now m = (r, m') \<Longrightarrow> evolves (Some m) (Some m')"
| update: "evolves (Some m) (Some (m\<lparr>mg_sessions := map (\<lambda>(i, t). if i = ss_id s then (i, s) else (i, t)) (mg_sessions m)\<rparr>))"
| closed: "evolves (Some m) (Some (mgr_drop i m))"
| steps: "evolves m m' \<Longrightarrow> evolves m' m'' \<Longrightarrow> evolves m m''"

text \<open>An invariant of the manager, and the session \<open>i\<close> that is gone.\<close>

definition held :: "manager option \<Rightarrow> bool" where
  "held mo \<longleftrightarrow> (case mo of None \<Rightarrow> True | Some m \<Rightarrow> mgr_inv m \<and> (\<forall>p \<in> set (mg_sessions m). ss_id (snd p) = fst p))"

definition gone :: "string \<Rightarrow> manager option \<Rightarrow> bool" where
  "gone i mo \<longleftrightarrow> (case mo of None \<Rightarrow> False | Some m \<Rightarrow> id_born m i \<and> i \<notin> set (dkeys (mg_sessions m)))"

lemma evolves_held: "evolves mo mo' \<Longrightarrow> held mo \<Longrightarrow> held mo' \<and> (gone i mo \<longrightarrow> gone i mo')"
proof (induction rule: evolves.induct)
  case (fresh n idle)
  show ?case by (simp add: held_def gone_def mgr_inv_def new_manager_def)
next
  case (create pol spawn now m r m')
  from create(1) show ?case
  proof (cases rule: create_session_cases)
    case 1
    with create(2) show ?thesis by simp
  next
    case 2
    with create(2) show ?thesis by (fastforce simp: held_def gone_def mgr_inv_def id_born_def less_Suc_eq)
  next
    case (3 s)
    have "\<not> id_born m (session_name (mg_next m))" by (simp add: id_born_def session_name_inj)
    then have new: "session_name (mg_next m) \<notin> set (dkeys (mg_sessions m))" using create(2) by (auto simp: held_def mgr_inv_def)
    have born: "id_born m' j \<longleftrightarrow> j = session_name (mg_next m) \<or> id_born m j" for j
      unfolding 3(3) by (auto simp: id_born_def less_Suc_eq)
    have d: "mg_sessions m' = mg_sessions m @ [(session_name (mg_next m), s)]"
      unfolding 3(3) using dset_new[OF new] by simp
    show ?thesis using create(2) new born 3(2) \<open>\<not> id_born m _\<close> by (auto simp: held_def gone_def mgr_inv_def d)
  qed
next
  case (update m s)
  have "id_born (m\<lparr>mg_sessions := ss\<rparr>) = id_born m" for ss by (simp add: id_born_def fun_eq_iff)
  moreover have "fst \<circ> (\<lambda>(i, t). if i = ss_id s then (i, s) else (i, t)) = fst" by auto
  ultimately show ?case using update by (auto simp: held_def gone_def mgr_inv_def split: if_splits)
next
  case (closed m j)
  have "id_born (mgr_drop j m) = id_born m" by (simp add: id_born_def fun_eq_iff mgr_drop_def)
  then show ?case using closed by (auto simp: held_def gone_def mgr_inv_def mgr_drop_def dest: ddel_mem)
qed auto

lemma evolves_put: "evolves (gw_manager g) (gw_manager (put_session s g))"
  by (cases "gw_manager g") (auto simp: put_session_def intro: evolves.intros)

lemma evolves_close: "evolves (gw_manager g) (gw_manager (close_session i g))"
  by (cases "gw_manager g") (auto simp: close_session_def intro: evolves.intros)

lemma manager_simps [simp]:
  "gw_manager (put_notice i n g) = gw_manager g" "gw_manager (drop_session i g) = gw_manager g"
  "gw_manager (known_session i g) = gw_manager g" "gw_manager (snd (acquire_stream i g)) = gw_manager g"
  "gw_manager (release_stream i g) = gw_manager g"
  by (simp_all add: put_notice_def drop_session_def known_session_def acquire_stream_def release_stream_def)

lemma evolves_initialize: "evolves (gw_manager g) (gw_manager (snd (handle_initialize ce version i g)))"
proof (cases "case gw_manager g of None \<Rightarrow> map_option (\<lambda>(n, idle). new_manager n idle) (ce_fresh ce) | Some m \<Rightarrow> Some m")
  case None
  then show ?thesis by (simp add: handle_initialize_def Let_def same)
next
  case (Some m)
  have first: "evolves (gw_manager g) (Some m)"
    using Some by (cases "gw_manager g") (auto intro: evolves.intros)
  obtain r m1 where r: "create_session (ce_policy ce) (ce_spawn ce) (ce_now ce) m = (r, m1)" by fastforce
  have "evolves (gw_manager g) (Some m1)" by (rule evolves.steps[OF first evolves.create[OF r]])
  with first Some r show ?thesis
    by (auto simp: handle_initialize_def Let_def split: sum.splits create_error.splits)
qed

lemma evolves_post: "do_post e ce rq g = (a, g', fx) \<Longrightarrow> evolves (gw_manager g) (gw_manager g')"
proof -
  assume post: "do_post e ce rq g = (a, g', fx)"
  have msg: "evolves (gw_manager g) (gw_manager g1)" if "post_message ce rq v m g = (b, g1, fy)" for v m b g1 fy
    using that evolves_initialize[of g ce v "obj_get m ''id''"] evolves_put[of g]
    by (auto simp: post_message_def Let_def same split: json.splits if_splits sum.splits prod.splits)
  show ?thesis using post msg
    by (auto simp: do_post_def Let_def same split: option.splits if_splits json.splits)
qed

datatype gw_op = Post gw_env call_env http_request | Delete gw_env http_request | Get gw_env http_request
  | EndStream string | Stop

fun gw_step :: "gw_op \<Rightarrow> gateway \<Rightarrow> gateway" where
  "gw_step (Post e ce rq) g = fst (snd (do_post e ce rq g))"
| "gw_step (Delete e rq) g = snd (do_delete e rq g)"
| "gw_step (Get e rq) g = snd (do_get e rq g)"
| "gw_step (EndStream i) g = release_stream i g"
| "gw_step Stop g = stop_gateway g"

lemma evolves_closes: "evolves (gw_manager g) (gw_manager (fold close_session ids g))"
proof (induction ids arbitrary: g)
  case (Cons i ids)
  show ?case using evolves.steps[OF evolves_close Cons] by simp
qed (simp add: same)

lemma manager_notices [simp]: "gw_manager (fold (\<lambda>i. put_notice i n) ids g) = gw_manager g"
  by (induction ids arbitrary: g) simp_all

lemma evolves_step: "evolves (gw_manager g) (gw_manager (gw_step op g))"
proof (cases op)
  case (Post e ce rq)
  then show ?thesis using evolves_post by (cases "do_post e ce rq g") auto
next
  case (Delete e rq)
  then show ?thesis using evolves_close[of g]
    by (auto simp: do_delete_def Let_def same split: option.split sum.split)
next
  case (Get e rq)
  have "gw_manager g1 = gw_manager g" if "acquire_stream i g = (b, g1)" for i b g1
    using that manager_simps(4)[of i g] by simp
  with Get show ?thesis by (auto simp: do_get_def same split: option.split sum.split prod.split bool.split)
next
  case Stop
  then show ?thesis using evolves_closes[of "g\<lparr>gw_known := [], gw_stopping := True\<rparr>"]
    evolves_closes[of "fold (\<lambda>i. put_notice i StreamEnd) (gw_known g) (g\<lparr>gw_known := [], gw_stopping := True\<rparr>)"]
    by (simp add: stop_gateway_def same Let_def)
qed (simp add: same)

lemma evolves_run: "evolves (gw_manager g) (gw_manager (fold gw_step ops g))"
proof (induction ops arbitrary: g)
  case (Cons op ops)
  show ?case using evolves.steps[OF evolves_step Cons] by simp
qed (simp add: same)

text \<open>
  C20. Deleting a session ends it for good: after a DELETE that was answered with 200, in any run of the server, no further
  run of requests makes the id known again, so every later request under it gets the answer that the
  session is not found.
\<close>

theorem deleted_session_gone:
  assumes "do_delete e rq (fold gw_step ops new_gateway) = (Some (respond 200 [] PLAIN), g)"
    and "auth_ok e rq" "url_path (ge_netloc e) (hr_target rq) = Some ''/mcp''"
  shows "request_session rq rpc_id (fold gw_step later g) =
    Inl (jsonrpc_error 404 SESSION_NOT_FOUND ''session not found'' rpc_id [])"
proof -
  let ?g0 = "fold gw_step ops new_gateway" and ?i = "hdr (hr_headers rq) ''Mcp-Session-Id''"
  have "held (gw_manager ?g0)" using evolves_held[OF evolves_run, of new_gateway ops] by (simp add: new_gateway_def held_def)
  have on: "on_mcp e rq = None" using assms(2,3) by (simp add: on_mcp_def)
  have err: "jsonrpc_error st c w i x \<noteq> respond 200 [] PLAIN" for st c w i x
    by (simp add: jsonrpc_error_def send_json_def Let_def respond_def PLAIN_def)
  from assms(1) obtain s where s: "request_session rq JNull ?g0 = Inr s"
    "g = put_notice (ss_id s) StreamEnd (drop_session (ss_id s) (close_session (ss_id s) ?g0))"
    by (auto simp: do_delete_def on request_session_def err Let_def split: if_splits option.splits)
  then obtain m where m: "gw_manager ?g0 = Some m" "manager_get m ?i = Some s" "?i \<noteq> []"
    by (auto simp: request_session_def find_session_def Let_def split: if_splits option.splits)
  have "(?i, s) \<in> set (mg_sessions m)" using m(2) by (auto simp: manager_get_def dest: map_of_SomeD)
  then have i: "ss_id s = ?i" "id_born m ?i" using \<open>held _\<close> by (auto simp: m(1) held_def mgr_inv_def)
  have "gw_manager g = Some (mgr_drop ?i m)" by (simp add: s(2) close_session_def m(1) i(1))
  moreover have "id_born (mgr_drop ?i m) = id_born m" by (simp add: id_born_def fun_eq_iff mgr_drop_def)
  moreover have "?i \<notin> set (dkeys (mg_sessions (mgr_drop ?i m)))" by (simp add: mgr_drop_def delete_keys)
  ultimately have "gone ?i (gw_manager g)" using i(2) unfolding gone_def by (simp only: option.case simp_thms)
  moreover have "held (gw_manager g)" using evolves_held[OF evolves_close[of ?g0 "ss_id s"]] \<open>held _\<close> by (simp add: s(2))
  ultimately have "gone ?i (gw_manager (fold gw_step later g))" using evolves_held[OF evolves_run[of g later], of ?i] by blast
  then have "find_session (fold gw_step later g) ?i = None"
    by (auto simp: gone_def find_session_def manager_get_def map_of_eq_None_iff split: option.splits)
  then show ?thesis using m(3) by (simp add: request_session_def Let_def)
qed

definition demo_init :: http_request where
  "demo_init = demo_post\<lparr>hr_headers := [(''Authorization'', ''Bearer t''), (''Content-Length'',
     int_str (int (length (dumps (fmt_default False) (JObj [(''method'', JStr ''initialize'')])))))],
     hr_rest := dumps (fmt_default False) (JObj [(''method'', JStr ''initialize'')])\<rparr>"

definition demo_delete :: http_request where
  "demo_delete = demo_post\<lparr>hr_headers := [(''Authorization'', ''Bearer t''), (''Mcp-Session-Id'', ''sess-1'')]\<rparr>"

definition demo_call_env :: call_env where
  "demo_call_env = \<lparr>ce_policy = demo_policy, ce_defaults = True, ce_fresh = Some (4, 1800), ce_spawn = (\<lambda>_. Some []),
     ce_now = 0, ce_latency = 0, ce_late = False, ce_upstream = (\<lambda>_ _. Inl ''x''), ce_inflight = (\<lambda>_. None)\<rparr>"

lemma demo_auth:
  "hr_headers rq = (''Authorization'', ''Bearer t'') # hs \<Longrightarrow> auth_ok demo_gw_env rq"
  "url_path (ge_netloc demo_gw_env) ''/mcp'' = Some ''/mcp''"
proof -
  assume h: "hr_headers rq = (''Authorization'', ''Bearer t'') # hs"
  have "lower ''Bearer'' = ''bearer''" by code_simp
  then show "auth_ok demo_gw_env rq" by (simp add: auth_ok_def h demo_gw_env_def constant_time_equal_def)
next
  show "url_path (ge_netloc demo_gw_env) ''/mcp'' = Some ''/mcp''" by code_simp
qed

lemma demo_known: "\<exists>s. ss_id s = ''sess-1'' \<and> find_session (fold gw_step [Post demo_gw_env demo_call_env demo_init] new_gateway) ''sess-1'' = Some s"
proof -
  let ?txt = "dumps (fmt_default False) (JObj [(''method'', JStr ''initialize'')])"
  have "auth_ok demo_gw_env demo_init" by (rule demo_auth(1)) (simp add: demo_init_def)
  then have on: "on_mcp demo_gw_env demo_init = None" using demo_auth(2) by (simp add: on_mcp_def demo_init_def demo_post_def)
  have n: "lower ''Authorization'' = ''authorization''" "lower ''Content-Length'' = ''content-length''"
    "lower ''MCP-Protocol-Version'' = ''mcp-protocol-version''" by code_simp+
  then have v: "hdr (hr_headers demo_init) ''MCP-Protocol-Version'' = []" by (simp add: demo_init_def)
  have "?txt \<noteq> []" by (simp add: dumps_def bracket_def)
  then have b: "ge_decode demo_gw_env (post_body demo_init) = Some ?txt"
    using n by (simp add: demo_init_def post_body_def demo_gw_env_def Let_def)
  have "loads ?txt = Some (JObj [(''method'', JStr ''initialize'')])" by (rule loads_dumps) simp_all
  then have "do_post demo_gw_env demo_call_env demo_init new_gateway =
      post_message demo_call_env demo_init [] [(''method'', JStr ''initialize'')] new_gateway"
    by (simp add: do_post_def on v b Let_def)
  moreover have "session_name 1 = ''sess-1''" by code_simp
  ultimately show ?thesis
    by (simp add: post_message_def obj_get_def handle_initialize_def new_gateway_def demo_call_env_def create_session_def
        create_begin_def create_end_def new_manager_def register_session_def new_session_def known_session_def
        find_session_def manager_get_def Let_def)
qed

theorem deleted_session_gone_witness:
  "\<forall>later. \<exists>g. snd (do_delete demo_gw_env demo_delete (fold gw_step [Post demo_gw_env demo_call_env demo_init] new_gateway)) = g \<and>
     request_session demo_delete (JInt 1) (fold gw_step later g) =
       Inl (jsonrpc_error 404 SESSION_NOT_FOUND ''session not found'' (JInt 1) [])"
proof -
  let ?g0 = "fold gw_step [Post demo_gw_env demo_call_env demo_init] new_gateway"
  have auth: "auth_ok demo_gw_env demo_delete" by (rule demo_auth(1)) (simp add: demo_delete_def)
  have path: "url_path (ge_netloc demo_gw_env) (hr_target demo_delete) = Some ''/mcp''"
    using demo_auth(2) by (simp add: demo_delete_def demo_post_def)
  have "lower ''Authorization'' = ''authorization''" "lower ''Mcp-Session-Id'' = ''mcp-session-id''" by code_simp+
  then have h: "hdr (hr_headers demo_delete) ''Mcp-Session-Id'' = ''sess-1''" by (simp add: demo_delete_def)
  obtain s where s: "ss_id s = ''sess-1''" "find_session ?g0 ''sess-1'' = Some s" using demo_known by blast
  obtain g where g: "do_delete demo_gw_env demo_delete ?g0 = (Some (respond 200 [] PLAIN), g)"
    using auth path s by (simp add: do_delete_def on_mcp_def request_session_def h Let_def)
  show ?thesis using deleted_session_gone[OF g auth path] g by simp
qed

end
