(* ===== verification/Upstream.thy ===== *)
theory Upstream
  imports Json
begin

text \<open>
  One stdio child of the gateway (\<^verbatim>\<open>home/rdm/gateway/upstream.py\<close>): requests and the table of the ones that
  wait, the lines the child prints, its death, and the supervisor that restarts it. A request is a
  beginning and an end, between which the reader thread handles lines; the cycle lock lets one request
  be under way. Whether a write succeeds, the clock and the decoding of a line are parameters; the process
  itself and the log files are not modelled.
\<close>

section \<open>State\<close>

text \<open>\<open>us_busy\<close> is the request that holds the cycle lock; \<open>us_answers\<close> are the responses set in its slot.\<close>

record upstream =
  us_spawned :: bool
  us_running :: bool
  us_closed :: bool
  us_dead :: bool
  us_next :: nat
  us_busy :: "(nat \<times> string) option"
  us_pending :: "nat list"
  us_answers :: "(nat, (string \<times> json) list) dict"
  us_reader :: bool
  us_out :: string
  us_notes :: "json list"
  us_capabilities :: json
  us_instructions :: json
  us_tools :: json
  us_attempts :: nat

definition new_upstream :: upstream where
  "new_upstream = \<lparr>us_spawned = False, us_running = False, us_closed = False, us_dead = True, us_next = 1, us_busy = None,
     us_pending = [], us_answers = [], us_reader = False, us_out = [], us_notes = [], us_capabilities = JObj [],
     us_instructions = JStr [], us_tools = JArr [], us_attempts = 0\<rparr>"

definition up_live :: "upstream \<Rightarrow> bool" where
  "up_live u \<longleftrightarrow> \<not> us_closed u \<and> \<not> us_dead u \<and> us_spawned u \<and> us_running u"

definition inflight_id :: "upstream \<Rightarrow> nat option" where
  "inflight_id u = (case us_pending u of [] \<Rightarrow> None | i # _ \<Rightarrow> Some i)"

text \<open>What a request raises: an \<^verbatim>\<open>UpstreamError\<close> with its text, or another exception.\<close>

datatype up_error = UpError string | UpRaised

section \<open>Requests\<close>

definition up_send :: "bool \<Rightarrow> json \<Rightarrow> upstream \<Rightarrow> up_error option \<times> upstream" where
  "up_send written message u =
     (if \<not> us_spawned u \<or> us_closed u then (Some (UpError ''upstream child is not running''), u)
      else if \<not> written then (Some (UpError ''upstream write failed''), u)
      else (None, u\<lparr>us_out := us_out u @ utf8 (dumps (fmt_default False) message @ [CHR 0x0A])\<rparr>))"

definition up_message :: "json option \<Rightarrow> string \<Rightarrow> (string \<times> json) list \<Rightarrow> json" where
  "up_message i meth params =
     JObj ([(''jsonrpc'', JStr ''2.0'')] @ (case i of None \<Rightarrow> [] | Some j \<Rightarrow> [(''id'', j)]) @ [(''method'', JStr meth)] @
       (if params = [] then [] else [(''params'', JObj params)]))"

definition notify :: "bool \<Rightarrow> string \<Rightarrow> (string \<times> json) list \<Rightarrow> upstream \<Rightarrow> up_error option \<times> upstream" where
  "notify written meth params u = up_send written (up_message None meth params) u"

definition cancel_upstream :: "bool \<Rightarrow> json \<Rightarrow> upstream \<Rightarrow> up_error option \<times> upstream" where
  "cancel_upstream written i u = notify written ''notifications/cancelled'' [(''requestId'', i)] u"

text \<open>The beginning registers the id and writes the message; it needs the lock.\<close>

definition request_begin :: "bool \<Rightarrow> string \<Rightarrow> (string \<times> json) list \<Rightarrow> upstream \<Rightarrow> up_error option \<times> upstream" where
  "request_begin written meth params u =
     (let i = us_next u;
          u1 = u\<lparr>us_next := i + 1, us_pending := us_pending u @ [i], us_busy := Some (i, meth)\<rparr> in
      case up_send written (up_message (Some (JInt (int i))) meth params) u1 of
        (Some err, u2) \<Rightarrow> (Some err, u2\<lparr>us_pending := removeAll i (us_pending u2), us_busy := None\<rparr>)
      | (None, u2) \<Rightarrow> (None, u2))"

text \<open>\<open>pr\<close> prints a JSON value as a format string does.\<close>

definition response_result :: "(json \<Rightarrow> string) \<Rightarrow> (string \<times> json) list \<Rightarrow> up_error + json" where
  "response_result pr response =
     (if has_key response ''error'' then
        let err = obj_get response ''error'' in
        case (if truthy err then err else JObj []) of
          JObj d \<Rightarrow> Inl (UpError (''upstream error '' @ pr (obj_get d ''code'') @ '': '' @ pr (obj_get d ''message'')))
        | _ \<Rightarrow> Inl UpRaised
      else Inr (if truthy (obj_get response ''result'') then obj_get response ''result'' else JObj []))"

text \<open>The end: the slot was set, or the time is over.\<close>

definition request_end :: "(json \<Rightarrow> string) \<Rightarrow> upstream \<Rightarrow> (up_error + json) option \<times> upstream" where
  "request_end pr u =
     (case us_busy u of
        None \<Rightarrow> (None, u)
      | Some (i, meth) \<Rightarrow>
          (case dget (us_answers u) i of
             None \<Rightarrow> (Some (Inl (UpError (''upstream timeout: '' @ meth))),
                       u\<lparr>us_busy := None, us_pending := removeAll i (us_pending u)\<rparr>)
           | Some response \<Rightarrow> (Some (response_result pr response), u\<lparr>us_busy := None, us_answers := ddel i (us_answers u)\<rparr>)))"

section \<open>The reader\<close>

text \<open>
  The id of a message as a key of the table of integers: \<^verbatim>\<open>true\<close>, \<^verbatim>\<open>false\<close> and a float without a fraction
  equal an integer in Python. An id that cannot be a key raises: \<^const>\<open>None\<close>.
\<close>

datatype key = KeyInt int | KeyOther

definition float_int :: "string \<Rightarrow> int option" where
  "float_int t = (case py_partition ''.'' t of
      (a, True, f) \<Rightarrow> if f \<noteq> [] \<and> list_all (\<lambda>c. c = CHR ''0'') f then py_int a else None
    | _ \<Rightarrow> None)"

definition key_of :: "json \<Rightarrow> key option" where
  "key_of j =
     (case j of
        JInt i \<Rightarrow> Some (KeyInt i)
      | JBool b \<Rightarrow> Some (KeyInt (if b then 1 else 0))
      | JFloat t \<Rightarrow> Some (case float_int t of None \<Rightarrow> KeyOther | Some i \<Rightarrow> KeyInt i)
      | JArr _ \<Rightarrow> None | JObj _ \<Rightarrow> None | _ \<Rightarrow> Some KeyOther)"

definition resolve_pending :: "(string \<times> json) list \<Rightarrow> upstream \<Rightarrow> upstream option" where
  "resolve_pending message u =
     (case key_of (obj_get message ''id'') of
        None \<Rightarrow> None
      | Some (KeyInt i) \<Rightarrow>
          Some (if 0 \<le> i \<and> nat i \<in> set (us_pending u)
            then u\<lparr>us_pending := removeAll (nat i) (us_pending u), us_answers := dset (nat i) message (us_answers u)\<rparr>
            else u)
      | Some KeyOther \<Rightarrow> Some u)"

text \<open>One line of the child: \<^const>\<open>None\<close> is an exception, which ends the reader thread.\<close>

definition read_line :: "(string \<Rightarrow> string option) \<Rightarrow> string \<Rightarrow> upstream \<Rightarrow> upstream option" where
  "read_line decode raw u =
     (let line = strip_by is_bws raw in
      if line = [] then Some u
      else case Option.bind (decode line) loads of
        Some (JObj m) \<Rightarrow>
          if has_key m ''method'' \<and> \<not> has_key m ''id'' then Some (u\<lparr>us_notes := us_notes u @ [JObj m]\<rparr>)
          else if has_key m ''id'' then resolve_pending m u
          else Some u
      | _ \<Rightarrow> Some u)"

definition crash_response :: "string \<Rightarrow> nat \<Rightarrow> (string \<times> json) list" where
  "crash_response name i =
     [(''jsonrpc'', JStr ''2.0''), (''id'', JInt (int i)),
      (''error'', JObj [(''code'', JInt (- 32603)), (''message'', JStr (''upstream child '' @ [CHR 0x27] @ name @ [CHR 0x27] @ '' crashed''))])]"

definition on_death :: "string \<Rightarrow> upstream \<Rightarrow> upstream" where
  "on_death name u =
     u\<lparr>us_pending := [], us_answers := fold (\<lambda>i. dset i (crash_response name i)) (us_pending u) (us_answers u), us_dead := True\<rparr>"

text \<open>What the reader thread does next: a line, or the end of the output.\<close>

definition reader_step :: "(string \<Rightarrow> string option) \<Rightarrow> string \<Rightarrow> string option \<Rightarrow> upstream \<Rightarrow> upstream" where
  "reader_step decode name input u =
     (if \<not> us_reader u then u
      else case input of
        None \<Rightarrow> (on_death name u)\<lparr>us_reader := False, us_running := False\<rparr>
      | Some raw \<Rightarrow>
          (case read_line decode raw u of
             None \<Rightarrow> u\<lparr>us_reader := False\<rparr>
           | Some u1 \<Rightarrow> u1))"

section \<open>Start, end and restart\<close>

definition spawn_child :: "upstream \<Rightarrow> upstream" where
  "spawn_child u = u\<lparr>us_spawned := True, us_running := True, us_reader := True\<rparr>"

text \<open>
  The end of \<^verbatim>\<open>start\<close>, from what its two requests and the notification gave: the child runs, or is killed.
  A result that is not an object raises, outside the handler of exceptions.
\<close>

datatype start_outcome = Started | NotStarted | StartRaised

definition start_end :: "up_error + json \<Rightarrow> up_error option \<Rightarrow> up_error + json \<Rightarrow> upstream \<Rightarrow> start_outcome \<times> upstream" where
  "start_end init note listed u =
     (case (init, note, listed) of
        (Inr i, None, Inr l) \<Rightarrow>
          (case i of
             JObj a \<Rightarrow>
               let or_else = (\<lambda>v d. if truthy v then v else d);
                   u1 = u\<lparr>us_capabilities := or_else (obj_get a ''capabilities'') (JObj []),
                          us_instructions := or_else (obj_get a ''instructions'') (JStr [])\<rparr> in
               (case l of
                  JObj b \<Rightarrow> (Started, u1\<lparr>us_tools := or_else (obj_get b ''tools'') (JArr []), us_dead := False\<rparr>)
                | _ \<Rightarrow> (StartRaised, u1))
           | _ \<Rightarrow> (StartRaised, u))
      | _ \<Rightarrow> (NotStarted, u\<lparr>us_running := False\<rparr>))"

definition close_child :: "upstream \<Rightarrow> upstream" where
  "close_child u = u\<lparr>us_closed := True, us_running := False\<rparr>"

definition BACKOFF_CAP :: nat where
  "BACKOFF_CAP = 60"

text \<open>
  Seconds before the restart after so many failed ones. The factor is a float, so from \<open>2 ^ 1024\<close> on the
  product raises \<^verbatim>\<open>OverflowError\<close>.
\<close>

definition backoff :: "nat \<Rightarrow> nat option" where
  "backoff attempts = (if 1024 \<le> attempts then None else Some (min (2 ^ attempts) BACKOFF_CAP))"

datatype restart_end = StillTrying nat | Restarted | SupervisorDied

text \<open>The inner loop of \<^verbatim>\<open>_supervise\<close> after a death, over what its starts give: the delays and how it ends.\<close>

fun restart :: "nat \<Rightarrow> start_outcome list \<Rightarrow> nat list \<times> restart_end" where
  "restart attempts [] = ([], StillTrying attempts)"
| "restart attempts (r # rs) =
     (case backoff attempts of
        None \<Rightarrow> ([], SupervisorDied)
      | Some delay \<Rightarrow>
          (case r of
             Started \<Rightarrow> ([delay], Restarted)
           | NotStarted \<Rightarrow> apfst ((#) delay) (restart (attempts + 1) rs)
           | StartRaised \<Rightarrow> ([delay], SupervisorDied)))"

section \<open>A request and its answer\<close>

inductive up_step :: "upstream \<Rightarrow> upstream \<Rightarrow> bool" where
  begins: "us_busy u = None \<Longrightarrow> up_step u (snd (request_begin written meth params u))"
| reads: "up_step u (reader_step decode name input u)"
| ends: "up_step u (snd (request_end pr u))"
| notifies: "up_step u (snd (notify written meth params u))"
| spawns: "\<not> us_reader u \<Longrightarrow> up_step u (spawn_child u)"
| starts: "up_step u (snd (start_end init note listed u))"
| exits: "up_step u (u\<lparr>us_running := False\<rparr>)"
| closes: "up_step u (close_child u)"

definition slot_ok :: "upstream \<Rightarrow> bool" where
  "slot_ok u \<longleftrightarrow>
     (case us_busy u of
        None \<Rightarrow> us_pending u = [] \<and> us_answers u = []
      | Some (i, _) \<Rightarrow> i < us_next u \<and> (us_pending u = [i] \<and> us_answers u = [] \<or>
          us_pending u = [] \<and> (\<exists>r. us_answers u = [(i, r)] \<and> key_of (obj_get r ''id'') = Some (KeyInt (int i)))))"

lemma slot_ok_cong:
  "us_busy v = us_busy u \<Longrightarrow> us_pending v = us_pending u \<Longrightarrow> us_answers v = us_answers u \<Longrightarrow> us_next v = us_next u \<Longrightarrow>
   slot_ok u \<Longrightarrow> slot_ok v"
  by (auto simp: slot_ok_def split: option.splits)

lemma up_send_slots [simp]:
  "us_busy (snd (up_send w m u)) = us_busy u" "us_pending (snd (up_send w m u)) = us_pending u"
  "us_answers (snd (up_send w m u)) = us_answers u" "us_next (snd (up_send w m u)) = us_next u"
  by (simp_all add: up_send_def)

lemma start_end_slots [simp]:
  "us_busy (snd (start_end i n l u)) = us_busy u" "us_pending (snd (start_end i n l u)) = us_pending u"
  "us_answers (snd (start_end i n l u)) = us_answers u" "us_next (snd (start_end i n l u)) = us_next u"
  by (auto simp: start_end_def Let_def split: sum.split option.split json.split)

lemma slot_ok_begin:
  assumes "slot_ok u" "us_busy u = None"
  shows "slot_ok (snd (request_begin w meth params u))"
proof -
  let ?u1 = "u\<lparr>us_next := us_next u + 1, us_pending := us_pending u @ [us_next u], us_busy := Some (us_next u, meth)\<rparr>"
  let ?m = "up_message (Some (JInt (int (us_next u)))) meth params"
  obtain e u2 where s: "up_send w ?m ?u1 = (e, u2)" by fastforce
  then have "us_pending u2 = [us_next u]" "us_answers u2 = []" "us_next u2 = us_next u + 1" "us_busy u2 = Some (us_next u, meth)"
    using up_send_slots[of w ?m ?u1] assms by (simp_all add: slot_ok_def)
  then show ?thesis using s by (cases e) (simp_all add: request_begin_def Let_def slot_ok_def)
qed

lemma slot_ok_resolve:
  assumes "slot_ok u" "resolve_pending m u = Some v"
  shows "slot_ok v"
proof (cases "\<exists>i. key_of (obj_get m ''id'') = Some (KeyInt i) \<and> 0 \<le> i \<and> nat i \<in> set (us_pending u)")
  case True
  then obtain i where i: "key_of (obj_get m ''id'') = Some (KeyInt i)" "0 \<le> i" "nat i \<in> set (us_pending u)" by blast
  then obtain meth where b: "us_busy u = Some (nat i, meth)" "us_pending u = [nat i]" "us_answers u = []" "nat i < us_next u"
    using assms(1) by (auto simp: slot_ok_def split: option.splits)
  show ?thesis using assms(2) i b by (auto simp: resolve_pending_def slot_ok_def)
next
  case False
  then have "v = u" using assms(2) by (auto simp: resolve_pending_def split: option.splits key.splits if_splits)
  then show ?thesis using assms(1) by simp
qed

lemma slot_ok_read_line: "slot_ok u \<Longrightarrow> read_line decode raw u = Some v \<Longrightarrow> slot_ok v"
  by (auto simp: read_line_def Let_def elim: slot_ok_resolve slot_ok_cong[rotated 4] split: if_splits option.splits json.splits)

lemma crash_id [simp]: "key_of (obj_get (crash_response name i) ''id'') = Some (KeyInt (int i))"
  by (simp add: crash_response_def obj_get_def key_of_def)

lemma slot_ok_death: "slot_ok u \<Longrightarrow> slot_ok (on_death name u)"
  by (auto simp: slot_ok_def on_death_def split: option.splits)

lemma slot_ok_reader: "slot_ok u \<Longrightarrow> slot_ok (reader_step decode name input u)"
  using slot_ok_death[of u name] slot_ok_read_line[of u decode]
  by (auto simp: reader_step_def elim: slot_ok_cong[rotated 4] split: option.splits)

lemma slot_ok_end: "slot_ok u \<Longrightarrow> slot_ok (snd (request_end pr u))"
  by (auto simp: slot_ok_def request_end_def split: option.splits)

interpretation up_machine: invariant_machine "\<lambda>u. u = new_upstream" up_step slot_ok
proof unfold_locales
  show "u = new_upstream \<Longrightarrow> slot_ok u" for u by (simp add: new_upstream_def slot_ok_def)
  show "slot_ok v" if "slot_ok u" "up_step u v" for u v
    using that(2,1)
    by cases (auto simp: slot_ok_begin slot_ok_reader slot_ok_end notify_def spawn_child_def close_child_def
        elim: slot_ok_cong[rotated 4])
qed

section \<open>Properties\<close>

text \<open>
  C25. An answer reaches the request it belongs to and no other: under every interleaving of requests, lines of the child,
  time-outs, deaths, restarts and closes, no answer is kept while no request is under way, and a
  request under way either waits alone or has exactly one answer, which carries its id.
\<close>

theorem answers_match:
  assumes "reach (\<lambda>u. u = new_upstream) up_step u"
  shows "case us_busy u of
      None \<Rightarrow> us_pending u = [] \<and> us_answers u = []
    | Some (i, _) \<Rightarrow> us_pending u = [i] \<and> us_answers u = [] \<or>
        us_pending u = [] \<and> (\<exists>r. us_answers u = [(i, r)] \<and> key_of (obj_get r ''id'') = Some (KeyInt (int i)))"
  using up_machine.reach_inv[OF assms] by (auto simp: slot_ok_def split: option.splits)

definition demo_up :: upstream where
  "demo_up = snd (request_begin True ''ping'' [] (spawn_child new_upstream))"

lemma demo_up_reach: "reach (\<lambda>u. u = new_upstream) up_step demo_up"
proof -
  have "reach (\<lambda>u. u = new_upstream) up_step (spawn_child new_upstream)"
    by (rule reach_step, rule reach_init, rule refl) (rule up_step.spawns, simp add: new_upstream_def)
  then show ?thesis unfolding demo_up_def
    by (rule reach_step) (rule up_step.begins, simp add: spawn_child_def new_upstream_def)
qed

lemma demo_up_busy: "us_busy demo_up = Some (1, ''ping'')" "us_answers demo_up = []"
  by (simp_all add: demo_up_def request_begin_def up_send_def spawn_child_def new_upstream_def Let_def)

theorem answers_match_witness: "us_pending demo_up = [1]"
  using answers_match[OF demo_up_reach] by (simp add: demo_up_busy)

text \<open>
  No request hangs on a dead child: when the child dies while a request of a reachable state waits, the request
  ends with the error of the crash.
\<close>

theorem death_ends_request:
  assumes "reach (\<lambda>u. u = new_upstream) up_step u" "us_busy u = Some (i, meth)" "us_answers u = []"
  shows "fst (request_end pr (on_death name u)) =
    Some (Inl (UpError (''upstream error '' @ pr (JInt (- 32603)) @ '': '' @
      pr (JStr (''upstream child '' @ [CHR 0x27] @ name @ [CHR 0x27] @ '' crashed'')))))"
proof -
  have "us_pending u = [i]" using up_machine.reach_inv[OF assms(1)] assms(2,3) by (auto simp: slot_ok_def)
  then show ?thesis using assms(2,3)
    by (simp add: request_end_def on_death_def response_result_def crash_response_def has_key_def obj_get_def truthy_def)
qed

text \<open>
  C38. How long the supervisor tries: the delays between restarts never exceed a minute, and a child that can start
  after \<open>k\<close> failed starts in a row is restarted when \<open>k < 1024\<close>; otherwise the supervisor has died of an
  overflow before.
\<close>

theorem restart_after_failures:
  "snd (restart 0 (replicate k NotStarted @ Started # rs)) = (if k < 1024 then Restarted else SupervisorDied) \<and>
   list_all (\<lambda>d. d \<le> BACKOFF_CAP) (fst (restart 0 (replicate k NotStarted @ Started # rs)))"
proof -
  have "snd (restart n (replicate k NotStarted @ Started # rs)) = (if n + k < 1024 then Restarted else SupervisorDied)" for n
    by (induction k arbitrary: n) (simp_all add: backoff_def)
  moreover have "list_all (\<lambda>d. d \<le> BACKOFF_CAP) (fst (restart n os))" for n os
    by (induction n os rule: restart.induct) (auto simp: backoff_def split: option.splits start_outcome.splits if_splits)
  ultimately show ?thesis by simp
qed

text \<open>
  One line can end a child for good: a response whose id is a list raises in the reader thread, which then neither
  reads lines nor notices the death of the process; the child still counts as live, and a request that
  is begun afterwards ends with a time-out.
\<close>

theorem list_id_ends_reader:
  assumes "reach (\<lambda>u. u = new_upstream) up_step u" "us_reader u" "up_live u" "us_busy u = None"
    and "decode (strip_by is_bws raw) = Some txt" "strip_by is_bws raw \<noteq> []" "loads txt = Some (JObj m)"
    and "obj_get m ''id'' = JArr xs"
  shows "let v = reader_step decode name (Some raw) u;
             w = fold (reader_step decode name) inputs (snd (request_begin True meth params v)) in
    up_live v \<and> fst (request_end pr w) = Some (Inl (UpError (''upstream timeout: '' @ meth)))"
proof -
  have "has_key m ''id''" using assms(8) by (auto simp: has_key_def obj_get_def split: option.splits)
  then have "read_line decode raw u = None"
    using assms(5-8) by (simp add: read_line_def Let_def resolve_pending_def key_of_def)
  then have v: "reader_step decode name (Some raw) u = u\<lparr>us_reader := False\<rparr>"
    using assms(2) by (simp add: reader_step_def)
  let ?w = "snd (request_begin True meth params (u\<lparr>us_reader := False\<rparr>))"
  have dead: "fold (reader_step decode name) inputs x = x" if "\<not> us_reader x" for x
    using that by (induction inputs arbitrary: x) (simp_all add: reader_step_def)
  have "us_answers u = []" using up_machine.reach_inv[OF assms(1)] assms(4) by (simp add: slot_ok_def)
  moreover have "us_spawned u" "\<not> us_closed u" using assms(3) by (simp_all add: up_live_def)
  ultimately have "\<not> us_reader ?w" "us_busy ?w = Some (us_next u, meth)" "us_answers ?w = []"
    by (simp_all add: request_begin_def up_send_def Let_def)
  then show ?thesis using assms(3) by (simp add: v dead request_end_def up_live_def Let_def)
qed

end
