(* ===== verification/Procman.thy ===== *)
theory Procman
  imports ProfileValidate AuditChain
begin

text \<open>
  The processes of the host: ownership, the pid files and the start and stop operations
  (\<^verbatim>\<open>home/rdm/procman.py\<close> with \<^verbatim>\<open>cmdline_matches\<close>, \<^verbatim>\<open>create_time\<close>, \<^verbatim>\<open>owned\<close>, \<^verbatim>\<open>spawn\<close> and \<^verbatim>\<open>kill_tree\<close>
  of \<^verbatim>\<open>home/rdm/hostos.py\<close>). The state is the process table and the pid files. What the operating
  system decides is a parameter: the tree of a process, the resolution of a command, what each spawn gives,
  and the reading of a printed time. A time stamp is kept as its printed form.
  Log files and directories are left out, and psutil is taken to be installed.
\<close>

section \<open>Processes\<close>

record process =
  pr_argv :: "string list"
  pr_time :: string
  pr_env :: "(string, string) dict"
  pr_ports :: "int list"

text \<open>\<open>hs_spawns\<close> are the outcomes of the next spawns: a pid, the start time and the ports it will listen on, or an \<^verbatim>\<open>OSError\<close>.\<close>

record host =
  hs_procs :: "(nat, process) dict"
  hs_files :: "(string, string) dict"
  hs_spawns :: "(nat \<times> string \<times> int list) option list"
  hs_spawned :: "(nat \<times> process) list"
  hs_killed :: "(nat \<times> process) list"

record os_env =
  oe_tree :: "nat \<Rightarrow> nat list"
  oe_resolve :: "string list \<Rightarrow> string list"
  oe_float :: "string \<Rightarrow> string option"
  oe_environ :: "(string, string) dict"
  oe_runtime :: runtime
  oe_tempdir :: string

text \<open>\<^verbatim>\<open>" ".join(s.split())\<close>: white space becomes single blanks.\<close>

fun ws_words :: "string \<Rightarrow> string \<Rightarrow> string list" where
  "ws_words cur [] = (if cur = [] then [] else [cur])"
| "ws_words cur (c # s) =
     (if is_ws c then (if cur = [] then ws_words [] s else cur # ws_words [] s) else ws_words (cur @ [c]) s)"

definition command_line :: "process \<Rightarrow> string" where
  "command_line p = py_join '' '' (ws_words [] (py_join '' '' (pr_argv p)))"

definition cmdline_matches :: "host \<Rightarrow> nat \<Rightarrow> string \<Rightarrow> bool" where
  "cmdline_matches h pid marker =
     (if marker = [] then False
      else case dget (hs_procs h) pid of None \<Rightarrow> False | Some p \<Rightarrow> contains_sub marker (command_line p))"

definition create_time :: "host \<Rightarrow> nat \<Rightarrow> string option" where
  "create_time h pid = map_option pr_time (dget (hs_procs h) pid)"

definition owned :: "host \<Rightarrow> nat \<Rightarrow> string option \<Rightarrow> string \<Rightarrow> bool" where
  "owned h pid recorded marker \<longleftrightarrow>
     cmdline_matches h pid marker \<or> recorded \<noteq> None \<and> create_time h pid = recorded"

definition find_pid_by_port :: "host \<Rightarrow> int \<Rightarrow> nat option" where
  "find_pid_by_port h port =
     (case filter (\<lambda>(_, p). port \<in> set (pr_ports p)) (hs_procs h) of [] \<Rightarrow> None | (pid, _) # _ \<Rightarrow> Some pid)"

text \<open>The process and its tree go; what was there is logged.\<close>

definition kill_tree :: "os_env \<Rightarrow> nat \<Rightarrow> host \<Rightarrow> host" where
  "kill_tree e pid h =
     (case dget (hs_procs h) pid of
        None \<Rightarrow> h
      | Some p \<Rightarrow> h\<lparr>hs_procs := filter (\<lambda>(q, _). q \<notin> set (pid # oe_tree e pid)) (hs_procs h),
                    hs_killed := hs_killed h @ [(pid, p)]\<rparr>)"

definition spawn :: "os_env \<Rightarrow> string list \<Rightarrow> (string, string) dict \<Rightarrow> host \<Rightarrow> nat option \<times> host" where
  "spawn e argv env h =
     (case hs_spawns h of
        Some (pid, t, ports) # rest \<Rightarrow>
          let p = \<lparr>pr_argv = oe_resolve e argv, pr_time = t, pr_env = env, pr_ports = ports\<rparr> in
          (Some pid, h\<lparr>hs_spawns := rest, hs_procs := dset pid p (hs_procs h), hs_spawned := hs_spawned h @ [(pid, p)]\<rparr>)
      | None # rest \<Rightarrow> (None, h\<lparr>hs_spawns := rest\<rparr>)
      | [] \<Rightarrow> (None, h))"

section \<open>Pid files\<close>

type_synonym entry = "nat \<times> string option \<times> string"

definition entry_line :: "entry \<Rightarrow> string" where
  "entry_line en = (case en of (pid, ct, marker) \<Rightarrow>
     nat_str pid @ ''|'' @ (case ct of None \<Rightarrow> [] | Some t \<Rightarrow> t) @ ''|'' @ marker)"

definition entries_text :: "entry list \<Rightarrow> string" where
  "entries_text es = (if es = [] then [] else py_join [LF] (map entry_line es) @ [LF])"

definition write_entries :: "string \<Rightarrow> entry list \<Rightarrow> host \<Rightarrow> host" where
  "write_entries path es h = h\<lparr>hs_files := dset path (entries_text es) (hs_files h)\<rparr>"

text \<open>A line that is not pid, time and marker is skipped; the pid is ASCII digits.\<close>

definition parse_entry :: "(string \<Rightarrow> string option) \<Rightarrow> string \<Rightarrow> entry option" where
  "parse_entry flt line =
     (case py_partition ''|'' line of
        (a, True, r) \<Rightarrow>
          (case py_partition ''|'' r of
             (b, True, m) \<Rightarrow>
               if a = [] \<or> \<not> list_all is_digit a then None
               else if b = [] then Some (digits_val a, None, m)
               else map_option (\<lambda>t. (digits_val a, Some t, m)) (flt b)
           | _ \<Rightarrow> None)
      | _ \<Rightarrow> None)"

definition read_entries :: "os_env \<Rightarrow> string \<Rightarrow> host \<Rightarrow> entry list" where
  "read_entries e path h =
     (case dget (hs_files h) path of
        None \<Rightarrow> []
      | Some text \<Rightarrow> List.map_filter (parse_entry (oe_float e)) (splitlines text))"

definition remove_file :: "string \<Rightarrow> host \<Rightarrow> host" where
  "remove_file path h = h\<lparr>hs_files := ddel path (hs_files h)\<rparr>"

section \<open>Stopping\<close>

definition kill_owned :: "os_env \<Rightarrow> string option \<Rightarrow> entry \<Rightarrow> host \<Rightarrow> host" where
  "kill_owned e fixed en h =
     (case en of (pid, recorded, marker) \<Rightarrow>
       if owned h pid recorded (case fixed of None \<Rightarrow> marker | Some m \<Rightarrow> m) then kill_tree e pid h else h)"

text \<open>All stop operations: the recorded marker of each entry, or a fixed one.\<close>

definition stop_recorded :: "os_env \<Rightarrow> string option \<Rightarrow> string \<Rightarrow> host \<Rightarrow> host" where
  "stop_recorded e fixed path h = remove_file path (fold (kill_owned e fixed) (read_entries e path h) h)"

definition under :: "os_env \<Rightarrow> string \<Rightarrow> string \<Rightarrow> string" where
  "under e dir file = path_join (path_join (oe_tempdir e) dir) file"

definition pids_path :: "os_env \<Rightarrow> string \<Rightarrow> string" where
  "pids_path e pname = under e ''rdm-host'' (pname @ ''-pids.txt'')"

definition gateway_pids_path :: "os_env \<Rightarrow> string" where
  "gateway_pids_path e = under e ''rdm-gateway'' ''pids.txt''"

definition watchdog_pids_path :: "os_env \<Rightarrow> string" where
  "watchdog_pids_path e = under e ''rdm-watchdog'' ''pids.txt''"

definition ingress_pids_path :: "os_env \<Rightarrow> string" where
  "ingress_pids_path e = under e ''rdm-ingress'' ''pids.txt''"

definition PROXY_MARKER :: string where "PROXY_MARKER = ''proxy --mode''"
definition UI_MARKER :: string where "UI_MARKER = ''ui --server''"
definition WATCHDOG_MARKER :: string where "WATCHDOG_MARKER = '' watch''"
definition GATEWAY_MARKER :: string where "GATEWAY_MARKER = '' gateway''"

definition runner_marker :: "runtime \<Rightarrow> string" where
  "runner_marker rt = (if frozen rt then '' runner'' else ''runner-mcp.py'')"

definition stop_host_services :: "os_env \<Rightarrow> string \<Rightarrow> host \<Rightarrow> host" where
  "stop_host_services e pname h = stop_recorded e None (pids_path e pname) h"

definition stop_ingress :: "os_env \<Rightarrow> host \<Rightarrow> host" where
  "stop_ingress e h = stop_recorded e (Some PROXY_MARKER) (ingress_pids_path e) h"

definition stop_ui :: "os_env \<Rightarrow> string \<Rightarrow> host \<Rightarrow> host" where
  "stop_ui e state_dir h = stop_recorded e (Some UI_MARKER) (path_join state_dir ''pids.txt'') h"

definition stop_watchdog :: "os_env \<Rightarrow> host \<Rightarrow> host" where
  "stop_watchdog e h = stop_recorded e (Some WATCHDOG_MARKER) (watchdog_pids_path e) h"

definition stop_gateway_procs :: "os_env \<Rightarrow> host \<Rightarrow> host" where
  "stop_gateway_procs e h = stop_recorded e (Some GATEWAY_MARKER) (gateway_pids_path e) h"

definition host_services_dead :: "os_env \<Rightarrow> string \<Rightarrow> host \<Rightarrow> bool" where
  "host_services_dead e pname h =
     list_ex (\<lambda>(pid, recorded, marker). \<not> owned h pid recorded marker) (read_entries e (pids_path e pname) h)"

definition host_services_recorded :: "os_env \<Rightarrow> string \<Rightarrow> host \<Rightarrow> bool" where
  "host_services_recorded e pname h \<longleftrightarrow> read_entries e (pids_path e pname) h \<noteq> []"

definition own_markers :: "os_env \<Rightarrow> string list" where
  "own_markers e = [runner_marker (oe_runtime e), PROXY_MARKER, UI_MARKER, GATEWAY_MARKER]"

definition free_port :: "os_env \<Rightarrow> int \<Rightarrow> host \<Rightarrow> host" where
  "free_port e port h =
     (case find_pid_by_port h port of
        None \<Rightarrow> h
      | Some pid \<Rightarrow> if list_ex (cmdline_matches h pid) (own_markers e) then kill_tree e pid h else h)"

section \<open>Starting\<close>

definition dmerge :: "(string, string) dict \<Rightarrow> (string, string) dict \<Rightarrow> (string, string) dict" where
  "dmerge d kvs = fold (\<lambda>(k, v). dset k v) kvs d"

definition service_argv :: "string \<Rightarrow> string list option" where
  "service_argv cmd = map_option (map (strip_by (\<lambda>c. c = CHR 0x22))) (shlex_gap cmd)"

definition proxy_env :: "os_env \<Rightarrow> string \<Rightarrow> int \<Rightarrow> (string, string) dict" where
  "proxy_env e token port =
     dmerge (oe_environ e) [(''MCP_PUBLIC_TOKEN'', token), (''PROXY_PORT'', int_str port), (''TARGET_PORT'', int_str (port + 1)),
       (''TARGET_HOST'', ''127.0.0.1'')]"

definition DEFAULT_PROXY_ARGV :: "os_env \<Rightarrow> string list" where
  "DEFAULT_PROXY_ARGV e = spawn_entry (oe_runtime e) ''proxy'' [''--mode'', ''target'']"

definition INGRESS_ARGV :: "os_env \<Rightarrow> string list" where
  "INGRESS_ARGV e = spawn_entry (oe_runtime e) ''proxy'' [''--mode'', ''ingress'']"

definition UI_ARGV :: "os_env \<Rightarrow> string list" where
  "UI_ARGV e = spawn_entry (oe_runtime e) ''ui'' [''--server'']"

definition WATCHDOG_ARGV :: "os_env \<Rightarrow> string list" where
  "WATCHDOG_ARGV e = spawn_entry (oe_runtime e) ''watch'' []"

definition GATEWAY_ARGV :: "os_env \<Rightarrow> string list" where
  "GATEWAY_ARGV e = spawn_entry (oe_runtime e) ''gateway'' []"

text \<open>One service: the entries and report lines so far and the host; \<^const>\<open>None\<close> raises.\<close>

type_synonym restarting = "entry list \<times> string list \<times> host"

definition svc_tag :: "int \<Rightarrow> string" where
  "svc_tag port = ''host :'' @ int_str port"

definition restart_proxy :: "os_env \<Rightarrow> string \<Rightarrow> string list \<Rightarrow> int \<Rightarrow> nat \<Rightarrow> restarting \<Rightarrow> restarting" where
  "restart_proxy e token proxy port pid acc =
     (case acc of (es, rep, h) \<Rightarrow>
       (case spawn e proxy (proxy_env e token port) h of
          (None, h1) \<Rightarrow> (es, rep @ [svc_tag port @ '' pid '' @ nat_str pid @ '' proxy FAILED''], h1)
        | (Some q, h1) \<Rightarrow>
            (es @ [(q, create_time h1 q, py_join '' '' proxy)],
             rep @ [svc_tag port @ '' pid '' @ nat_str pid @ '' proxy pid '' @ nat_str q], h1)))"

definition restart_service :: "os_env \<Rightarrow> string \<Rightarrow> string list \<Rightarrow> host_service \<Rightarrow> restarting \<Rightarrow> restarting option" where
  "restart_service e token proxy svc acc =
     (case acc of (es, rep, h) \<Rightarrow>
       (case service_argv (hs_cmd svc) of
          None \<Rightarrow> None
        | Some argv \<Rightarrow>
            let port = hs_port svc;
                bearer = (hs_auth svc = ''bearer'');
                h1 = fold (free_port e) (if bearer then [port, port + 1] else [port]) h;
                env = (if bearer then dmerge (oe_environ e) [(''MCP_HTTP_PORT'', int_str (port + 1))] else oe_environ e) in
            Some (case spawn e argv env h1 of
               (None, h2) \<Rightarrow> (es, rep @ [svc_tag port @ '' FAILED''], h2)
             | (Some pid, h2) \<Rightarrow>
                 let es2 = es @ [(pid, create_time h2 pid, py_join '' '' argv)] in
                 if bearer then restart_proxy e token proxy port pid (es2, rep, h2)
                 else (es2, rep @ [svc_tag port @ '' pid '' @ nat_str pid], h2))))"

text \<open>What is left of the host when a service raises, or the result.\<close>

fun restart_services :: "os_env \<Rightarrow> string \<Rightarrow> string list \<Rightarrow> host_service list \<Rightarrow> restarting \<Rightarrow> host + restarting" where
  "restart_services e token proxy [] acc = Inr acc"
| "restart_services e token proxy (s # ss) acc =
     (case restart_service e token proxy s acc of
        None \<Rightarrow> Inl (snd (snd acc))
      | Some acc' \<Rightarrow> restart_services e token proxy ss acc')"

definition restart_host_services ::
  "os_env \<Rightarrow> host_service list \<Rightarrow> string \<Rightarrow> string \<Rightarrow> string list option \<Rightarrow> host \<Rightarrow> string list option \<times> host" where
  "restart_host_services e services pname token proxy_argv h =
     (case restart_services e token (case proxy_argv of None \<Rightarrow> DEFAULT_PROXY_ARGV e | Some a \<Rightarrow> a) services
             ([], [], stop_host_services e pname h) of
        Inl h1 \<Rightarrow> (None, h1)
      | Inr (es, rep, h1) \<Rightarrow> (Some rep, write_entries (pids_path e pname) es h1))"

text \<open>A single process behind a pid file; \<^const>\<open>None\<close> is the \<^verbatim>\<open>OSError\<close> of the spawn.\<close>

definition start_recorded ::
  "os_env \<Rightarrow> string \<Rightarrow> string list \<Rightarrow> (string, string) dict \<Rightarrow> string \<Rightarrow> host \<Rightarrow> nat option \<times> host" where
  "start_recorded e path argv env marker h =
     (case spawn e argv env h of
        (None, h1) \<Rightarrow> (None, h1)
      | (Some pid, h1) \<Rightarrow> (Some pid, write_entries path [(pid, create_time h1 pid, marker)] h1))"

definition env_default :: "string \<Rightarrow> string \<Rightarrow> (string, string) dict \<Rightarrow> (string, string) dict" where
  "env_default k v d = (if dget_or d k [] = [] then dset k v d else d)"

definition PROC_INGRESS_PORT :: int where
  "PROC_INGRESS_PORT = 8799"

definition start_ingress :: "os_env \<Rightarrow> (string, string) dict \<Rightarrow> host \<Rightarrow> nat option \<times> host" where
  "start_ingress e env_map h =
     start_recorded e (ingress_pids_path e) (INGRESS_ARGV e)
       (env_default ''PROXY_PORT'' (int_str PROC_INGRESS_PORT) (dmerge (oe_environ e) env_map)) PROXY_MARKER (stop_ingress e h)"

definition start_ui :: "os_env \<Rightarrow> string \<Rightarrow> (string, string) dict \<Rightarrow> host \<Rightarrow> nat option \<times> host" where
  "start_ui e state_dir env_map h =
     start_recorded e (path_join state_dir ''pids.txt'') (UI_ARGV e)
       (env_default ''RDM_UI_PORT'' (int_str COCKPIT_PORT) (dmerge (oe_environ e) env_map)) UI_MARKER
       (free_port e COCKPIT_PORT (stop_ui e state_dir h))"

definition start_watchdog :: "os_env \<Rightarrow> (string, string) dict \<Rightarrow> host \<Rightarrow> nat option \<times> host" where
  "start_watchdog e env_map h =
     start_recorded e (watchdog_pids_path e) (WATCHDOG_ARGV e) (dmerge (oe_environ e) env_map) WATCHDOG_MARKER
       (stop_watchdog e h)"

definition CHILD_ENV_KEYS :: "string list" where
  "CHILD_ENV_KEYS = [''PATH'', ''SYSTEMROOT'', ''COMSPEC'', ''PATHEXT'', ''TEMP'', ''TMP'', ''USERPROFILE'', ''HOME'',
     ''JAVA_HOME'', ''FLUTTER_ROOT'']"

definition child_base :: "(string, string) dict \<Rightarrow> (string, string) dict" where
  "child_base environ = map (\<lambda>k. (k, dget_or environ k [])) (filter (\<lambda>k. dget_or environ k [] \<noteq> []) CHILD_ENV_KEYS)"

definition gateway_env :: "os_env \<Rightarrow> int \<Rightarrow> (string, string) dict" where
  "gateway_env e port =
     dset ''GATEWAY_PORT'' (int_str port) (dset ''MCP_HTTP_PORT'' (int_str (port + 1)) (child_base (oe_environ e)))"

definition start_gateway :: "os_env \<Rightarrow> int option \<Rightarrow> string \<Rightarrow> host \<Rightarrow> nat option \<times> host" where
  "start_gateway e configured token h =
     (let port = port_or configured DEFAULT_GATEWAY_PORT;
          h1 = free_port e (port + 1) (free_port e port (stop_gateway_procs e h)) in
      case spawn e (GATEWAY_ARGV e) (gateway_env e port) h1 of
        (None, h2) \<Rightarrow> (None, h2)
      | (Some pid, h2) \<Rightarrow>
          (case spawn e (DEFAULT_PROXY_ARGV e) (proxy_env e token port) h2 of
             (None, h3) \<Rightarrow> (None, h3)
           | (Some q, h3) \<Rightarrow>
               (Some pid, write_entries (gateway_pids_path e)
                  [(pid, create_time h3 pid, GATEWAY_MARKER), (q, create_time h3 q, GATEWAY_MARKER)] h3)))"

section \<open>What is killed\<close>

text \<open>The kills between two states, each of a process with the property.\<close>

definition kills_only :: "(nat \<times> process \<Rightarrow> bool) \<Rightarrow> host \<Rightarrow> host \<Rightarrow> bool" where
  "kills_only J h h' \<longleftrightarrow> (\<exists>ks. hs_killed h' = hs_killed h @ ks \<and> list_all J ks)"

lemma kills_only_same: "hs_killed h' = hs_killed h \<Longrightarrow> kills_only J h h'"
  by (simp add: kills_only_def)

lemma kills_only_trans: "kills_only J h h1 \<Longrightarrow> kills_only J h1 h2 \<Longrightarrow> kills_only J h h2"
  by (auto simp: kills_only_def)

lemma kills_only_tree: "(\<And>p. dget (hs_procs h) pid = Some p \<Longrightarrow> J (pid, p)) \<Longrightarrow> kills_only J h (kill_tree e pid h)"
  by (auto simp: kill_tree_def kills_only_def split: option.split)

lemma kills_only_fold: "(\<And>x h. x \<in> set xs \<Longrightarrow> kills_only J h (f x h)) \<Longrightarrow> kills_only J h (fold f xs h)"
  by (induction xs arbitrary: h) (auto simp: kills_only_same intro: kills_only_trans)

lemma killed_simps [simp]:
  "hs_killed (write_entries path es h) = hs_killed h" "hs_killed (remove_file path h) = hs_killed h"
  "hs_killed (snd (spawn e argv env h)) = hs_killed h"
  by (auto simp: write_entries_def remove_file_def spawn_def Let_def split: list.split option.split prod.split)

text \<open>A process is ours: its command line has one of our markers, or an entry knows its marker or its start time.\<close>

definition runs_marker :: "string \<Rightarrow> process \<Rightarrow> bool" where
  "runs_marker m p \<longleftrightarrow> m \<noteq> [] \<and> contains_sub m (command_line p)"

definition our_process :: "os_env \<Rightarrow> entry list \<Rightarrow> nat \<times> process \<Rightarrow> bool" where
  "our_process e es kp \<longleftrightarrow>
     (\<exists>m \<in> set (own_markers e @ [WATCHDOG_MARKER]). runs_marker m (snd kp)) \<or>
     (\<exists>(pid, ct, m) \<in> set es. pid = fst kp \<and> (runs_marker m (snd kp) \<or> ct = Some (pr_time (snd kp))))"

lemma matches_runs: "cmdline_matches h pid m \<Longrightarrow> dget (hs_procs h) pid = Some p \<Longrightarrow> runs_marker m p"
  by (simp add: cmdline_matches_def runs_marker_def split: if_splits)

lemma owned_runs: "owned h pid ct m \<Longrightarrow> dget (hs_procs h) pid = Some p \<Longrightarrow> runs_marker m p \<or> ct = Some (pr_time p)"
  by (auto simp: owned_def create_time_def dest: matches_runs)

lemma our_marker: "m \<in> set (own_markers e @ [WATCHDOG_MARKER]) \<Longrightarrow> runs_marker m p \<Longrightarrow> our_process e es (pid, p)"
  unfolding our_process_def snd_conv by blast

lemma our_entry: "(pid, ct, m) \<in> set es \<Longrightarrow> runs_marker m p \<or> ct = Some (pr_time p) \<Longrightarrow> our_process e es (pid, p)"
  unfolding our_process_def fst_conv snd_conv by (rule disjI2, erule rev_bexI) simp

lemma kills_only_owned:
  assumes "en \<in> set es" "case fixed of None \<Rightarrow> True | Some m \<Rightarrow> m \<in> set (own_markers e @ [WATCHDOG_MARKER])"
  shows "kills_only (our_process e es) h (kill_owned e fixed en h)"
proof -
  obtain pid ct m where en: "en = (pid, ct, m)" by (cases en)
  let ?m = "case fixed of None \<Rightarrow> m | Some m' \<Rightarrow> m'"
  have "our_process e es (pid, p)" if "owned h pid ct ?m" "dget (hs_procs h) pid = Some p" for p
  proof -
    note ow = owned_runs[OF that]
    consider "runs_marker ?m p" | "ct = Some (pr_time p)" using ow by blast
    then show ?thesis
    proof cases
      case 1
      then show ?thesis using assms our_marker our_entry en by (cases fixed) auto
    next
      case 2
      then show ?thesis using assms(1) our_entry en by blast
    qed
  qed
  then show ?thesis unfolding kill_owned_def en prod.case by (simp add: kills_only_same kills_only_tree)
qed

lemma kills_only_stop:
  assumes "case fixed of None \<Rightarrow> True | Some m \<Rightarrow> m \<in> set (own_markers e @ [WATCHDOG_MARKER])"
  shows "kills_only (our_process e (read_entries e path h)) h (stop_recorded e fixed path h)"
  unfolding stop_recorded_def
  by (rule kills_only_trans[OF kills_only_fold[OF kills_only_owned[OF _ assms]] kills_only_same[OF killed_simps(2)]])

lemma kills_only_free: "kills_only (our_process e es) h (free_port e port h)"
proof (cases "find_pid_by_port h port")
  case (Some pid)
  have "our_process e es (pid, p)" if "m \<in> set (own_markers e)" "cmdline_matches h pid m" "dget (hs_procs h) pid = Some p" for m p
    using our_marker[of m e p es pid] matches_runs[OF that(2,3)] that(1) by simp
  then have "kills_only (our_process e es) h (kill_tree e pid h)" if "list_ex (cmdline_matches h pid) (own_markers e)"
    using that by (auto simp: list_ex_iff intro!: kills_only_tree)
  then show ?thesis by (simp add: free_port_def Some kills_only_same)
qed (simp add: free_port_def kills_only_same)

lemma spawn_killed: "spawn e argv env h = (r, h') \<Longrightarrow> hs_killed h' = hs_killed h"
  using killed_simps(3)[of e argv env h] by simp

lemma restart_proxy_killed: "restart_proxy e token proxy port pid (es, rep, h) = (es', rep', h') \<Longrightarrow> hs_killed h' = hs_killed h"
  by (auto simp: restart_proxy_def split: prod.splits option.splits dest: spawn_killed)

lemma kills_only_restart_service:
  assumes "restart_service e token proxy svc (es, rep, h) = Some (es', rep', h')"
  shows "kills_only (our_process e fs) h h'"
proof -
  let ?h1 = "fold (free_port e) (if hs_auth svc = ''bearer'' then [hs_port svc, hs_port svc + 1] else [hs_port svc]) h"
  have "kills_only (our_process e fs) h ?h1" by (rule kills_only_fold) (rule kills_only_free)
  moreover have "hs_killed h' = hs_killed ?h1"
    using assms by (auto simp: restart_service_def Let_def split: option.splits prod.splits if_splits
        dest!: spawn_killed restart_proxy_killed)
  ultimately show ?thesis by (blast intro: kills_only_trans kills_only_same)
qed

lemma kills_only_restart_services:
  "kills_only (our_process e fs) h (case restart_services e token proxy ss (es, rep, h) of Inl h' \<Rightarrow> h' | Inr acc \<Rightarrow> snd (snd acc))"
proof (induction ss arbitrary: es rep h)
  case (Cons s ss)
  show ?case
  proof (cases "restart_service e token proxy s (es, rep, h)")
    case (Some acc)
    obtain es' rep' h' where acc: "acc = (es', rep', h')" by (cases acc)
    show ?thesis
      using kills_only_trans[OF kills_only_restart_service[OF Some[unfolded acc]] Cons[of h' es' rep']] by (simp add: Some acc)
  qed (simp add: kills_only_same)
qed (simp add: kills_only_same)


section \<open>What is recorded\<close>

text \<open>An entry that survives a pid file: one line, a time that is printed as it is read.\<close>

definition line_ok :: "string \<Rightarrow> bool" where
  "line_ok s \<longleftrightarrow> list_all (\<lambda>c. \<not> line_sep c) s"

definition entry_ok :: "os_env \<Rightarrow> entry \<Rightarrow> bool" where
  "entry_ok e en \<longleftrightarrow> (case en of (_, ct, m) \<Rightarrow> line_ok m \<and>
     (case ct of None \<Rightarrow> True | Some t \<Rightarrow> t \<noteq> [] \<and> CHR ''|'' \<notin> set t \<and> line_ok t \<and> oe_float e t = Some t))"

lemma nat_str_plain: "c \<in> set (nat_str n) \<Longrightarrow> c \<noteq> CHR ''|'' \<and> \<not> line_sep c"
  using nat_str_digits[of n] by (auto simp: is_digit_def line_sep_def)

lemma parse_entry_line: "entry_ok e en \<Longrightarrow> parse_entry (oe_float e) (entry_line en) = Some en"
proof -
  assume ok: "entry_ok e en"
  obtain pid ct m where en: "en = (pid, ct, m)" by (cases en)
  have p: "CHR ''|'' \<notin> set (nat_str pid)" "list_all is_digit (nat_str pid)"
    using nat_str_plain[of _ pid] nat_str_digits[of pid] by (auto simp: list_all_iff)
  show ?thesis
  proof (cases ct)
    case None
    have "entry_line en = nat_str pid @ CHR ''|'' # [] @ CHR ''|'' # m" by (simp add: entry_line_def en None)
    then show ?thesis using p py_partition_char[OF p(1)] py_partition_char[of "CHR ''|''" "[]" m]
      by (simp add: parse_entry_def en None)
  next
    case (Some t)
    have t: "t \<noteq> []" "CHR ''|'' \<notin> set t" "oe_float e t = Some t" using ok by (auto simp: entry_ok_def en Some)
    have "entry_line en = nat_str pid @ CHR ''|'' # t @ CHR ''|'' # m" by (simp add: entry_line_def en Some)
    then show ?thesis using p t py_partition_char[OF p(1)] py_partition_char[OF t(2)]
      by (simp add: parse_entry_def en Some)
  qed
qed

lemma entry_line_ok: "entry_ok e en \<Longrightarrow> list_all (\<lambda>c. \<not> line_sep c) (entry_line en)"
proof -
  assume ok: "entry_ok e en"
  have "\<not> line_sep (CHR ''|'')" by (simp add: line_sep_def)
  with ok show ?thesis using nat_str_plain[of _ "fst en"]
    by (auto simp: entry_line_def entry_ok_def line_ok_def list_all_iff split: prod.splits option.splits)
qed

lemma entries_text_lines: "entries_text es = concat (map (\<lambda>l. l @ [LF]) (map entry_line es))"
proof -
  have "py_join [LF] ls @ [LF] = concat (map (\<lambda>l. l @ [LF]) ls)" if "ls \<noteq> []" for ls
    using that by (induction "[LF]" ls rule: py_join.induct) simp_all
  then show ?thesis by (simp add: entries_text_def)
qed

text \<open>
  A pid file loses nothing: entries whose markers are one line, with times that print as they are read, come back
  from the file as they were written, in order; a marker may contain the separator.
\<close>

theorem pid_file_roundtrip:
  assumes "list_all (entry_ok e) es"
  shows "read_entries e path (write_entries path es h) = es"
proof -
  have "splitlines (entries_text es) = map entry_line es"
    unfolding entries_text_lines
    by (rule splitlines_lines) (use assms entry_line_ok in \<open>auto simp: list_all_iff\<close>)
  moreover have "List.map_filter (parse_entry (oe_float e)) (map entry_line es) = es"
    using assms parse_entry_line by (induction es) (simp_all add: map_filter_simps)
  ultimately show ?thesis by (simp add: read_entries_def write_entries_def)
qed

definition demo_os :: os_env where
  "demo_os = \<lparr>oe_tree = (\<lambda>_. []), oe_resolve = (\<lambda>a. a), oe_float = Some,
     oe_environ = [(''PATH'', ''/bin''), (''GATEWAY_TOKEN'', ''g'')], oe_runtime = \<lparr>frozen = False, executable = ''python'', win32 = False,
     module_home = ''/home'', exe_parent = ''/opt''\<rparr>, oe_tempdir = ''/tmp''\<rparr>"

text \<open>What a restart spawned beyond \<open>h0\<close> is what its entries say.\<close>

definition recorded :: "host \<Rightarrow> restarting \<Rightarrow> bool" where
  "recorded h0 acc \<longleftrightarrow> (case acc of (es, _, h) \<Rightarrow> \<exists>new. hs_spawned h = hs_spawned h0 @ new \<and>
     map (\<lambda>(pid, ct, _). (pid, ct)) es = map (\<lambda>(pid, p). (pid, Some (pr_time p))) new)"

lemma spawn_cases:
  obtains h' where "spawn e argv env h = (None, h')" "hs_spawned h' = hs_spawned h"
  | pid h' p where "spawn e argv env h = (Some pid, h')" "hs_spawned h' = hs_spawned h @ [(pid, p)]" "create_time h' pid = Some (pr_time p)"
proof (cases "hs_spawns h")
  case (Cons r rest)
  show ?thesis
  proof (cases r)
    case (Some a)
    obtain pid t ports where "a = (pid, t, ports)" by (cases a)
    then show ?thesis using that(2)[of pid] by (simp add: spawn_def Cons Some create_time_def Let_def)
  qed (use that(1) in \<open>simp add: spawn_def Cons\<close>)
qed (use that(1) in \<open>simp add: spawn_def\<close>)

lemma recorded_spawn:
  assumes "recorded h0 (es, rep, h)"
  shows "spawn e argv env h = (None, h') \<Longrightarrow> recorded h0 (es, rep', h')"
    "spawn e argv env h = (Some pid, h') \<Longrightarrow> recorded h0 (es @ [(pid, create_time h' pid, m)], rep', h')"
  using assms by (cases rule: spawn_cases[of e argv env h]; fastforce simp: recorded_def)+

lemma recorded_spawned: "recorded h0 (es, rep, h) \<Longrightarrow> hs_spawned h' = hs_spawned h \<Longrightarrow> recorded h0 (es, rep', h')"
  by (simp add: recorded_def)

lemma spawned_simps [simp]:
  "hs_spawned (kill_tree e pid h) = hs_spawned h" "hs_spawned (write_entries path es h) = hs_spawned h"
  "hs_spawned (remove_file path h) = hs_spawned h"
  by (simp_all add: kill_tree_def write_entries_def remove_file_def split: option.split)

lemma spawned_kill_owned [simp]: "hs_spawned (kill_owned e fixed en h) = hs_spawned h"
  by (simp add: kill_owned_def split: prod.split)

lemma spawned_free [simp]: "hs_spawned (free_port e port h) = hs_spawned h"
  by (simp add: free_port_def split: option.split)

lemma spawned_fold: "(\<And>x h. hs_spawned (f x h) = hs_spawned h) \<Longrightarrow> hs_spawned (fold f xs h) = hs_spawned h"
  by (induction xs arbitrary: h) simp_all

lemma spawned_stop [simp]: "hs_spawned (stop_recorded e fixed path h) = hs_spawned h"
  by (simp add: stop_recorded_def spawned_fold)

lemma recorded_proxy: "recorded h0 (es, rep, h) \<Longrightarrow> recorded h0 (restart_proxy e token proxy port pid (es, rep, h))"
  using recorded_spawn[of h0 es rep h] by (auto simp: restart_proxy_def split: prod.split option.split)

lemma recorded_service:
  assumes "recorded h0 (es, rep, h)" "restart_service e token proxy svc (es, rep, h) = Some acc"
  shows "recorded h0 acc"
proof -
  let ?h1 = "fold (free_port e) (if hs_auth svc = ''bearer'' then [hs_port svc, hs_port svc + 1] else [hs_port svc]) h"
  have "recorded h0 (es, rep, ?h1)" using assms(1) by (rule recorded_spawned) (simp add: spawned_fold)
  note none = recorded_spawn(1)[OF this] and some = recorded_spawn(2)[OF this]
  obtain argv where argv: "service_argv (hs_cmd svc) = Some argv" using assms(2)
    by (auto simp: restart_service_def split: option.splits)
  let ?env = "if hs_auth svc = ''bearer'' then dmerge (oe_environ e) [(''MCP_HTTP_PORT'', int_str (hs_port svc + 1))] else oe_environ e"
  obtain r h2 where sp: "spawn e argv ?env ?h1 = (r, h2)" by fastforce
  show ?thesis
  proof (cases r)
    case None
    then show ?thesis using assms(2) none[OF sp[unfolded None]] by (auto simp: restart_service_def argv Let_def sp)
  next
    case (Some pid)
    then show ?thesis using assms(2) some[OF sp[unfolded Some]] recorded_proxy
      by (auto simp: restart_service_def argv Let_def sp split: if_splits)
  qed
qed

lemma recorded_services: "restart_services e token proxy ss acc = Inr acc' \<Longrightarrow> recorded h0 acc \<Longrightarrow> recorded h0 acc'"
proof (induction ss arbitrary: acc)
  case (Cons s ss)
  then show ?case using recorded_service[of h0 _ _ _ e token proxy s]
    by (cases acc) (auto split: option.splits)
qed simp

text \<open>
  Every process that a restart of the host services spawns is in the pid file it leaves, in order and with its start
  time, also when some services or proxies fail to start, so the next stop or restart finds them all.
\<close>

theorem restart_records_all:
  assumes "restart_host_services e services pname token proxy_argv h = (Some rep, h')"
  shows "\<exists>new es. hs_spawned h' = hs_spawned h @ new \<and> dget (hs_files h') (pids_path e pname) = Some (entries_text es) \<and>
    map (\<lambda>(pid, ct, _). (pid, ct)) es = map (\<lambda>(pid, p). (pid, Some (pr_time p))) new"
proof -
  let ?px = "case proxy_argv of None \<Rightarrow> DEFAULT_PROXY_ARGV e | Some a \<Rightarrow> a"
  from assms obtain es h1 where r: "restart_services e token ?px services ([], [], stop_host_services e pname h) = Inr (es, rep, h1)"
    "h' = write_entries (pids_path e pname) es h1"
    by (auto simp: restart_host_services_def split: sum.splits)
  have "recorded h ([], [], stop_host_services e pname h)" by (simp add: recorded_def stop_host_services_def)
  then have "recorded h (es, rep, h1)" by (rule recorded_services[OF r(1)])
  then show ?thesis by (auto simp: recorded_def r(2) write_entries_def)
qed

definition demo_service :: host_service where
  "demo_service = \<lparr>hs_port = 8801, hs_auth = ''bearer'', hs_cwd = [], hs_cmd = ''serve --x''\<rparr>"

definition demo_host :: host where
  "demo_host = \<lparr>hs_procs = [], hs_files = [], hs_spawns = [Some (5, ''1.5'', [8802]), Some (6, ''2.5'', [8801])],
     hs_spawned = [], hs_killed = []\<rparr>"

end
