(* ===== verification/Runner.thy ===== *)
theory Runner
  imports Procman Redact Regex GatewayPolicy
begin

text \<open>
  The runner of project commands (\<^verbatim>\<open>home/rdm/runner/__main__.py\<close>, \<^verbatim>\<open>home/rdm/runner/policy.py\<close>,
  \<^verbatim>\<open>home/rdm/childproc.py\<close>): the policy for arguments, the building of an argv, the run and kill tools
  and the registration. Outside are the operating system (existence and search of programs, the outcome of a process,
  what the process table shows of a raw command line), \<^verbatim>\<open>str\<close> of a JSON value that is no string, and UTF-8 decoding. Messages with Cyrillic letters are
  given by a shorter text.
\<close>

section \<open>The policy\<close>

abbreviation DOT :: rx where
  "DOT \<equiv> Star (\<lambda>c. c \<noteq> LF)"

definition any_of :: "string list \<Rightarrow> rx" where
  "any_of ws = foldr (\<lambda>w r. Alt (lit_ci w) r) (butlast ws) (lit_ci (last ws))"

definition DENY_ARG :: "rx list" where
  "DENY_ARG =
    [seqs [lit_ci ''find'', Bnd is_word, DOT, lit_ci ''-exec''],
     seqs [Bnd is_word, lit_ci ''xargs'', Bnd is_word],
     seqs [lit_ci ''awk'', Bnd is_word, DOT, lit_ci ''system'', Star is_ws, lit_ci ''(''],
     seqs [lit_ci ''tar'', Bnd is_word, DOT, lit_ci ''--checkpoint-action''],
     seqs [Bnd is_word, lit_ci ''git'', plus is_ws, lit_ci ''-c'', Bnd is_word],
     lit_ci ''invoke-expression'',
     seqs [Bnd is_word, lit_ci ''iex'', Bnd is_word],
     seqs [lit_ci ''certutil'', plus is_ws, lit_ci ''-urlcache''],
     seqs [any_of [''curl'', ''wget''], Bnd is_word, DOT, lit_ci ''|'', Star is_ws,
       any_of [''sh'', ''bash'', ''powershell'', ''pwsh'']]]"

definition denied_arg :: "string \<Rightarrow> bool" where
  "denied_arg s \<longleftrightarrow> list_ex (\<lambda>r. rx_found r s) DENY_ARG"

datatype run_error = Denied string | BadPath string | UnsafeShim string | BadSpec | OsFailed

definition check_args :: "string list \<Rightarrow> run_error + unit" where
  "check_args vs = (case find denied_arg vs of None \<Rightarrow> Inr () | Some s \<Rightarrow> Inl (Denied s))"

definition cmd_unsafe :: "char \<Rightarrow> bool" where
  "cmd_unsafe c \<longleftrightarrow> c \<in> {CHR ''%'', CHR ''!'', CHR 0x22, CHR 0x0D, CHR 0x0A}"

definition check_cmd_shim :: "string list \<Rightarrow> run_error + unit" where
  "check_cmd_shim args = (case find (\<lambda>a. list_ex cmd_unsafe a) args of None \<Rightarrow> Inr () | Some a \<Rightarrow> Inl (UnsafeShim a))"

section \<open>Paths\<close>

text \<open>\<^verbatim>\<open>pathlib\<close>: drive, root and the rest of a Windows path, then parts, \<^verbatim>\<open>is_absolute\<close> and \<^verbatim>\<open>str\<close>.\<close>

abbreviation BS :: char where
  "BS \<equiv> CHR 0x5C"

definition nt_splitroot :: "string \<Rightarrow> string \<times> string \<times> string" where
  "nt_splitroot p =
     (if starts_with [BS, BS] p then
        let start = (if map upper_ch (take 8 p) = [BS, BS, CHR ''?'', BS] @ ''UNC'' @ [BS] then 8 else 2) in
        (case py_partition [BS] (List.drop start p) of
           (a, True, r) \<Rightarrow>
             (case py_partition [BS] r of
                (b, True, c) \<Rightarrow> (take start p @ a @ BS # b, [BS], c)
              | _ \<Rightarrow> (p, [], []))
         | _ \<Rightarrow> (p, [], []))
      else if starts_with [BS] p then ([], [BS], tl p)
      else if 2 \<le> length p \<and> p ! 1 = CHR '':'' then
        (if starts_with [BS] (List.drop 2 p) then (take 2 p, [BS], List.drop 3 p) else (take 2 p, [], List.drop 2 p))
      else ([], [], p))"

text \<open>A share without a path gets its root from \<^verbatim>\<open>pathlib\<close>.\<close>

definition share_root :: "string \<Rightarrow> bool" where
  "share_root drv \<longleftrightarrow> starts_with [BS] drv \<and> \<not> ends_with [BS] drv \<and>
     (let ps = split_str [BS] drv in
      length ps = 4 \<and> ps ! 2 \<notin> {[], ''?'', ''.'', ''?.''} \<or> length ps = 6)"

record pure_path =
  pp_drive :: string
  pp_root :: string
  pp_parts :: "string list"

definition pure_path :: "bool \<Rightarrow> string \<Rightarrow> pure_path" where
  "pure_path win s =
     (if win then
        (case nt_splitroot (py_replace ''/'' [BS] s) of (drv, root, rel) \<Rightarrow>
           \<lparr>pp_drive = drv, pp_root = (if root = [] \<and> share_root drv then [BS] else root),
            pp_parts = filter (\<lambda>x. x \<notin> {[], ''.''}) (split_str [BS] rel)\<rparr>)
      else
        \<lparr>pp_drive = [],
         pp_root = (if starts_with ''//'' s \<and> \<not> starts_with ''///'' s then ''//'' else if starts_with ''/'' s then ''/'' else []),
         pp_parts = filter (\<lambda>x. x \<notin> {[], ''.''}) (split_str ''/'' s)\<rparr>)"

definition is_absolute :: "bool \<Rightarrow> pure_path \<Rightarrow> bool" where
  "is_absolute win p \<longleftrightarrow> pp_root p \<noteq> [] \<and> (win \<longrightarrow> pp_drive p \<noteq> [])"

definition path_str :: "bool \<Rightarrow> pure_path \<Rightarrow> string" where
  "path_str win p =
     (let sep = (if win then [BS] else ''/'');
          anchor = pp_drive p @ pp_root p;
          parts = (if anchor = [] \<and> win \<and> pp_parts p \<noteq> [] \<and> fst (nt_splitroot (hd (pp_parts p))) \<noteq> [] then ''.'' # pp_parts p
                   else pp_parts p);
          s = anchor @ py_join sep parts in
      if s = [] then ''.'' else s)"

definition safe_path :: "bool \<Rightarrow> string \<Rightarrow> run_error + string" where
  "safe_path win v =
     (let p = pure_path win v in
      if is_absolute win p \<or> ''..'' \<in> set (pp_parts p) then Inl (BadPath v) else Inr (path_str win p))"

section \<open>The argv\<close>

type_synonym spec = "(string \<times> json) list"

text \<open>Keys are lowered; a key that occurs twice keeps its first place and its last value.\<close>

definition norm_keys :: "spec \<Rightarrow> spec" where
  "norm_keys d = fold (\<lambda>(k, v). dset (lower k) v) d []"

definition placeholder :: "string \<Rightarrow> string" where
  "placeholder name = ''{'' @ name @ ''}''"

definition spec_args :: "spec \<Rightarrow> (string \<times> json) list option" where
  "spec_args sp = (case obj_get sp ''args'' of JObj d \<Rightarrow> Some d | j \<Rightarrow> if truthy j then None else Some [])"

definition arg_appended :: "spec \<Rightarrow> bool" where
  "arg_appended a \<longleftrightarrow> dget_or a ''position'' (JStr ''append'') = JStr ''append''"

definition arg_value :: "bool \<Rightarrow> spec \<Rightarrow> string \<Rightarrow> run_error + string" where
  "arg_value win a v = (if obj_get a ''type'' = JStr ''path'' then safe_path win v else Inr v)"

definition place_arg :: "string \<Rightarrow> spec \<Rightarrow> string \<Rightarrow> string list \<Rightarrow> string list" where
  "place_arg name a v argv =
     (if arg_appended a then argv @ [v] else map (\<lambda>e. if e = placeholder name then v else e) argv)"

fun place_args :: "bool \<Rightarrow> (string, string) dict \<Rightarrow> (string \<times> json) list \<Rightarrow> string list \<Rightarrow> run_error + string list" where
  "place_args win kw [] argv = Inr argv"
| "place_args win kw ((name, j) # args) argv =
     (case (dget kw name, j) of
        (None, _) \<Rightarrow> place_args win kw args argv
      | (Some v, JObj a) \<Rightarrow> rbind (arg_value win a v) (\<lambda>v'. place_args win kw args (place_arg name a v' argv))
      | _ \<Rightarrow> Inl BadSpec)"

definition json_text :: "(json \<Rightarrow> string) \<Rightarrow> json \<Rightarrow> string" where
  "json_text repr j = (case j of JStr s \<Rightarrow> s | _ \<Rightarrow> repr j)"

text \<open>What a loop over a JSON value gives.\<close>

definition json_elements :: "(json \<Rightarrow> string) \<Rightarrow> json \<Rightarrow> string list option" where
  "json_elements repr j =
     (case j of
        JArr xs \<Rightarrow> Some (map (json_text repr) xs)
      | JStr s \<Rightarrow> Some (map (\<lambda>c. [c]) s)
      | JObj d \<Rightarrow> Some (map fst d)
      | _ \<Rightarrow> None)"

definition build_argv :: "(json \<Rightarrow> string) \<Rightarrow> bool \<Rightarrow> spec \<Rightarrow> (string, string) dict \<Rightarrow> run_error + string list" where
  "build_argv repr win sp kw =
     (case (json_elements repr (obj_get sp ''cmd''), spec_args sp) of
        (Some cmd, Some args) \<Rightarrow> place_args win kw args cmd
      | _ \<Rightarrow> Inl BadSpec)"

section \<open>Starting a command\<close>

text \<open>What the operating system answers: \<open>ro_shown\<close> is the argv of a process started from a raw command line.\<close>

record run_os =
  ro_win :: bool
  ro_isabs :: "string \<Rightarrow> bool"
  ro_exists :: "string \<Rightarrow> bool"
  ro_which :: "string \<Rightarrow> string option"
  ro_shown :: "string \<Rightarrow> string list"
  ro_repr :: "json \<Rightarrow> string"
  ro_decode :: "string \<Rightarrow> string"
  ro_sha :: "string \<Rightarrow> string"
  ro_audit :: "json \<Rightarrow> audit_io \<times> string"
  ro_os :: os_env

definition SHIM_QUOTED :: string where
  "SHIM_QUOTED = '' '' @ [CHR 0x09] @ ''&|<>()^''"

definition shim_quote :: "string \<Rightarrow> string" where
  "shim_quote a = (if list_ex (\<lambda>c. c \<in> set SHIM_QUOTED) a then CHR 0x22 # a @ [CHR 0x22] else a)"

definition shim_inner :: "string \<Rightarrow> string list \<Rightarrow> string" where
  "shim_inner exe args = py_join '' '' ((CHR 0x22 # exe @ [CHR 0x22]) # map shim_quote args)"

definition shim_cmdline :: "string \<Rightarrow> string list \<Rightarrow> string" where
  "shim_cmdline exe args = ''cmd /c '' @ CHR 0x22 # shim_inner exe args @ [CHR 0x22]"

definition is_batch :: "string \<Rightarrow> bool" where
  "is_batch exe \<longleftrightarrow> ends_with ''.cmd'' (lower exe) \<or> ends_with ''.bat'' (lower exe)"

definition resolve_exe :: "run_os \<Rightarrow> string \<Rightarrow> string \<Rightarrow> string" where
  "resolve_exe r cwd first =
     (let first' = (if \<not> ro_isabs r first \<and> ro_exists r (path_join cwd first) then path_join cwd first else first);
          found = (if ro_win r then List.find (\<lambda>o'. o' \<noteq> None \<and> o' \<noteq> Some [])
                     (map (\<lambda>ext. ro_which r (first' @ ext)) [''.exe'', ''.cmd'', ''.bat'']) else None) in
      case found of
        Some (Some exe) \<Rightarrow> exe
      | _ \<Rightarrow> (case ro_which r first' of Some exe \<Rightarrow> if exe = [] then first' else exe | None \<Rightarrow> first'))"

text \<open>\<^const>\<open>Inl\<close>: a raw command line for a batch file.\<close>

definition resolve :: "run_os \<Rightarrow> string \<Rightarrow> string list \<Rightarrow> string + string list" where
  "resolve r cwd argv =
     (let exe = resolve_exe r cwd (hd argv) in
      if ro_win r \<and> is_batch exe then Inl (shim_cmdline exe (tl argv)) else Inr (exe # tl argv))"

definition child_env :: "(string, string) dict \<Rightarrow> (string, string) dict \<Rightarrow> (string, string) dict" where
  "child_env environ extra = dmerge (child_base environ) extra"

text \<open>The environment of a spec, when all its values are strings.\<close>

definition spec_env :: "spec \<Rightarrow> (string, string) dict option" where
  "spec_env sp =
     (case obj_get sp ''env'' of
        JObj d \<Rightarrow> those (map (\<lambda>(k, v). case v of JStr s \<Rightarrow> Some (k, s) | _ \<Rightarrow> None) d)
      | j \<Rightarrow> if truthy j then None else Some [])"

definition tail :: "nat \<Rightarrow> string \<Rightarrow> string" where
  "tail limit s = List.drop (length s - limit) s"

record run_ctx =
  rx_cwd :: string
  rx_run_dir :: string
  rx_profile :: string
  rx_timeout :: int

record runner =
  rs_host :: host
  rs_audit :: audit_fs
  rs_bg :: "nat list"

definition run_audit :: "run_os \<Rightarrow> json \<Rightarrow> runner \<Rightarrow> runner" where
  "run_audit r ev s = (case ro_audit r ev of (io, ts) \<Rightarrow> s\<lparr>rs_audit := audit (ro_sha r) io ts ev (rs_audit s)\<rparr>)"

definition prune_bg :: "runner \<Rightarrow> runner" where
  "prune_bg s = s\<lparr>rs_bg := filter (\<lambda>pid. has_key (hs_procs (rs_host s)) pid) (rs_bg s)\<rparr>"

text \<open>\<^verbatim>\<open>Popen\<close> starts what it is given, without the search that the process manager makes.\<close>

definition popen :: "run_os \<Rightarrow> string + string list \<Rightarrow> (string, string) dict \<Rightarrow> host \<Rightarrow> nat option \<times> host" where
  "popen r command env h =
     spawn ((ro_os r)\<lparr>oe_resolve := (\<lambda>a. a)\<rparr>) (case command of Inl line \<Rightarrow> ro_shown r line | Inr argv \<Rightarrow> argv) env h"

text \<open>The marker joins the elements of the argv, or the letters of a raw command line.\<close>

definition bg_marker :: "string + string list \<Rightarrow> string" where
  "bg_marker command = py_join '' '' (case command of Inl line \<Rightarrow> map (\<lambda>c. [c]) line | Inr argv \<Rightarrow> argv)"

definition pid_file :: "run_ctx \<Rightarrow> string \<Rightarrow> string" where
  "pid_file cx name = path_join (rx_run_dir cx) (rx_profile cx @ ''-'' @ name @ ''.pid'')"

definition log_file :: "run_ctx \<Rightarrow> string \<Rightarrow> string" where
  "log_file cx name = path_join (rx_run_dir cx) (rx_profile cx @ ''-'' @ name @ ''.log'')"

definition run_background :: "run_os \<Rightarrow> run_ctx \<Rightarrow> string \<Rightarrow> spec \<Rightarrow> string + string list \<Rightarrow> (string, string) dict \<Rightarrow>
    runner \<Rightarrow> (run_error + json) \<times> runner" where
  "run_background r cx name sp command env s =
     (case popen r command env (rs_host s) of
        (None, h) \<Rightarrow> (Inl OsFailed, s\<lparr>rs_host := h\<rparr>)
      | (Some pid, h) \<Rightarrow>
          let text = nat_str pid @ ''|'' @ (case create_time h pid of None \<Rightarrow> [] | Some t \<Rightarrow> t) @ ''|'' @ bg_marker command;
              s1 = prune_bg (s\<lparr>rs_host := h\<lparr>hs_files := dset (pid_file cx name) text (hs_files h)\<rparr>\<rparr>) in
          (Inr (JObj [(''started'', JBool True), (''pid'', JInt (int pid)), (''port'', obj_get sp ''port''),
             (''log'', JStr (log_file cx name))]),
           s1\<lparr>rs_bg := pid # removeAll pid (rs_bg s1)\<rparr>))"

text \<open>How a process in the foreground ends: its code, or \<^const>\<open>None\<close> for the time-out, and what it wrote.\<close>

record outcome =
  fo_code :: "int option"
  fo_out :: string
  fo_err :: string

definition process_gone :: "nat \<Rightarrow> host \<Rightarrow> host" where
  "process_gone pid h = h\<lparr>hs_procs := ddel pid (hs_procs h)\<rparr>"

definition run_foreground :: "run_os \<Rightarrow> string \<Rightarrow> int \<Rightarrow> outcome \<Rightarrow> string + string list \<Rightarrow> (string, string) dict \<Rightarrow>
    runner \<Rightarrow> (run_error + json) \<times> runner" where
  "run_foreground r name timeout out command env s =
     (case popen r command env (rs_host s) of
        (None, h) \<Rightarrow> (Inl OsFailed, s\<lparr>rs_host := h\<rparr>)
      | (Some pid, h) \<Rightarrow>
          let stdout = ro_decode r (tail 64000 (fo_out out)); stderr = ro_decode r (tail 32000 (fo_err out)) in
          (case fo_code out of
             None \<Rightarrow>
               (Inr (JObj [(''exit_code'', JInt 124), (''stdout'', JStr stdout), (''stderr'',
                  JStr (lstrip_by (\<lambda>c. c = LF) (stderr @ LF # ''[timeout] '' @ int_str timeout)))]),
                run_audit r (JObj [(''tool'', JStr name), (''exit'', JStr ''timeout'')])
                  (s\<lparr>rs_host := process_gone pid (kill_tree (ro_os r) pid h)\<rparr>))
           | Some rc \<Rightarrow>
               (Inr (JObj [(''exit_code'', JInt rc), (''stdout'', JStr stdout), (''stderr'', JStr stderr)]),
                run_audit r (JObj [(''tool'', JStr name), (''exit'', JInt rc)]) (s\<lparr>rs_host := process_gone pid h\<rparr>))))"

text \<open>A run tool: \<open>kw\<close> are the arguments that are not \<^verbatim>\<open>None\<close>, \<open>timeout\<close> is fixed when the tool is made.\<close>

definition run_tool :: "run_os \<Rightarrow> run_ctx \<Rightarrow> string \<Rightarrow> spec \<Rightarrow> int \<Rightarrow> outcome \<Rightarrow> (string, string) dict \<Rightarrow>
    runner \<Rightarrow> (run_error + json) \<times> runner" where
  "run_tool r cx name sp timeout out kw s =
     (case rbind (check_args (map snd kw)) (\<lambda>_. build_argv (ro_repr r) (ro_win r) sp kw) of
        Inl e \<Rightarrow> (Inl e, s)
      | Inr argv \<Rightarrow>
          let s1 = run_audit r (JObj [(''tool'', JStr name), (''argv'', JArr (map JStr (redact_argv argv)))]) s in
          if argv = [] then (Inl BadSpec, s1)
          else let command = resolve r (rx_cwd cx) argv;
                   shim = (case command of Inl _ \<Rightarrow> check_cmd_shim (tl argv) | Inr _ \<Rightarrow> Inr ()) in
            (case shim of
              Inl e \<Rightarrow> (Inl e, s1)
            | Inr _ \<Rightarrow>
                (case spec_env sp of
                   None \<Rightarrow> (Inl BadSpec, s1)
                 | Some extra \<Rightarrow>
                     let env = child_env (oe_environ (ro_os r)) extra in
                     if truthy (obj_get sp ''background'') then run_background r cx name sp command env s1
                     else run_foreground r name timeout out command env s1)))"

section \<open>Stopping a command\<close>

text \<open>\<^verbatim>\<open>split("|", 2)\<close> of the stripped file; a time that is not a number counts as none.\<close>

definition parse_pid_file :: "(string \<Rightarrow> string option) \<Rightarrow> string \<Rightarrow> (nat \<times> string option \<times> string) option" where
  "parse_pid_file flt text =
     (case py_partition ''|'' (strip text) of
        (a, True, x) \<Rightarrow>
          (case py_partition ''|'' x of
             (b, True, m) \<Rightarrow>
               if a = [] \<or> \<not> list_all is_digit a then None
               else Some (digits_val a, if b = [] then None else flt b, m)
           | _ \<Rightarrow> None)
      | _ \<Rightarrow> None)"

definition run_kill :: "run_os \<Rightarrow> run_ctx \<Rightarrow> string \<Rightarrow> runner \<Rightarrow> json \<times> runner" where
  "run_kill r cx name s =
     (let path = pid_file cx name;
          drop_file = (\<lambda>h. h\<lparr>hs_files := ddel path (hs_files h)\<rparr>) in
      case dget (hs_files (rs_host s)) path of
        None \<Rightarrow> (JObj [(''killed'', JBool False), (''reason'', JStr ''no pidfile'')], s)
      | Some text \<Rightarrow>
          (case parse_pid_file (oe_float (ro_os r)) text of
             None \<Rightarrow> (JObj [(''killed'', JBool False), (''reason'', JStr ''damaged'')], s\<lparr>rs_host := drop_file (rs_host s)\<rparr>)
           | Some (pid, tm, marker) \<Rightarrow>
               if \<not> owned (rs_host s) pid tm marker
               then (JObj [(''killed'', JBool False), (''pid'', JInt (int pid)), (''reason'', JStr ''not ours'')],
                     s\<lparr>rs_host := drop_file (rs_host s)\<rparr>)
               else let s1 = prune_bg (s\<lparr>rs_host := kill_tree (ro_os r) pid (rs_host s)\<rparr>) in
                 (JObj [(''killed'', JBool True), (''pid'', JInt (int pid))],
                  run_audit r (JStr (name @ ''_kill pid='' @ nat_str pid)) (s1\<lparr>rs_host := drop_file (rs_host s1)\<rparr>))))"

section \<open>Registration\<close>

text \<open>The tools of a configuration in the order of registration, each with its name and what it is made from.\<close>

datatype run_tool_kind = RunTool string spec int | KillTool string

text \<open>\<open>to_int\<close> is \<^verbatim>\<open>int\<close> on JSON values; \<^const>\<open>None\<close> stands for an exception that ends the program.\<close>

definition tool_timeout :: "(json \<Rightarrow> int option) \<Rightarrow> spec \<Rightarrow> int \<Rightarrow> int option" where
  "tool_timeout to_int sp deflt = (let j = obj_get sp ''timeout'' in if truthy j then to_int j else Some deflt)"

definition norm_dict :: "json \<Rightarrow> spec option" where
  "norm_dict j = (case j of JObj d \<Rightarrow> Some (norm_keys d) | _ \<Rightarrow> if truthy j then None else Some [])"

definition norm_args :: "spec \<Rightarrow> spec option" where
  "norm_args sp =
     (case spec_args sp of
        None \<Rightarrow> None
      | Some args \<Rightarrow>
          map_option (\<lambda>d. dset ''args'' (JObj d) sp)
            (those (map (\<lambda>(k, v). map_option (\<lambda>a. (k, JObj a)) (norm_dict v)) args)))"

definition add_tools :: "(json \<Rightarrow> int option) \<Rightarrow> string \<Rightarrow> int \<Rightarrow> spec \<Rightarrow> (string \<times> run_tool_kind) list option" where
  "add_tools to_int pre deflt sp =
     (case (obj_get sp ''name'', spec_args sp, tool_timeout to_int sp deflt) of
        (JStr n, Some _, Some t) \<Rightarrow>
          Some ((runner_tool_name (pre @ n), RunTool (pre @ n) sp t) #
                (if truthy (obj_get sp ''background'') then [(runner_kill_tool_name (pre @ n), KillTool (pre @ n))] else []))
      | _ \<Rightarrow> None)"

definition command_tools :: "(json \<Rightarrow> int option) \<Rightarrow> int \<Rightarrow> json \<Rightarrow> (string \<times> run_tool_kind) list option" where
  "command_tools to_int deflt j = Option.bind (Option.bind (norm_dict j) norm_args) (add_tools to_int [] deflt)"

definition script_tools :: "(json \<Rightarrow> int option) \<Rightarrow> int \<Rightarrow> json \<Rightarrow> (string \<times> run_tool_kind) list option" where
  "script_tools to_int deflt j = Option.bind (norm_dict j) (add_tools to_int ''script:'' deflt)"

definition json_items :: "json \<Rightarrow> json list option" where
  "json_items j = (case j of JArr xs \<Rightarrow> Some xs | JStr s \<Rightarrow> Some (map (\<lambda>c. JStr [c]) s) | JObj d \<Rightarrow> Some (map (JStr \<circ> fst) d) | _ \<Rightarrow> None)"

definition register_all :: "(json \<Rightarrow> int option) \<Rightarrow> int \<Rightarrow> spec \<Rightarrow> (string \<times> run_tool_kind) list option" where
  "register_all to_int deflt cfg =
     (case (json_items (dget_or cfg ''commands'' (JArr [])), json_items (dget_or cfg ''scripts'' (JArr []))) of
        (Some cs, Some ss) \<Rightarrow>
          map_option concat (those (map (command_tools to_int deflt) cs @ map (script_tools to_int deflt) ss))
      | _ \<Rightarrow> None)"

definition runner_ctx :: "(json \<Rightarrow> int option) \<Rightarrow> string \<Rightarrow> (string, string) dict \<Rightarrow> spec \<Rightarrow> run_ctx option" where
  "runner_ctx to_int here environ cfg =
     (case (dget_or cfg ''cwd'' (JStr here), dget_or cfg ''profile'' (JStr ''default''), to_int (dget_or cfg ''timeout'' (JInt 900))) of
        (JStr cwd, JStr pname, Some t) \<Rightarrow>
          Some \<lparr>rx_cwd = cwd, rx_run_dir = path_join (dget_or environ ''TEMP'' ''/tmp'') ''rdm-runner'', rx_profile = pname, rx_timeout = t\<rparr>
      | _ \<Rightarrow> None)"

definition runner_list :: "spec \<Rightarrow> string" where
  "runner_list cfg = dumps (fmt_indent2 False) (dget_or cfg ''commands'' (JArr []))"

section \<open>Substitution\<close>

text \<open>What an argument puts into the argv, when it is given.\<close>

definition arg_final :: "bool \<Rightarrow> (string, string) dict \<Rightarrow> string \<times> json \<Rightarrow> string option" where
  "arg_final win kw x =
     (case (dget kw (fst x), snd x) of
        (Some v, JObj a) \<Rightarrow> (case arg_value win a v of Inr v' \<Rightarrow> Some v' | Inl _ \<Rightarrow> None)
      | _ \<Rightarrow> None)"

definition appended :: "string \<times> json \<Rightarrow> bool" where
  "appended x \<longleftrightarrow> (case snd x of JObj a \<Rightarrow> arg_appended a | _ \<Rightarrow> False)"

fun substitute :: "bool \<Rightarrow> (string, string) dict \<Rightarrow> (string \<times> json) list \<Rightarrow> string \<Rightarrow> string" where
  "substitute win kw [] e = e"
| "substitute win kw (x # args) e =
     (case arg_final win kw x of
        Some v \<Rightarrow> if \<not> appended x \<and> e = placeholder (fst x) then v else substitute win kw args e
      | None \<Rightarrow> substitute win kw args e)"

text \<open>No argument is given a value that is itself a placeholder.\<close>

definition plain_values :: "bool \<Rightarrow> (string, string) dict \<Rightarrow> (string \<times> json) list \<Rightarrow> bool" where
  "plain_values win kw args \<longleftrightarrow>
     list_all (\<lambda>x. case arg_final win kw x of None \<Rightarrow> True | Some v \<Rightarrow> v \<notin> set (map (placeholder \<circ> fst) args)) args"

lemma substitute_other: "e \<notin> set (map (placeholder \<circ> fst) args) \<Longrightarrow> substitute win kw args e = e"
  by (induction args) (auto split: option.split)

lemma place_args_step:
  "place_args win kw (x # args) argv =
     (case dget kw (fst x) of
        None \<Rightarrow> place_args win kw args argv
      | Some v \<Rightarrow> (case snd x of
          JObj a \<Rightarrow> rbind (arg_value win a v) (\<lambda>v'. place_args win kw args (place_arg (fst x) a v' argv))
        | _ \<Rightarrow> Inl BadSpec))"
  by (cases x) (auto split: option.split json.split)

lemma plain_values_tl: "plain_values win kw (x # args) \<Longrightarrow> plain_values win kw args"
  by (auto simp: plain_values_def list_all_iff split: option.splits)

lemma place_args_substitute:
  assumes "place_args win kw args argv = Inr out" "plain_values win kw args"
  shows "out = map (substitute win kw args) argv @ List.map_filter (arg_final win kw) (filter appended args)"
  using assms
proof (induction args arbitrary: argv)
  case Nil
  then show ?case by simp
next
  case (Cons x args)
  note IH = Cons.IH[OF _ plain_values_tl[OF Cons.prems(2)]]
  show ?case
  proof (cases "dget kw (fst x)")
    case None
    then have "arg_final win kw x = None" by (simp add: arg_final_def)
    then show ?thesis using IH Cons.prems(1) None by (simp add: place_args_step)
  next
    case (Some v)
    then obtain a v' where a: "snd x = JObj a" "arg_value win a v = Inr v'"
      "place_args win kw args (place_arg (fst x) a v' argv) = Inr out"
      using Cons.prems(1) by (auto simp: place_args_step rbind_def split: json.splits sum.splits)
    have f: "arg_final win kw x = Some v'" by (simp add: arg_final_def Some a)
    have "v' \<notin> set (map (placeholder \<circ> fst) args)" using Cons.prems(2) by (simp add: plain_values_def f)
    then have v': "substitute win kw args v' = v'" by (rule substitute_other)
    show ?thesis using IH[OF a(3)] v' by (auto simp: place_arg_def f appended_def a(1))
  qed
qed

text \<open>The program is the one declared: no argument replaces the head of the argv, unless it is a placeholder.\<close>

lemma place_args_hd:
  "place_args win kw args argv = Inr out \<Longrightarrow> argv \<noteq> [] \<Longrightarrow> hd argv \<notin> set (map (placeholder \<circ> fst) args) \<Longrightarrow>
     out \<noteq> [] \<and> hd out = hd argv"
proof (induction args arbitrary: argv)
  case (Cons x args)
  show ?case
  proof (cases "dget kw (fst x)")
    case (Some v)
    then obtain a v' where a: "place_args win kw args (place_arg (fst x) a v' argv) = Inr out"
      using Cons.prems(1) by (auto simp: place_args_step rbind_def split: json.splits sum.splits)
    have "place_arg (fst x) a v' argv \<noteq> [] \<and> hd (place_arg (fst x) a v' argv) = hd argv"
      using Cons.prems(2,3) by (cases argv) (auto simp: place_arg_def)
    then show ?thesis using Cons.IH[OF a] Cons.prems(3) by auto
  qed (use Cons in \<open>auto simp: place_args_step\<close>)
qed simp

text \<open>
  Arguments are substituted simultaneously: when no argument has a placeholder as its value, the argv is the declared
  command with every placeholder of a given argument replaced by its value, a checked path for an argument of type
  path, followed by the values of the appended arguments in the order of their declaration.
\<close>

theorem argv_substitution:
  assumes "build_argv repr win sp kw = Inr out" "json_elements repr (obj_get sp ''cmd'') = Some cmd" "spec_args sp = Some args"
    and "plain_values win kw args"
  shows "out = map (substitute win kw args) cmd @ List.map_filter (arg_final win kw) (filter appended args)"
  using place_args_substitute[of win kw args cmd out] assms by (simp add: build_argv_def)

text \<open>A tool with a path and a free text, both in places of the command.\<close>

definition demo_spec :: spec where
  "demo_spec = [(''name'', JStr ''show''), (''cmd'', JArr [JStr ''cat'', JStr ''{file}'', JStr ''--title'', JStr ''{title}'']),
     (''args'', JObj [(''file'', JObj [(''type'', JStr ''path''), (''position'', JStr ''template'')]),
       (''title'', JObj [(''type'', JStr ''str''), (''position'', JStr ''template'')])])]"

text \<open>
  A path argument can leave the project: its value may be the placeholder of a later argument, which is then replaced
  by a value that was not checked as a path. Here a call whose path value passes the check hands
  \<^verbatim>\<open>../../etc/passwd\<close> to the program, which the check refuses as the path itself.
\<close>

theorem argv_placeholder_confusion:
  "build_argv repr False demo_spec [(''file'', ''{title}''), (''title'', ''../../etc/passwd'')] =
     Inr [''cat'', ''../../etc/passwd'', ''--title'', ''../../etc/passwd''] \<and>
   build_argv repr False demo_spec [(''file'', ''../../etc/passwd'')] = Inl (BadPath ''../../etc/passwd'')"
proof -
  have e: "json_elements repr (obj_get demo_spec ''cmd'') = Some [''cat'', ''{file}'', ''--title'', ''{title}'']"
    by (simp add: demo_spec_def obj_get_def json_elements_def json_text_def)
  have p: "safe_path False ''{title}'' = Inr ''{title}''" "safe_path False ''../../etc/passwd'' = Inl (BadPath ''../../etc/passwd'')"
    by code_simp+
  show ?thesis unfolding build_argv_def e
    by (simp add: demo_spec_def obj_get_def spec_args_def p rbind_def arg_value_def place_arg_def arg_appended_def dget_or_def placeholder_def)
qed

section \<open>Paths stay below\<close>

lemma py_join_append: "xs \<noteq> [] \<Longrightarrow> py_join sep (x # xs) = x @ sep @ py_join sep xs"
  by (cases xs) simp_all

lemma posix_path:
  "pp_parts (pure_path False t) = filter (\<lambda>x. x \<notin> {[], ''.''}) (split_str ''/'' t)"
  "\<not> starts_with ''/'' t \<Longrightarrow> \<not> starts_with ''//'' t \<Longrightarrow> pp_root (pure_path False t) = []"
  by (simp_all add: pure_path_def)

lemma posix_parts_str:
  assumes "safe_path False v = Inr s"
  shows "pp_root (pure_path False s) = []" "pp_parts (pure_path False s) = pp_parts (pure_path False v)"
    "''..'' \<notin> set (pp_parts (pure_path False v))"
proof -
  let ?ps = "pp_parts (pure_path False v)"
  have r: "pp_root (pure_path False v) = []" and d: "''..'' \<notin> set ?ps" and s: "s = (if py_join ''/'' ?ps = [] then ''.'' else py_join ''/'' ?ps)"
    using assms by (auto simp: safe_path_def Let_def is_absolute_def path_str_def pure_path_def split: if_splits)
  have ps: "x \<noteq> [] \<and> x \<noteq> ''.'' \<and> CHR ''/'' \<notin> set x" if "x \<in> set ?ps" for x
    using that by (auto simp: pure_path_def dest: split_str_char_free)
  have "pp_root (pure_path False s) = [] \<and> pp_parts (pure_path False s) = ?ps"
  proof (cases ?ps)
    case Nil
    have "pp_root (pure_path False ''.'') = []" "pp_parts (pure_path False ''.'') = []" by code_simp+
    then show ?thesis using s Nil by simp
  next
    case (Cons x xs)
    obtain c x' where x: "x = c # x'" "c \<noteq> CHR ''/''" using ps[of x] Cons by (cases x) auto
    have j: "py_join ''/'' ?ps = c # x' @ (if xs = [] then [] else ''/'' @ py_join ''/'' xs)"
      by (cases xs) (simp_all add: Cons x)
    have "split_str ''/'' (py_join ''/'' ?ps) = ?ps" by (rule split_str_join) (use ps Cons in auto)
    moreover have "filter (\<lambda>x. x \<notin> {[], ''.''}) ?ps = ?ps" using ps by (auto simp: filter_id_conv)
    moreover have sj: "s = py_join ''/'' ?ps" using s j by simp
    ultimately have "filter (\<lambda>x. x \<notin> {[], ''.''}) (split_str ''/'' s) = ?ps" by simp
    moreover have "\<not> starts_with ''/'' s" "\<not> starts_with ''//'' s" using x(2) by (simp_all add: sj j)
    ultimately show ?thesis using posix_path[of s] by simp
  qed
  then show "pp_root (pure_path False s) = []" "pp_parts (pure_path False s) = ?ps" "''..'' \<notin> set ?ps" using d by simp_all
qed

text \<open>
  A path that the check accepts on a POSIX host names something below the working directory: it is relative, and
  resolving it component by component from any directory never climbs.
\<close>

theorem safe_path_inside:
  assumes "safe_path False v = Inr s"
  shows "pp_root (pure_path False s) = [] \<and>
    (\<exists>rest. resolve_loop base (pp_parts (pure_path False s)) = Some (base @ rest))"
  using posix_parts_str[OF assms] resolve_loop_plain by auto

text \<open>On Windows a path with a root and no drive, or with a drive and no root, is not absolute and passes.\<close>

lemma safe_path_windows_root:
  "safe_path True ([BS] @ ''Windows'' @ [BS] @ ''x'') = Inr ([BS] @ ''Windows'' @ [BS] @ ''x'')"
  "safe_path True ''D:x'' = Inr ''D:x''"
  by code_simp+

section \<open>What a call starts and what a kill ends\<close>

lemma audit_host [simp]: "rs_host (run_audit r ev s) = rs_host s"
  by (simp add: run_audit_def split: prod.split)

lemma prune_host [simp]: "rs_host (prune_bg s) = rs_host s"
  by (simp add: prune_bg_def)

lemma popen_spawned:
  "popen r command env h = (res, h') \<Longrightarrow>
     hs_spawned h' = hs_spawned h \<or>
     (\<exists>pid p. res = Some pid \<and> hs_spawned h' = hs_spawned h @ [(pid, p)] \<and> pr_env p = env \<and>
        pr_argv p = (case command of Inl line \<Rightarrow> ro_shown r line | Inr argv \<Rightarrow> argv))"
  by (auto simp: popen_def spawn_def Let_def split: list.splits option.splits)

text \<open>The process that a call may start.\<close>

definition started_by :: "run_os \<Rightarrow> run_ctx \<Rightarrow> spec \<Rightarrow> (string, string) dict \<Rightarrow> process \<Rightarrow> bool" where
  "started_by r cx sp kw p \<longleftrightarrow>
     \<not> list_ex denied_arg (map snd kw) \<and>
     (\<exists>argv extra. build_argv (ro_repr r) (ro_win r) sp kw = Inr argv \<and> argv \<noteq> [] \<and> spec_env sp = Some extra \<and>
        pr_env p = child_env (oe_environ (ro_os r)) extra \<and>
        (case resolve r (rx_cwd cx) argv of
           Inl line \<Rightarrow> pr_argv p = ro_shown r line \<and> \<not> list_ex (list_ex cmd_unsafe) (tl argv)
         | Inr argv' \<Rightarrow> pr_argv p = argv'))"

lemma foreground_spawned: "hs_spawned (rs_host (snd (run_foreground r name t out command env s))) =
    hs_spawned (snd (popen r command env (rs_host s)))"
  by (simp add: run_foreground_def Let_def process_gone_def split: prod.split option.split)

lemma background_spawned: "hs_spawned (rs_host (snd (run_background r cx name sp command env s))) =
    hs_spawned (snd (popen r command env (rs_host s)))"
  by (simp add: run_background_def Let_def split: prod.split option.split)

lemma check_shim_ok: "check_cmd_shim args = Inr u \<Longrightarrow> \<not> list_ex (list_ex cmd_unsafe) args"
  by (auto simp: check_cmd_shim_def list_ex_iff find_None_iff split: option.splits)

lemma check_args_ok: "check_args vs = Inr u \<Longrightarrow> \<not> list_ex denied_arg vs"
  by (auto simp: check_args_def list_ex_iff find_None_iff split: option.splits)

lemma run_tool_cases:
  obtains "hs_spawned (rs_host (snd (run_tool r cx name sp t out kw s))) = hs_spawned (rs_host s)"
  | argv extra where "\<not> list_ex denied_arg (map snd kw)" "build_argv (ro_repr r) (ro_win r) sp kw = Inr argv" "argv \<noteq> []"
    "spec_env sp = Some extra"
    "case resolve r (rx_cwd cx) argv of Inl line \<Rightarrow> \<not> list_ex (list_ex cmd_unsafe) (tl argv) | Inr _ \<Rightarrow> True"
    "hs_spawned (rs_host (snd (run_tool r cx name sp t out kw s))) =
       hs_spawned (snd (popen r (resolve r (rx_cwd cx) argv) (child_env (oe_environ (ro_os r)) extra) (rs_host s)))"
proof (cases "rbind (check_args (map snd kw)) (\<lambda>_. build_argv (ro_repr r) (ro_win r) sp kw)")
  case (Inl e)
  then show ?thesis using that(1) by (simp add: run_tool_def)
next
  case (Inr argv)
  then have ok: "\<not> list_ex denied_arg (map snd kw)" "build_argv (ro_repr r) (ro_win r) sp kw = Inr argv"
    by (auto simp: rbind_def split: sum.splits dest: check_args_ok)
  let ?c = "resolve r (rx_cwd cx) argv"
  let ?shim = "case ?c of Inl _ \<Rightarrow> check_cmd_shim (tl argv) | Inr _ \<Rightarrow> Inr ()"
  show ?thesis
  proof (cases "argv = []")
    case True
    show ?thesis by (rule that(1)) (simp add: run_tool_def Inr Let_def True)
  next
    case ne: False
    show ?thesis
    proof (cases ?shim)
      case l: (Inl e)
      show ?thesis by (rule that(1)) (simp add: run_tool_def Inr Let_def ne l)
    next
      case u: (Inr u)
      show ?thesis
      proof (cases "spec_env sp")
        case None
        show ?thesis by (rule that(1)) (simp add: run_tool_def Inr Let_def ne u None)
      next
        case (Some extra)
        have "case ?c of Inl line \<Rightarrow> \<not> list_ex (list_ex cmd_unsafe) (tl argv) | Inr _ \<Rightarrow> True"
          using u check_shim_ok by (auto split: sum.splits)
        then show ?thesis using that(2)[OF ok ne Some]
          by (simp add: run_tool_def Inr Let_def ne u Some foreground_spawned background_spawned)
      qed
    qed
  qed
qed


text \<open>
  A kill tool ends only a process of the runner and always forgets it: whatever the pid file holds and whatever pids
  were reused, what is killed has the recorded command line or start time, and no pid file is left.
\<close>

theorem run_kill_ours:
  "kills_only (\<lambda>(pid, p). \<exists>t0 tm m. dget (hs_files (rs_host s)) (pid_file cx name) = Some t0 \<and>
       parse_pid_file (oe_float (ro_os r)) t0 = Some (pid, tm, m) \<and> (runs_marker m p \<or> tm = Some (pr_time p)))
     (rs_host s) (rs_host (snd (run_kill r cx name s))) \<and>
   dget (hs_files (rs_host (snd (run_kill r cx name s)))) (pid_file cx name) = None"
proof
  let ?J = "\<lambda>(pid, p). \<exists>t0 tm m. dget (hs_files (rs_host s)) (pid_file cx name) = Some t0 \<and>
       parse_pid_file (oe_float (ro_os r)) t0 = Some (pid, tm, m) \<and> (runs_marker m p \<or> tm = Some (pr_time p))"
  let ?r = "run_kill r cx name s"
  have killed: "hs_killed (rs_host (snd ?r)) = hs_killed (rs_host s) \<or>
     (\<exists>t0 pid tm m. dget (hs_files (rs_host s)) (pid_file cx name) = Some t0 \<and>
       parse_pid_file (oe_float (ro_os r)) t0 = Some (pid, tm, m) \<and> owned (rs_host s) pid tm m \<and>
       hs_killed (rs_host (snd ?r)) = hs_killed (kill_tree (ro_os r) pid (rs_host s)))"
    by (auto simp: run_kill_def Let_def split: option.split prod.split)
  then show "kills_only ?J (rs_host s) (rs_host (snd ?r))"
  proof
    assume "\<exists>t0 pid tm m. dget (hs_files (rs_host s)) (pid_file cx name) = Some t0 \<and>
       parse_pid_file (oe_float (ro_os r)) t0 = Some (pid, tm, m) \<and> owned (rs_host s) pid tm m \<and>
       hs_killed (rs_host (snd ?r)) = hs_killed (kill_tree (ro_os r) pid (rs_host s))"
    then obtain t0 pid tm m where k: "dget (hs_files (rs_host s)) (pid_file cx name) = Some t0"
      "parse_pid_file (oe_float (ro_os r)) t0 = Some (pid, tm, m)" "owned (rs_host s) pid tm m"
      "hs_killed (rs_host (snd ?r)) = hs_killed (kill_tree (ro_os r) pid (rs_host s))" by blast
    have "kills_only ?J (rs_host s) (kill_tree (ro_os r) pid (rs_host s))"
      by (rule kills_only_tree) (use k(1,2) owned_runs[OF k(3)] in blast)
    then show ?thesis using kills_only_trans kills_only_same[OF k(4)] by blast
  qed (rule kills_only_same)
  show "dget (hs_files (rs_host (snd ?r))) (pid_file cx name) = None"
    by (auto simp: run_kill_def Let_def split: option.split prod.split)
qed

section \<open>The quoting of a batch command\<close>

text \<open>
  How a Windows program reads its command line: blanks separate words outside quotes, a quote opens and closes, and
  backslashes count only before a quote, where two stand for one and an odd one makes the quote a letter.
  The state is whether a quote is open, the backslashes just read and the word so far.
\<close>

definition so_far :: "string option \<Rightarrow> string" where
  "so_far w = (case w of None \<Rightarrow> [] | Some v \<Rightarrow> v)"

fun crt_words :: "bool \<Rightarrow> nat \<Rightarrow> string option \<Rightarrow> string \<Rightarrow> string list" where
  "crt_words q n w [] = (if w = None \<and> n = 0 then [] else [so_far w @ replicate n BS])"
| "crt_words q n w (c # s) =
     (if c = BS then crt_words q (n + 1) w s
      else if c = CHR 0x22 then
        (if even n then crt_words (\<not> q) 0 (Some (so_far w @ replicate (n div 2) BS)) s
         else crt_words q 0 (Some (so_far w @ replicate (n div 2) BS @ [c])) s)
      else if c \<in> {CHR '' '', CHR 0x09} \<and> \<not> q then
        (if w = None \<and> n = 0 then crt_words False 0 None s else (so_far w @ replicate n BS) # crt_words False 0 None s)
      else crt_words q 0 (Some (so_far w @ replicate n BS @ [c])) s)"

lemma so_far_simps [simp]: "so_far None = []" "so_far (Some v) = v"
  by (simp_all add: so_far_def)

lemma crt_letters:
  "CHR 0x22 \<notin> set s \<Longrightarrow> q \<or> list_all (\<lambda>c. c \<notin> {CHR '' '', CHR 0x09}) s \<Longrightarrow> s \<noteq> [] \<Longrightarrow> last s \<noteq> BS \<Longrightarrow>
     crt_words q n w (s @ r) = crt_words q 0 (Some (so_far w @ replicate n BS @ s)) r"
proof (induction s arbitrary: n w)
  case (Cons c s)
  show ?case
  proof (cases "s = []")
    case False
    then show ?thesis using Cons.prems Cons.IH[of "n + 1" w] Cons.IH[of 0 "Some (so_far w @ replicate n BS @ [c])"]
      by (cases "c = BS") (auto simp: replicate_app_Cons_same)
  qed (use Cons.prems in auto)
qed simp

lemma crt_word_end:
  "CHR 0x22 \<notin> set s \<Longrightarrow> list_all (\<lambda>c. c \<notin> {CHR '' '', CHR 0x09}) s \<Longrightarrow> s \<noteq> [] \<or> w \<noteq> None \<or> n \<noteq> 0 \<Longrightarrow>
     crt_words False n w s = [so_far w @ replicate n BS @ s] \<and>
     crt_words False n w (s @ CHR '' '' # r) = (so_far w @ replicate n BS @ s) # crt_words False 0 None r"
proof (induction s arbitrary: n w)
  case (Cons c s)
  then show ?case using Cons.IH[of w "n + 1"] Cons.IH[of "Some (so_far w @ replicate n BS @ [c])" 0]
    by (cases "c = BS") (auto simp: replicate_app_Cons_same)
qed auto

text \<open>An argument that survives: not empty, without quotes, and not both quoted and ended by a backslash.\<close>

definition shim_arg_ok :: "string \<Rightarrow> bool" where
  "shim_arg_ok a \<longleftrightarrow> a \<noteq> [] \<and> CHR 0x22 \<notin> set a \<and> \<not> (list_ex (\<lambda>c. c \<in> set SHIM_QUOTED) a \<and> last a = BS)"

lemma crt_quoted:
  assumes "CHR 0x22 \<notin> set a" "a \<noteq> []" "last a \<noteq> BS"
  shows "crt_words False 0 None (CHR 0x22 # a @ [CHR 0x22]) = [a]"
    "crt_words False 0 None ((CHR 0x22 # a @ [CHR 0x22]) @ CHR '' '' # r) = a # crt_words False 0 None r"
  using crt_letters[of a True 0 "Some []" "[CHR 0x22]"] crt_letters[of a True 0 "Some []" "CHR 0x22 # CHR '' '' # r"] assms
  by simp_all

lemma crt_shim_quote:
  assumes "shim_arg_ok a"
  shows "crt_words False 0 None (shim_quote a) = [a]"
    "crt_words False 0 None (shim_quote a @ CHR '' '' # r) = a # crt_words False 0 None r"
proof -
  have "crt_words False 0 None (shim_quote a) = [a] \<and> crt_words False 0 None (shim_quote a @ CHR '' '' # r) = a # crt_words False 0 None r"
  proof (cases "list_ex (\<lambda>c. c \<in> set SHIM_QUOTED) a")
    case True
    then show ?thesis using crt_quoted[of a] assms by (simp add: shim_quote_def shim_arg_ok_def)
  next
    case False
    then have "list_all (\<lambda>c. c \<notin> {CHR '' '', CHR 0x09}) a" by (auto simp: list_ex_iff list_all_iff SHIM_QUOTED_def)
    then show ?thesis using crt_word_end[of a None 0 r] assms False by (simp add: shim_quote_def shim_arg_ok_def)
  qed
  then show "crt_words False 0 None (shim_quote a) = [a]"
    "crt_words False 0 None (shim_quote a @ CHR '' '' # r) = a # crt_words False 0 None r" by auto
qed

lemma crt_join: "list_all shim_arg_ok args \<Longrightarrow> crt_words False 0 None (py_join '' '' (map shim_quote args)) = args"
proof (induction args rule: induct_list012)
  case (3 x y zs)
  then show ?case using crt_shim_quote(2)[of x] by simp
qed (simp_all add: crt_shim_quote)

text \<open>
  A batch command gets the arguments of the call: what the runner puts between the outer quotes of \<^verbatim>\<open>cmd /c\<close> is read
  back as the program and exactly the arguments, if no argument is empty, has a quote, or is quoted and ends with a backslash.
\<close>

theorem shim_args_back:
  assumes "list_all shim_arg_ok args" "exe \<noteq> []" "CHR 0x22 \<notin> set exe" "last exe \<noteq> BS"
  shows "crt_words False 0 None (shim_inner exe args) = exe # args"
proof (cases args)
  case Nil
  then show ?thesis using crt_quoted(1)[of exe] assms by (simp add: shim_inner_def)
next
  case (Cons a as)
  then show ?thesis using crt_quoted(2)[of exe] crt_join[OF assms(1)] assms by (simp add: shim_inner_def)
qed

text \<open>The two cases that are left out do happen: an empty argument is lost, and a quoted one that ends with a backslash swallows the next.\<close>

lemma shim_args_merged:
  "crt_words False 0 None (shim_inner ''n.cmd'' [''a '' @ [BS], ''b'']) = [''n.cmd'', ''a '' @ [CHR 0x22] @ '' b'']"
  "crt_words False 0 None (shim_inner ''n.cmd'' [''a'', [], ''b'']) = [''n.cmd'', ''a'', ''b'']"
  by code_simp+

section \<open>A second start\<close>

definition demo_run_os :: run_os where
  "demo_run_os = \<lparr>ro_win = False, ro_isabs = (\<lambda>_. False), ro_exists = (\<lambda>_. False), ro_which = (\<lambda>_. None), ro_shown = (\<lambda>l. [l]),
     ro_repr = (\<lambda>_. []), ro_decode = (\<lambda>s. s), ro_sha = (\<lambda>_. ''0''), ro_audit = (\<lambda>_. (\<lparr>io_rename = True, io_unlink = True, io_append = True,
     io_chain = True\<rparr>, ''now'')), ro_os = demo_os\<rparr>"

definition demo_ctx :: run_ctx where
  "demo_ctx = \<lparr>rx_cwd = ''/srv/app'', rx_run_dir = ''/tmp/rdm-runner'', rx_profile = ''app'', rx_timeout = 900\<rparr>"

definition dev_spec :: spec where
  "dev_spec = [(''name'', JStr ''dev''), (''cmd'', JArr [JStr ''vite'']), (''background'', JBool True)]"

definition demo_runner :: runner where
  "demo_runner = \<lparr>rs_host = \<lparr>hs_procs = [], hs_files = [], hs_spawns = [Some (5, ''1.5'', []), Some (6, ''2.5'', [])], hs_spawned = [],
     hs_killed = []\<rparr>, rs_audit = \<lparr>au_log = None, au_chain = None, au_rotated = None\<rparr>, rs_bg = []\<rparr>"

definition dev_start :: "runner \<Rightarrow> runner" where
  "dev_start s = snd (run_tool demo_run_os demo_ctx ''dev'' dev_spec 900 \<lparr>fo_code = None, fo_out = [], fo_err = []\<rparr> [] s)"

lemma dev_start_host:
  assumes "hs_spawns (rs_host s) = Some (pid, tm, []) # rest"
  shows "rs_host (dev_start s) =
    (let p = \<lparr>pr_argv = [''vite''], pr_time = tm, pr_env = child_env (oe_environ demo_os) [], pr_ports = []\<rparr> in
     (rs_host s)\<lparr>hs_spawns := rest, hs_procs := dset pid p (hs_procs (rs_host s)), hs_spawned := hs_spawned (rs_host s) @ [(pid, p)],
       hs_files := dset (pid_file demo_ctx ''dev'') (nat_str pid @ ''|'' @ tm @ ''|vite'') (hs_files (rs_host s))\<rparr>)"
proof -
  have b: "build_argv (ro_repr demo_run_os) (ro_win demo_run_os) dev_spec [] = Inr [''vite'']"
    "resolve demo_run_os (rx_cwd demo_ctx) [''vite''] = Inr [''vite'']" "spec_env dev_spec = Some []"
    "truthy (obj_get dev_spec ''background'')" by code_simp+
  show ?thesis
    using assms by (simp add: dev_start_def run_tool_def check_args_def b rbind_def Let_def run_background_def popen_def spawn_def
        create_time_def bg_marker_def) (simp add: demo_run_os_def)
qed

text \<open>
  Starting a background command that is still running loses it: the second start overwrites the pid file, so the kill
  tool ends the second process, a further kill finds no pid file, and the first process runs on.
\<close>

theorem second_start_orphans:
  "let s = dev_start (dev_start demo_runner); s1 = snd (run_kill demo_run_os demo_ctx ''dev'' s) in
   map fst (hs_procs (rs_host s)) = [5, 6] \<and> map fst (hs_killed (rs_host s1)) = [6] \<and> map fst (hs_procs (rs_host s1)) = [5] \<and>
   run_kill demo_run_os demo_ctx ''dev'' s1 = (JObj [(''killed'', JBool False), (''reason'', JStr ''no pidfile'')], s1)"
proof -
  let ?s = "dev_start (dev_start demo_runner)"
  let ?p = "\<lambda>tm. \<lparr>pr_argv = [''vite''], pr_time = tm, pr_env = child_env (oe_environ demo_os) [], pr_ports = []\<rparr>"
  have h1: "hs_spawns (rs_host demo_runner) = Some (5, ''1.5'', []) # [Some (6, ''2.5'', [])]" by (simp add: demo_runner_def)
  have h2: "hs_spawns (rs_host (dev_start demo_runner)) = Some (6, ''2.5'', []) # []"
    unfolding dev_start_host[OF h1] Let_def by simp
  have procs: "hs_procs (rs_host ?s) = [(5, ?p ''1.5''), (6, ?p ''2.5'')]" and killed: "hs_killed (rs_host ?s) = []"
    and pf: "dget (hs_files (rs_host ?s)) (pid_file demo_ctx ''dev'') = Some (nat_str 6 @ ''|2.5|vite'')"
    unfolding dev_start_host[OF h2] Let_def by (simp_all add: dev_start_host[OF h1] Let_def) (simp_all add: demo_runner_def)
  have parse: "parse_pid_file (oe_float demo_os) (nat_str 6 @ ''|2.5|vite'') = Some (6, Some ''2.5'', ''vite'')"
    by code_simp
  have own: "owned (rs_host ?s) 6 (Some ''2.5'') ''vite''" by (simp add: owned_def create_time_def procs)
  have tree: "oe_tree demo_os 6 = []" by (simp add: demo_os_def)
  have os: "ro_os demo_run_os = demo_os" by (simp add: demo_run_os_def)
  have k: "rs_host (snd (run_kill demo_run_os demo_ctx ''dev'' ?s)) =
     (let h = kill_tree demo_os 6 (rs_host ?s) in h\<lparr>hs_files := ddel (pid_file demo_ctx ''dev'') (hs_files h)\<rparr>)"
    using own by (simp add: run_kill_def pf os parse Let_def)
  have "map fst (hs_killed (rs_host (snd (run_kill demo_run_os demo_ctx ''dev'' ?s)))) = [6]"
    "map fst (hs_procs (rs_host (snd (run_kill demo_run_os demo_ctx ''dev'' ?s)))) = [5]"
    unfolding k by (simp_all add: kill_tree_def procs killed tree)
  moreover have "dget (hs_files (rs_host (snd (run_kill demo_run_os demo_ctx ''dev'' ?s)))) (pid_file demo_ctx ''dev'') = None"
    unfolding k by (simp add: Let_def)
  ultimately show ?thesis by (simp add: Let_def procs run_kill_def[of _ _ _ "snd _"])
qed

end
