(* ===== verification/Watchdog.thy ===== *)
theory Watchdog
  imports Procman
begin

text \<open>
  The watchdog loop (\<^verbatim>\<open>home/rdm/watchdog.py\<close>): one turn over what the probes give, with the effects it
  performs in order up to the first that raises, and the guard against a second instance. The
  clock is in milliseconds. A turn in which the log itself cannot be written ends the program and is not modelled.
\<close>

section \<open>One instance\<close>

text \<open>\<open>me\<close> and \<open>parent\<close> are the pids of the process and of its launcher.\<close>

definition acquire_single :: "os_env \<Rightarrow> nat \<Rightarrow> nat \<Rightarrow> host \<Rightarrow> bool \<times> host" where
  "acquire_single e me parent h =
     (if list_ex (\<lambda>(pid, recorded, marker). pid \<notin> {me, parent} \<and> owned h pid recorded marker)
           (read_entries e (watchdog_pids_path e) h) then (False, h)
      else (True, write_entries (watchdog_pids_path e) [(me, create_time h me, WATCHDOG_MARKER)] h))"

definition release_single :: "os_env \<Rightarrow> nat \<Rightarrow> host \<Rightarrow> host" where
  "release_single e me h =
     (let es = read_entries e (watchdog_pids_path e) h in
      if es \<noteq> [] \<and> list_all (\<lambda>(pid, _). pid = me) es then remove_file (watchdog_pids_path e) h else h)"

text \<open>\<open>services\<close>: the host services of the active profile with the runner, \<^const>\<open>None\<close> when it is not found.\<close>

definition services_stale :: "os_env \<Rightarrow> string \<Rightarrow> host_service list option \<Rightarrow> host \<Rightarrow> bool" where
  "services_stale e pname services h =
     (if host_services_dead e pname h then True
      else if host_services_recorded e pname h then False
      else case services of None \<Rightarrow> False | Some ss \<Rightarrow> ss \<noteq> [])"

section \<open>A turn\<close>

datatype wd_effect = LogLine string | StopIngress | StartIngress | RefreshManifest | RecreateIngress
  | RestartServices | StartGateway | StopGateway | ReadStates | RecreateToolbox | CreateToolbox

record watch =
  wd_fails :: nat
  wd_toolbox :: string
  wd_unhealthy :: nat
  wd_last :: int

definition new_watch :: watch where
  "new_watch = \<lparr>wd_fails = 0, wd_toolbox = [], wd_unhealthy = 0, wd_last = 0\<rparr>"

text \<open>
  What a turn meets: whether the ingress answers, whether a command is under way, the status of the probe
  (0 without an address), the state of the services, whether the profile exists and exposes servers,
  the states of the containers, the clock before and after a recreation, and which effects raise.
\<close>

record turn =
  tn_connect :: bool
  tn_busy :: bool
  tn_code :: int
  tn_stale :: bool
  tn_profile :: bool
  tn_exposed :: bool
  tn_ps :: string
  tn_now :: int
  tn_after :: int
  tn_raises :: "wd_effect \<Rightarrow> bool"

fun perform :: "(wd_effect \<Rightarrow> bool) \<Rightarrow> wd_effect list \<Rightarrow> wd_effect list \<times> bool" where
  "perform raises [] = ([], True)"
| "perform raises (x # xs) = (if raises x then ([], False) else apfst ((#) x) (perform raises xs))"

type_synonym part = "watch \<times> wd_effect list \<times> bool"

definition ingress_part :: "turn \<Rightarrow> watch \<Rightarrow> part" where
  "ingress_part t w =
     (if tn_connect t then (w, [], True)
      else if tn_busy t then (w, perform (tn_raises t) [LogLine ''ingress proxy dead: cli action in flight, skip restart''])
      else (case perform (tn_raises t) [LogLine ''ingress proxy dead: restart'', StopIngress, StartIngress, RefreshManifest] of
        (fx, ok) \<Rightarrow> (if ok then w\<lparr>wd_fails := 0\<rparr> else w, fx, ok)))"

definition RECREATE_FAILS :: nat where
  "RECREATE_FAILS = 3"

definition tunnel_part :: "turn \<Rightarrow> watch \<Rightarrow> part" where
  "tunnel_part t w =
     (let w1 = w\<lparr>wd_fails := (if tn_code t \<noteq> 200 then wd_fails w + 1 else 0)\<rparr> in
      if wd_fails w1 < RECREATE_FAILS then (w1, [], True)
      else (case perform (tn_raises t) [LogLine ''tunnel flap: recreate ingress'', RecreateIngress, RefreshManifest] of
        (fx, ok) \<Rightarrow> (if ok then w1\<lparr>wd_fails := 0\<rparr> else w1, fx, ok)))"

definition services_part :: "turn \<Rightarrow> watch \<Rightarrow> part" where
  "services_part t w =
     (if \<not> tn_stale t then (w, [], True)
      else if tn_busy t then (w, perform (tn_raises t) [LogLine ''host services dead: cli action in flight, skip restart''])
      else (w, perform (tn_raises t) (LogLine ''host services dead: restart'' #
        (if tn_profile t then [RestartServices, if tn_exposed t then StartGateway else StopGateway] else []))))"

definition UNHEALTHY_RUNS :: nat where
  "UNHEALTHY_RUNS = 3"

definition COOLDOWN_MS :: int where
  "COOLDOWN_MS = 120000"

definition toolbox_state :: "string \<Rightarrow> string" where
  "toolbox_state ps =
     (if contains_sub ''unhealthy'' ps then ''unhealthy'' else if \<not> contains_sub ''toolbox'' ps then ''missing'' else ''ok'')"

text \<open>What is done in a state, after the change of state was logged.\<close>

definition toolbox_action :: "turn \<Rightarrow> string \<Rightarrow> watch \<Rightarrow> part" where
  "toolbox_action t now w =
     (if now = ''unhealthy'' then
        let w1 = w\<lparr>wd_unhealthy := wd_unhealthy w + 1\<rparr> in
        if UNHEALTHY_RUNS \<le> wd_unhealthy w1 \<and> COOLDOWN_MS < tn_now t - wd_last w1 then
          (case perform (tn_raises t) [LogLine ''toolbox unhealthy: recreate'', RecreateToolbox] of
             (fx, ok) \<Rightarrow> (if ok then w1\<lparr>wd_unhealthy := 0, wd_last := tn_after t\<rparr> else w1, fx, ok))
        else (w1, [], True)
      else if now = ''missing'' then (w, perform (tn_raises t) [CreateToolbox])
      else (w\<lparr>wd_unhealthy := 0\<rparr>, [], True))"

definition chain_part :: "(watch \<Rightarrow> part) \<Rightarrow> part \<Rightarrow> part" where
  "chain_part f p = (case p of (w, fx, ok) \<Rightarrow>
     if \<not> ok then p else case f w of (w1, fy, ok1) \<Rightarrow> (w1, fx @ fy, ok1))"

definition toolbox_part :: "turn \<Rightarrow> watch \<Rightarrow> part" where
  "toolbox_part t w =
     (let now = toolbox_state (tn_ps t);
          changed = (now \<noteq> wd_toolbox w) in
      chain_part (toolbox_action t now)
        (case perform (tn_raises t) (ReadStates # (if changed then [LogLine (''toolbox state: '' @ now)] else [])) of
           (fx, ok) \<Rightarrow> (if ok then w\<lparr>wd_toolbox := now\<rparr> else w, fx, ok)))"

definition watch_turn :: "turn \<Rightarrow> watch \<Rightarrow> part" where
  "watch_turn t w =
     chain_part (toolbox_part t) (chain_part (services_part t) (chain_part (tunnel_part t) (ingress_part t w)))"

fun watch_run :: "turn list \<Rightarrow> watch \<Rightarrow> watch \<times> wd_effect list" where
  "watch_run [] w = (w, [])"
| "watch_run (t # ts) w =
     (case watch_turn t w of (w1, fx, _) \<Rightarrow> apsnd ((@) fx) (watch_run ts w1))"

section \<open>Properties\<close>

lemma chain_part_fails: "(\<And>w. wd_fails (fst (f w)) = wd_fails w) \<Longrightarrow> wd_fails (fst (chain_part f p)) = wd_fails (fst p)"
  by (simp add: chain_part_def split: prod.split) (metis fst_conv)

lemma services_part_same [simp]: "fst (services_part t w) = w"
  by (simp add: services_part_def)

lemma toolbox_fails [simp]: "wd_fails (fst (toolbox_part t w)) = wd_fails w"
proof -
  have "wd_fails (fst (toolbox_action t now v)) = wd_fails v" for now v
    by (simp add: toolbox_action_def Let_def split: prod.split)
  from chain_part_fails[of "toolbox_action t (toolbox_state (tn_ps t))", OF this]
  show ?thesis by (simp add: toolbox_part_def Let_def split: prod.split)
qed

definition recreations :: "wd_effect list \<Rightarrow> nat" where
  "recreations fx = length (filter (\<lambda>x. x = RecreateIngress) fx)"

lemma recreations_simps [simp]:
  "recreations [] = 0" "recreations (x # fx) = (if x = RecreateIngress then 1 else 0) + recreations fx"
  "recreations (fx @ fy) = recreations fx + recreations fy"
  by (simp_all add: recreations_def)

lemma perform_recreations: "RecreateIngress \<notin> set xs \<Longrightarrow> recreations (fst (perform r xs)) = 0"
  by (induction xs) auto

lemma no_recreations [simp]:
  "recreations (fst (snd (services_part t w))) = 0" "recreations (fst (snd (toolbox_part t w))) = 0"
proof -
  show "recreations (fst (snd (services_part t w))) = 0" by (simp add: services_part_def perform_recreations)
  have "recreations (fst (snd (toolbox_action t now v))) = 0" for now v
    using perform_recreations[of "[LogLine ''toolbox unhealthy: recreate'', RecreateToolbox]" "tn_raises t"]
      perform_recreations[of "[CreateToolbox]" "tn_raises t"]
    by (auto simp: toolbox_action_def Let_def split: prod.split)
  then show "recreations (fst (snd (toolbox_part t w))) = 0"
    using perform_recreations[of "ReadStates # (if toolbox_state (tn_ps t) \<noteq> wd_toolbox w then
      [LogLine (''toolbox state: '' @ toolbox_state (tn_ps t))] else [])" "tn_raises t"]
    by (auto simp: toolbox_part_def chain_part_def Let_def split: prod.split) (metis fst_conv snd_conv)+
qed

lemma services_result: "\<exists>s b. services_part t w = (w, s, b) \<and> recreations s = 0"
  using services_part_same[of t w] no_recreations(1)[of t w] by (cases "services_part t w") auto

lemma toolbox_result: "\<exists>v x c. toolbox_part t w = (v, x, c) \<and> wd_fails v = wd_fails w \<and> recreations x = 0"
  using toolbox_fails[of t w] no_recreations(2)[of t w] by (cases "toolbox_part t w") auto

lemma chain_part_pair: "f w = (v, s, b) \<Longrightarrow> chain_part f (w, fx, True) = (v, fx @ s, b)"
  by (simp add: chain_part_def)

lemma chain_part_stop: "chain_part f (w, fx, False) = (w, fx, False)"
  by (simp add: chain_part_def)

text \<open>A turn in which the ingress answers, the probe fails and the recreation of the tunnel can be done.\<close>

definition failing :: "turn \<Rightarrow> bool" where
  "failing t \<longleftrightarrow> tn_connect t \<and> tn_code t \<noteq> 200 \<and>
     \<not> list_ex (tn_raises t) [LogLine ''tunnel flap: recreate ingress'', RecreateIngress, RefreshManifest]"

lemma failing_turn:
  assumes "failing t" "watch_turn t w = (w1, fx, ok)"
  shows "wd_fails w1 = (if wd_fails w + 1 < 3 then wd_fails w + 1 else 0)"
    "recreations fx = (if wd_fails w + 1 < 3 then 0 else 1)"
proof -
  let ?w = "w\<lparr>wd_fails := (if wd_fails w + 1 < 3 then wd_fails w + 1 else 0)\<rparr>"
  let ?fx = "if wd_fails w + 1 < 3 then [] else [LogLine ''tunnel flap: recreate ingress'', RecreateIngress, RefreshManifest]"
  have t: "chain_part (tunnel_part t) (ingress_part t w) = (?w, ?fx, True)"
    using assms(1) by (simp add: failing_def ingress_part_def tunnel_part_def chain_part_def RECREATE_FAILS_def Let_def)
  obtain s b where s: "services_part t ?w = (?w, s, b)" "recreations s = 0" using services_result by blast
  obtain v x c where v: "toolbox_part t ?w = (v, x, c)" "wd_fails v = wd_fails ?w" "recreations x = 0"
    using toolbox_result by blast
  have "(w1, fx, ok) = (if b then (v, (?fx @ s) @ x, c) else (?w, ?fx @ s, b))"
    using assms(2) unfolding watch_turn_def t chain_part_pair[where f = "services_part t", OF s(1)]
    by (cases b) (simp_all only: chain_part_pair[where f = "toolbox_part t", OF v(1)] chain_part_stop if_True if_False)
  then show "wd_fails w1 = (if wd_fails w + 1 < 3 then wd_fails w + 1 else 0)"
    "recreations fx = (if wd_fails w + 1 < 3 then 0 else 1)"
    using s(2) v(2,3) by (auto split: if_splits)
qed

text \<open>
  A tunnel that stays down is recreated at every third failing probe and not more often: over any run of
  turns whose probe fails, whatever else they meet, the recreations are a third of the failures counted.
\<close>

theorem tunnel_recreated_every_third:
  assumes "list_all failing ts" "wd_fails w < 3"
  shows "recreations (snd (watch_run ts w)) = (wd_fails w + length ts) div 3"
  using assms
proof (induction ts arbitrary: w)
  case (Cons t ts)
  obtain w1 fx ok where t: "watch_turn t w = (w1, fx, ok)" by (cases "watch_turn t w") auto
  note ft = failing_turn[OF _ t]
  have f: "failing t" "list_all failing ts" using Cons.prems by auto
  have w1: "wd_fails w1 < 3" using ft(1)[OF f(1)] by simp
  obtain v gx where r: "watch_run ts w1 = (v, gx)" by (cases "watch_run ts w1") auto
  have "recreations (snd (watch_run (t # ts) w)) = recreations fx + recreations gx" by (simp add: t r)
  moreover have "recreations gx = (wd_fails w1 + length ts) div 3" using Cons.IH[OF f(2) w1] by (simp add: r)
  moreover have "wd_fails w = 2 \<or> wd_fails w + 1 < 3" using Cons.prems(2) by linarith
  ultimately show ?case using ft[OF f(1)] by auto
qed simp

section \<open>The toolbox\<close>

text \<open>A part leaves the two fields of the toolbox alone and recreates nothing.\<close>

definition toolbox_idle :: "watch \<Rightarrow> part \<Rightarrow> bool" where
  "toolbox_idle w p \<longleftrightarrow> (case p of (v, fx, _) \<Rightarrow>
     wd_last v = wd_last w \<and> wd_unhealthy v = wd_unhealthy w \<and> RecreateToolbox \<notin> set fx)"

lemma perform_subset: "set (fst (perform r xs)) \<subseteq> set xs"
  by (induction xs) auto

lemma perform_absent: "perform r xs = (fx, ok) \<Longrightarrow> x \<notin> set xs \<Longrightarrow> x \<notin> set fx"
  using perform_subset[of r xs] by auto

lemma perform_all: "perform r xs = (fx, True) \<Longrightarrow> fx = xs"
proof (induction xs arbitrary: fx)
  case (Cons x xs)
  then show ?case by (cases "perform r xs") (auto split: if_splits)
qed simp

lemma ingress_idle: "toolbox_idle w (ingress_part t w)"
  by (auto simp: toolbox_idle_def ingress_part_def split: prod.split dest: perform_absent)

lemma tunnel_idle: "toolbox_idle w (tunnel_part t w)"
  by (auto simp: toolbox_idle_def tunnel_part_def Let_def split: prod.split dest: perform_absent)

lemma services_idle: "toolbox_idle w (services_part t w)"
  by (auto simp: toolbox_idle_def services_part_def split: prod.split if_splits dest: perform_absent)

lemma chain_idle: "toolbox_idle w p \<Longrightarrow> (\<And>v. toolbox_idle v (f v)) \<Longrightarrow> toolbox_idle w (chain_part f p)"
  by (fastforce simp: toolbox_idle_def chain_part_def split: prod.splits)

lemma perform_member: "perform r xs = (fx, ok) \<Longrightarrow> x \<in> set fx \<Longrightarrow> x \<in> set xs"
  using perform_subset[of r xs] by auto

text \<open>A turn that recreates the toolbox sets the clock, and it needs the clock to have advanced.\<close>

definition toolbox_spaced :: "turn \<Rightarrow> watch \<Rightarrow> part \<Rightarrow> bool" where
  "toolbox_spaced t w p \<longleftrightarrow> (case p of (v, fx, _) \<Rightarrow>
     wd_last v = (if RecreateToolbox \<in> set fx then tn_after t else wd_last w) \<and>
     (RecreateToolbox \<in> set fx \<longrightarrow> COOLDOWN_MS < tn_now t - wd_last w))"

lemma perform_two: "perform r [x, y] = (if r x then ([], False) else if r y then ([x], False) else ([x, y], True))"
  by simp

lemma action_spaced: "toolbox_spaced t w (toolbox_action t now w)"
  by (auto simp: toolbox_spaced_def toolbox_action_def Let_def)

lemma toolbox_part_spaced: "toolbox_spaced t w (toolbox_part t w)"
proof -
  let ?now = "toolbox_state (tn_ps t)"
  obtain fx ok where p: "perform (tn_raises t) (ReadStates # (if ?now \<noteq> wd_toolbox w then
      [LogLine (''toolbox state: '' @ ?now)] else [])) = (fx, ok)" by (rule prod.exhaust)
  have fx: "RecreateToolbox \<notin> set fx" using perform_member[OF p, of RecreateToolbox] by (auto split: if_splits)
  show ?thesis
    using action_spaced[of t "w\<lparr>wd_toolbox := ?now\<rparr>" ?now] fx
    by (cases "toolbox_action t ?now (w\<lparr>wd_toolbox := ?now\<rparr>)")
      (auto simp: toolbox_part_def Let_def p toolbox_spaced_def chain_part_def)
qed

lemma turn_spaced: "toolbox_spaced t w (watch_turn t w)"
proof -
  have "toolbox_idle w (chain_part (services_part t) (chain_part (tunnel_part t) (ingress_part t w)))"
    by (intro chain_idle ingress_idle tunnel_idle services_idle)
  then show ?thesis
    using toolbox_part_spaced[of t "fst (chain_part (services_part t) (chain_part (tunnel_part t) (ingress_part t w)))"]
    unfolding watch_turn_def
    by (cases "chain_part (services_part t) (chain_part (tunnel_part t) (ingress_part t w))")
      (auto simp: toolbox_spaced_def toolbox_idle_def chain_part_def[where f = "toolbox_part t"] split: prod.splits)
qed

text \<open>The times at which the turns of a run recreate the toolbox: the clock read before and the one read after.\<close>

fun recreate_times :: "turn list \<Rightarrow> watch \<Rightarrow> (int \<times> int) list" where
  "recreate_times [] w = []"
| "recreate_times (t # ts) w =
     (case watch_turn t w of (w1, fx, _) \<Rightarrow>
        (if RecreateToolbox \<in> set fx then [(tn_now t, tn_after t)] else []) @ recreate_times ts w1)"

fun spaced :: "int \<Rightarrow> (int \<times> int) list \<Rightarrow> bool" where
  "spaced t0 [] \<longleftrightarrow> True"
| "spaced t0 ((a, b) # xs) \<longleftrightarrow> COOLDOWN_MS < a - t0 \<and> spaced b xs"

text \<open>
  An unhealthy toolbox is never recreated twice within the cooldown: in every run of turns, from
  any state and whatever fails, each recreation begins more than 120 s after the end of the one before it.
\<close>

theorem toolbox_cooldown: "spaced (wd_last w) (recreate_times ts w)"
proof (induction ts arbitrary: w)
  case (Cons t ts)
  obtain w1 fx ok where t: "watch_turn t w = (w1, fx, ok)" by (rule prod_cases3)
  show ?case using turn_spaced[of t w] Cons.IH[of w1] by (auto simp: t toolbox_spaced_def)
qed simp

end
