(* ===== verification/Cli.thy ===== *)
theory Cli
  imports Render Runner Watchdog
begin

text \<open>
  The commands of the host side (\<^verbatim>\<open>home/rdm/cli.py\<close>) over one state: the \<^verbatim>\<open>.env\<close> file, the profile files
  and the files that are written for the other parts, the process table, the variables of the process and the docker
  commands issued. A command gives its exit code, or \<^const>\<open>None\<close> for an exception, and the state it leaves.
  What docker answers, the address of the tunnel, the directories and \<^verbatim>\<open>md5\<close> are parameters. What is printed,
  the clean-up of logs and the browser are left out.
\<close>

section \<open>The state\<close>

type_synonym docker_call = "string list \<times> string option"

record cli_os =
  co_os :: os_env
  co_dirs :: "string list"
  co_home :: string
  co_exists :: "string \<Rightarrow> bool"
  co_isdir :: "string \<Rightarrow> bool"
  co_glob :: "string \<Rightarrow> string list option"
  co_md5 :: "string \<Rightarrow> string"
  co_url :: "(string, string) dict \<Rightarrow> string"
  co_docker :: "docker_call list \<Rightarrow> docker_call \<Rightarrow> int"
  co_texts :: "string \<times> string"

record world =
  w_env :: "string option"
  w_files :: "(string, string) dict"
  w_host :: host
  w_environ :: "(string, string) dict"
  w_docker :: "docker_call list"

text \<open>Running one step after another; an exception ends the command.\<close>

type_synonym 'a act = "world \<Rightarrow> 'a option \<times> world"

definition ret :: "'a \<Rightarrow> 'a act" where
  "ret x w = (Some x, w)"

definition andthen :: "'a act \<Rightarrow> ('a \<Rightarrow> 'b act) \<Rightarrow> 'b act" where
  "andthen m k w = (case m w of (None, w1) \<Rightarrow> (None, w1) | (Some x, w1) \<Rightarrow> k x w1)"

definition modify :: "(world \<Rightarrow> world) \<Rightarrow> unit act" where
  "modify f w = (Some (), f w)"

definition os_of :: "cli_os \<Rightarrow> world \<Rightarrow> os_env" where
  "os_of c w = (co_os c)\<lparr>oe_environ := w_environ w\<rparr>"

text \<open>An operation on the processes that may raise, and one that cannot.\<close>

definition on_host :: "cli_os \<Rightarrow> (os_env \<Rightarrow> host \<Rightarrow> 'a option \<times> host) \<Rightarrow> 'a act" where
  "on_host c f w = (case f (os_of c w) (w_host w) of (r, h) \<Rightarrow> (r, w\<lparr>w_host := h\<rparr>))"

definition stops :: "cli_os \<Rightarrow> (os_env \<Rightarrow> host \<Rightarrow> host) \<Rightarrow> unit act" where
  "stops c f w = (Some (), w\<lparr>w_host := f (os_of c w) (w_host w)\<rparr>)"

definition docker :: "cli_os \<Rightarrow> string list \<Rightarrow> string option \<Rightarrow> int act" where
  "docker c args input w = (Some (co_docker c (w_docker w) (args, input)), w\<lparr>w_docker := w_docker w @ [(args, input)]\<rparr>)"

definition write_file :: "string \<Rightarrow> string \<Rightarrow> unit act" where
  "write_file path t = modify (\<lambda>w. w\<lparr>w_files := dset path t (w_files w)\<rparr>)"

definition write_env :: "env_file \<Rightarrow> unit act" where
  "write_env e = modify (\<lambda>w. w\<lparr>w_env := Some (ef_render e)\<rparr>)"

definition log_root :: "cli_os \<Rightarrow> string" where
  "log_root c = path_join (oe_tempdir (co_os c)) ''rdm-host''"

definition manifest_path :: "cli_os \<Rightarrow> string" where
  "manifest_path c = path_join (log_root c) ''rdm-manifest.json''"

definition override_file :: "cli_os \<Rightarrow> string" where
  "override_file c = path_join (co_home c) ''docker-compose.override.yml''"

definition find_path :: "cli_os \<Rightarrow> world \<Rightarrow> string \<Rightarrow> string option" where
  "find_path c w name = find_profile (has_key (w_files w)) (co_dirs c) name"

definition load_path :: "world \<Rightarrow> string \<Rightarrow> profile_error + profile" where
  "load_path w path = load_profile (dget_or (w_files w) path [])"

section \<open>The active profile\<close>

definition load_active_profile :: "cli_os \<Rightarrow> (string, string) dict \<Rightarrow> world \<Rightarrow> profile option" where
  "load_active_profile c env_map w =
     (let name = dget_or env_map ''ACTIVE_PROFILE'' [] in
      case (if name = [] then None else find_path c w name) of
        None \<Rightarrow> None
      | Some path \<Rightarrow> (case load_path w path of Inl _ \<Rightarrow> None | Inr p \<Rightarrow> Some p))"

definition runner_port_of :: "cli_os \<Rightarrow> (string, string) dict \<Rightarrow> world \<Rightarrow> int option" where
  "runner_port_of c env_map w =
     (case load_active_profile c env_map w of None \<Rightarrow> None | Some p \<Rightarrow> pol_runner_port (compute_port_policy p))"

definition self_authed_of :: "cli_os \<Rightarrow> (string, string) dict \<Rightarrow> world \<Rightarrow> int list" where
  "self_authed_of c env_map w =
     (case load_active_profile c env_map w of
        None \<Rightarrow> [] | Some p \<Rightarrow> filter (\<lambda>q. q \<noteq> BRIDGE_PORT) (self_authed (compute_port_policy p)))"

definition active_gateway_port :: "cli_os \<Rightarrow> (string, string) dict \<Rightarrow> world \<Rightarrow> int option" where
  "active_gateway_port c env_map w =
     (case load_active_profile c env_map w of None \<Rightarrow> None | Some p \<Rightarrow> gateway_port_for p)"

section \<open>What is written for the other parts\<close>

definition opt_json :: "int option \<Rightarrow> json" where
  "opt_json o' = (case o' of None \<Rightarrow> JNull | Some i \<Rightarrow> JInt i)"

definition runner_json :: "runner_command \<Rightarrow> json" where
  "runner_json c =
     JObj [(''name'', JStr (rc_name c)), (''cmd'', JArr (map JStr (rc_cmd c))), (''description'', JStr (rc_description c)),
       (''args'', JObj (fold (\<lambda>(n, a). dset n (JObj [(''type'', JStr (as_type a)), (''position'', JStr (as_position a))])) (rc_args c) [])),
       (''background'', JBool (rc_background c)), (''port'', opt_json (rc_port c)), (''timeout'', opt_json (rc_timeout c))]"

definition runner_script_json :: "script \<Rightarrow> json" where
  "runner_script_json s = JObj [(''name'', JStr (sp_name s)), (''cmd'', JArr (map JStr (sp_cmd s))), (''description'', JStr (sp_description s))]"

definition runner_config :: "profile \<Rightarrow> string \<Rightarrow> json" where
  "runner_config p name =
     JObj [(''profile'', JStr name), (''cwd'', JStr (project_dir p)), (''commands'', JArr (map runner_json (runner_commands p))),
       (''scripts'', JArr (map runner_script_json (scripts p)))]"

definition runner_config_path :: "cli_os \<Rightarrow> string \<Rightarrow> string" where
  "runner_config_path c name = path_join (log_root c) (''runner-'' @ name @ ''.json'')"

definition with_runner :: "cli_os \<Rightarrow> profile \<Rightarrow> string \<Rightarrow> profile act" where
  "with_runner c p name w =
     (if runner_commands p = [] then (Some p, w\<lparr>w_environ := ddel ''RUNNER_CONFIG'' (w_environ w)\<rparr>)
      else (Some (with_runner_service (oe_runtime (co_os c)) p),
            w\<lparr>w_files := dset (runner_config_path c name) (dumps (fmt_default False) (runner_config p name)) (w_files w),
              w_environ := dset ''RUNNER_CONFIG'' (runner_config_path c name) (w_environ w)\<rparr>))"

definition write_manifest :: "cli_os \<Rightarrow> profile \<Rightarrow> string \<Rightarrow> (string, string) dict \<Rightarrow> unit act" where
  "write_manifest c p name env_map =
     (let p' = with_runner_service (oe_runtime (co_os c)) p in
      write_file (manifest_path c) (dumps (fmt_indent2 False) (build_manifest p' name (co_url c env_map) (mode p'))))"

definition refresh_manifest :: "cli_os \<Rightarrow> unit act" where
  "refresh_manifest c w =
     (let env_map = ef_as_map (ef_load (w_env w)) in
      case load_active_profile c env_map w of
        None \<Rightarrow> (Some (), w)
      | Some p \<Rightarrow> write_manifest c p (dget_or env_map ''ACTIVE_PROFILE'' []) env_map w)"

definition slashes :: "string \<Rightarrow> string" where
  "slashes s = map (\<lambda>ch. if ch = BS then CHR ''/'' else ch) s"

definition sh_run :: "string \<Rightarrow> string \<Rightarrow> string list" where
  "sh_run volume script = [''run'', ''--rm'', ''-i'', ''-v'', volume, ''alpine'', ''sh'', ''-c'', script]"

definition emit_agent_artifacts :: "cli_os \<Rightarrow> profile \<Rightarrow> string \<Rightarrow> string \<Rightarrow> bool act" where
  "emit_agent_artifacts c p name allowed_text =
     andthen (if toolchain p = [] then ret 0
              else docker c (sh_run ''rdm-tools:/opt/tools'' (''mkdir -p /opt/tools/refs && cat > /opt/tools/refs/'' @ name @ ''.list''))
                     (Some (toolchain p @ [CHR 0x0A])))
       (\<lambda>rc. if rc \<noteq> 0 then ret False else
          let agents = render_agents_md (fst (co_texts c)) (snd (co_texts c)) p name (toolchain p) (mode p) allowed_text
                (Some (available (co_glob c) (co_dirs c))) in
          andthen (docker c (sh_run ''rdm-agent:/agent'' ''cat > /agent/AGENTS.md'') (Some agents))
            (\<lambda>rc. if rc \<noteq> 0 then ret False else
               andthen (docker c (sh_run (slashes (project_dir p) @ '':/workspace'')
                   ''mkdir -p /workspace/.devbox && cat > /workspace/.devbox/AGENTS.md'') (Some agents)) (\<lambda>_. ret True)))"

definition gitleaks_argv :: "cli_os \<Rightarrow> profile \<Rightarrow> string \<Rightarrow> string list" where
  "gitleaks_argv c p name =
     [''docker'', ''run'', ''--rm'', ''-v'', slashes (project_dir p) @ '':/src:ro'',
      ''-v'', slashes (path_join (path_join (co_home c) ''docker'') ''gitleaks.toml'') @ '':/cfg.toml:ro'',
      ''-v'', slashes (log_root c) @ '':/out'', ''zricethezav/gitleaks'', ''detect'', ''--source'', ''/src'', ''--no-git'',
      ''--config'', ''/cfg.toml'', ''--report-format'', ''json'',
      ''--report-path'', ''/out/gitleaks-'' @ name @ ''.json'', ''--exit-code'', ''0'']"

definition start_gitleaks :: "cli_os \<Rightarrow> profile \<Rightarrow> string \<Rightarrow> unit act" where
  "start_gitleaks c p name w =
     (if dget_or (w_environ w) ''SKIP_GITLEAKS'' [] \<noteq> [] then (Some (), w)
      else (Some (), w\<lparr>w_host := snd (spawn (os_of c w) (gitleaks_argv c p name) (w_environ w) (w_host w))\<rparr>))"

section \<open>Applying a profile\<close>

definition name_ok :: "string \<Rightarrow> bool" where
  "name_ok name \<longleftrightarrow> name \<noteq> [] \<and> list_all (\<lambda>ch. is_word ch \<or> ch = CHR ''.'' \<or> ch = CHR ''-'') name"

definition start_mcp_gateway :: "cli_os \<Rightarrow> profile \<Rightarrow> string \<Rightarrow> unit act" where
  "start_mcp_gateway c p token = andthen (on_host c (\<lambda>e. start_gateway e (gateway_port p) token)) (\<lambda>_. ret ())"

definition restart_ingress :: "cli_os \<Rightarrow> (string, string) dict \<Rightarrow> unit act" where
  "restart_ingress c env_map =
     andthen (stops c stop_ingress) (\<lambda>_.
     andthen (on_host c (\<lambda>e. start_ingress e (ingress_env env_map (manifest_path c)))) (\<lambda>_. ret ()))"

text \<open>The environment file after \<^verbatim>\<open>use\<close>; \<open>p\<close> is the profile with the runner.\<close>

definition used_env :: "cli_os \<Rightarrow> profile \<Rightarrow> string \<Rightarrow> env_file \<Rightarrow> env_file" where
  "used_env c p name env =
     apply_fields (env_fields (co_md5 c) p name (case ef_get env ''TUNNEL_TOKEN'' of None \<Rightarrow> [] | Some t \<Rightarrow> t)) env"

definition stop_active :: "cli_os \<Rightarrow> env_file \<Rightarrow> unit act" where
  "stop_active c env =
     (case ef_get env ''ACTIVE_PROFILE'' of
        None \<Rightarrow> ret ()
      | Some a \<Rightarrow> if a = [] then ret () else stops c (\<lambda>e. stop_host_services e a))"

definition dir_mounts :: "cli_os \<Rightarrow> profile \<Rightarrow> string list" where
  "dir_mounts c p = filter (\<lambda>m. co_isdir c (path_join (project_dir p) m)) (deny_mounts p)"

definition use_processes :: "cli_os \<Rightarrow> profile \<Rightarrow> string \<Rightarrow> (string, string) dict \<Rightarrow> unit act" where
  "use_processes c p name env_map =
     andthen (on_host c (\<lambda>e. restart_host_services e (host_services p) name (dget_or env_map ''MCP_PUBLIC_TOKEN'' []) None)) (\<lambda>_.
     andthen (if exposed_mcps p \<noteq> [] \<and> dget_or env_map ''GATEWAY_TOKEN'' [] \<noteq> []
              then start_mcp_gateway c p (dget_or env_map ''GATEWAY_TOKEN'' []) else stops c stop_gateway_procs) (\<lambda>_.
     restart_ingress c env_map))"

text \<open>The rest of \<^verbatim>\<open>apply_use\<close>, with the environment file as it was read; \<open>p\<close> is the profile with the runner.\<close>

definition use_rest :: "cli_os \<Rightarrow> string \<Rightarrow> profile \<Rightarrow> profile \<Rightarrow> env_file \<Rightarrow> int act" where
  "use_rest c name base p env0 =
     (let env = used_env c p name env0; env_map = ef_as_map env in
      andthen (stop_active c env0) (\<lambda>_.
      andthen (write_env env) (\<lambda>_.
      andthen (write_file (override_file c) (render_override p (dir_mounts c p))) (\<lambda>_.
      andthen (write_manifest c base name env_map) (\<lambda>_.
      andthen (use_processes c p name env_map) (\<lambda>_.
      andthen (docker c [''up'', ''-d'', ''--force-recreate'', ''toolbox''] None) (\<lambda>rc.
        if rc \<noteq> 0 then ret 1 else
        andthen (emit_agent_artifacts c p name (ports_str (allowed (compute_port_policy p)))) (\<lambda>ok.
          if \<not> ok then ret 1 else andthen (start_gitleaks c p name) (\<lambda>_. ret 0)))))))))"

definition use_valid :: "cli_os \<Rightarrow> string \<Rightarrow> profile \<Rightarrow> int act" where
  "use_valid c name base = andthen (with_runner c base name) (\<lambda>p w. use_rest c name base p (ef_load (w_env w)) w)"

definition apply_use :: "cli_os \<Rightarrow> string \<Rightarrow> int act" where
  "apply_use c name w =
     (case find_path c w name of
        None \<Rightarrow> (Some 1, w)
      | Some path \<Rightarrow>
          if \<not> name_ok name then (Some 1, w)
          else (case load_path w path of
             Inl _ \<Rightarrow> (Some 1, w)
           | Inr p \<Rightarrow>
               (case validate (co_exists c) p of
                  None \<Rightarrow> (None, w)
                | Some ps \<Rightarrow> if \<not> list_all is_warn ps then (Some 1, w) else use_valid c name p w)))"

text \<open>A command that changes something runs under the lock of the action, unless it is called by one that holds it.\<close>

definition single_flight :: "bool \<Rightarrow> bool \<Rightarrow> int act \<Rightarrow> int act" where
  "single_flight nested lock_free m w = (if nested \<or> lock_free then m w else (Some 1, w))"

section \<open>The other commands\<close>

definition start_stack :: "cli_os \<Rightarrow> int act" where
  "start_stack c =
     andthen (docker c [''up'', ''-d''] None) (\<lambda>rc w.
       if rc \<noteq> 0 then (Some 1, w)
       else andthen (restart_ingress c (ef_as_map (ef_load (w_env w)))) (\<lambda>_. ret 0) w)"

definition cli_start :: "cli_os \<Rightarrow> string option \<Rightarrow> bool \<Rightarrow> bool \<Rightarrow> int act" where
  "cli_start c name with_preview with_watchdog w =
     andthen
       (let active = (case name of Some n \<Rightarrow> if n = [] then ef_get (ef_load (w_env w)) ''ACTIVE_PROFILE'' else Some n
                      | None \<Rightarrow> ef_get (ef_load (w_env w)) ''ACTIVE_PROFILE'') in
        case active of None \<Rightarrow> start_stack c | Some a \<Rightarrow> if a = [] then start_stack c else apply_use c a)
       (\<lambda>rc w1.
         if rc \<noteq> 0 then (Some rc, w1)
         else let env_map = ef_as_map (ef_load (w_env w1)) in
           andthen (if dget_or env_map ''PUBLIC_PREVIEW_URL'' [] = [] \<and> with_preview
                    then docker c [''--profile'', ''preview'', ''up'', ''-d''] None else ret 0) (\<lambda>_.
           andthen (refresh_manifest c) (\<lambda>_ w2.
             if with_watchdog \<and> dget_or (w_environ w2) ''RDM_NO_WATCHDOG'' [] = []
             then andthen (on_host c (\<lambda>e. start_watchdog e env_map)) (\<lambda>_. ret 0) w2
             else (Some 0, w2))) w1) w"

definition issue_tokens :: "cli_os \<Rightarrow> string list \<Rightarrow> int act" where
  "issue_tokens c fresh w =
     (let env = snd (rotate_tokens fresh (ef_load (w_env w))); env_map = ef_as_map env;
          active = dget_or env_map ''ACTIVE_PROFILE'' [] in
      andthen (write_env env) (\<lambda>_.
      andthen (docker c [''up'', ''-d'', ''--force-recreate'', ''toolbox''] None) (\<lambda>rc.
        if rc \<noteq> 0 then ret 1 else
        andthen (\<lambda>w1.
          (case (if active = [] then None else find_path c w1 active) of
             None \<Rightarrow> (Some (), w1)
           | Some path \<Rightarrow>
               (case load_path w1 path of
                  Inl _ \<Rightarrow> (Some (), w1)
                | Inr p0 \<Rightarrow>
                    andthen (with_runner c p0 active) (\<lambda>p.
                    andthen (on_host c (\<lambda>e. restart_host_services e (host_services p) active
                        (dget_or env_map ''MCP_PUBLIC_TOKEN'' []) None)) (\<lambda>_.
                    if exposed_mcps p \<noteq> [] then start_mcp_gateway c p (dget_or env_map ''GATEWAY_TOKEN'' [])
                    else stops c stop_gateway_procs)) w1))) (\<lambda>_.
        andthen (restart_ingress c env_map) (\<lambda>_.
        andthen (refresh_manifest c) (\<lambda>_. ret 0))))) w)"

definition cli_preview :: "cli_os \<Rightarrow> string option \<Rightarrow> int act" where
  "cli_preview c origin w =
     (let env0 = ef_load (w_env w);
          given = (case origin of Some t \<Rightarrow> t \<noteq> [] | None \<Rightarrow> False);
          env = (if given then ef_set ''PREVIEW_ORIGIN'' (the origin) env0 else env0) in
      andthen (if given then write_env env else ret ()) (\<lambda>_.
        if dget_or (ef_as_map env) ''PREVIEW_ORIGIN'' [] = [] then ret 1
        else andthen (docker c [''--profile'', ''preview'', ''up'', ''-d'', ''--force-recreate'', ''cloudflared-preview''] None)
          (\<lambda>rc. ret (if rc \<noteq> 0 then 1 else 0))) w)"

definition stop_active_services :: "cli_os \<Rightarrow> unit act" where
  "stop_active_services c w = stop_active c (ef_load (w_env w)) w"

definition cli_stop_host :: "cli_os \<Rightarrow> int act" where
  "cli_stop_host c = andthen (stop_active_services c) (\<lambda>_. andthen (stops c stop_gateway_procs) (\<lambda>_. ret 0))"

definition stop_host_side :: "cli_os \<Rightarrow> unit act" where
  "stop_host_side c =
     andthen (stop_active_services c) (\<lambda>_.
     andthen (stops c stop_gateway_procs) (\<lambda>_.
     andthen (stops c stop_ingress) (\<lambda>_.
     andthen (stops c stop_watchdog) (\<lambda>_.
     andthen (docker c [''stop'', ''cloudflared-ingress'', ''cloudflared-preview''] None) (\<lambda>_. ret ())))))"

definition cli_down :: "cli_os \<Rightarrow> int act" where
  "cli_down c = andthen (stop_host_side c) (\<lambda>_. ret 0)"

definition cli_full_down :: "cli_os \<Rightarrow> int act" where
  "cli_full_down c =
     andthen (stop_host_side c) (\<lambda>_.
     andthen (docker c [''--profile'', ''preview'', ''down''] None) (\<lambda>rc. ret (if rc \<noteq> 0 then 1 else 0)))"

definition cli_ingress :: "cli_os \<Rightarrow> bool \<Rightarrow> int act" where
  "cli_ingress c start w =
     (if start then andthen (on_host c (\<lambda>e. start_ingress e (ingress_env (ef_as_map (ef_load (w_env w))) (manifest_path c)))) (\<lambda>_. ret 0) w
      else andthen (stops c stop_ingress) (\<lambda>_. ret 0) w)"

definition watchdog_control :: "cli_os \<Rightarrow> bool \<Rightarrow> int act" where
  "watchdog_control c start w =
     (if start then andthen (on_host c (\<lambda>e. start_watchdog e (ef_as_map (ef_load (w_env w))))) (\<lambda>_. ret 0) w
      else andthen (stops c stop_watchdog) (\<lambda>_. ret 0) w)"

text \<open>\<open>ps\<close> is what docker lists, \<open>probe\<close> the status of a request to an address with a token.\<close>

definition cli_health :: "cli_os \<Rightarrow> string \<Rightarrow> (string \<Rightarrow> string \<Rightarrow> int) \<Rightarrow> world \<Rightarrow> int" where
  "cli_health c ps probe w =
     (let env_map = ef_as_map (ef_load (w_env w)); url = co_url c env_map in
      if \<not> contains_sub ''healthy'' ps then 1 else if url = [] then 1
      else if probe (url @ ''/p/'' @ int_str BRIDGE_PORT @ ''/healthz'') (dget_or env_map ''MCP_BEARER_TOKEN'' []) = 200 then 0 else 1)"

section \<open>Opening a port\<close>

text \<open>The guards before the profile is changed, in their order; \<open>True\<close> refuses.\<close>

definition allow_refused :: "profile \<Rightarrow> int \<Rightarrow> bool" where
  "allow_refused p port \<longleftrightarrow>
     (let policy = compute_port_policy p in
      port = BRIDGE_PORT \<or> runner_http_port policy = Some port \<or> port \<in> set (self_authed policy) \<or>
      list_ex (\<lambda>s. hs_port s = port \<and> hs_auth s \<noteq> ''bearer'') (host_services p) \<or> port \<in> set (denied policy))"

definition allow_profile :: "profile \<Rightarrow> int \<Rightarrow> bool \<Rightarrow> profile" where
  "allow_profile p port ui =
     p\<lparr>allowed_ports := sorted_set (port # allowed_ports p), ui_port := (if ui then Some port else ui_port p)\<rparr>"

definition allow_data :: "profile \<Rightarrow> int \<Rightarrow> bool \<Rightarrow> (string \<times> json) list \<Rightarrow> (string \<times> json) list" where
  "allow_data p port ui d =
     (let d1 = dset ''allowed_ports'' (JArr (map JInt (sorted_set (port # allowed_ports p)))) d in
      if ui then dset ''ui_port'' (JInt port) d1 else d1)"

definition allow_fields :: "profile \<Rightarrow> int \<Rightarrow> bool \<Rightarrow> (string \<times> string option) list" where
  "allow_fields p port ui =
     (let policy = compute_port_policy p in
      [(''SELF_AUTHED_PORTS'', Some (ports_str (self_authed policy))), (''ALLOWED_PORTS'', Some (ports_str (allowed policy))),
       (''ALLOWED_PORT_RANGES'', Some (ranges_str (ranges policy))), (''DENIED_PORTS'', Some (ports_str (denied policy)))] @
      (if ui then [(''UI_PORT'', Some (int_str port))] else []))"

definition allow_apply :: "cli_os \<Rightarrow> string \<Rightarrow> string \<Rightarrow> profile \<Rightarrow> int \<Rightarrow> bool \<Rightarrow> json \<Rightarrow> int act" where
  "allow_apply c active path p port ui data w =
     (case data of
        JObj d \<Rightarrow>
          let mutated = allow_profile p port ui; env = apply_fields (allow_fields mutated port ui) (ef_load (w_env w)) in
          (case validate (co_exists c) mutated of
             None \<Rightarrow> (None, w)
           | Some ps \<Rightarrow>
               if \<not> list_all is_warn ps then (Some 1, w)
               else andthen (write_file path (dumps (fmt_indent2 False) (JObj (allow_data p port ui d)) @ [CHR 0x0A])) (\<lambda>_.
                 andthen (write_env env) (\<lambda>_.
                 andthen (write_manifest c mutated active (ef_as_map env)) (\<lambda>_.
                 andthen (restart_ingress c (ef_as_map env)) (\<lambda>_. ret 0)))) w)
      | _ \<Rightarrow> (None, w))"

definition cli_allow :: "cli_os \<Rightarrow> int \<Rightarrow> bool \<Rightarrow> int act" where
  "cli_allow c port ui w =
     (if port = COCKPIT_PORT then (Some 1, w)
      else let active = (case ef_get (ef_load (w_env w)) ''ACTIVE_PROFILE'' of None \<Rightarrow> [] | Some a \<Rightarrow> a) in
        if active = [] then (Some 1, w)
        else (case find_path c w active of
           None \<Rightarrow> (Some 1, w)
         | Some path \<Rightarrow>
             if port < 1 \<or> 65535 < port then (Some 1, w)
             else (case load_path w path of
                Inl _ \<Rightarrow> (Some 1, w)
              | Inr p \<Rightarrow>
                  if allow_refused p port then (Some 1, w)
                  else (case loads (dget_or (w_files w) path []) of
                     None \<Rightarrow> (None, w)
                   | Some data \<Rightarrow> allow_apply c active path p port ui data w))))"

section \<open>Reasoning about commands\<close>

text \<open>When the action does not raise, it takes states of \<open>P\<close> to results and states of \<open>Q\<close>.\<close>

definition ensures :: "(world \<Rightarrow> bool) \<Rightarrow> 'a act \<Rightarrow> ('a \<Rightarrow> world \<Rightarrow> bool) \<Rightarrow> bool" where
  "ensures P m Q \<longleftrightarrow> (\<forall>w x w'. P w \<longrightarrow> m w = (Some x, w') \<longrightarrow> Q x w')"

named_theorems ensures_intro

lemma ensures_andthen [ensures_intro]:
  "ensures P m R \<Longrightarrow> (\<And>x. ensures (R x) (k x) Q) \<Longrightarrow> ensures P (andthen m k) Q"
  by (fastforce simp: ensures_def andthen_def split: prod.splits option.splits)

lemma ensures_ret: "(\<And>w. P w \<Longrightarrow> Q x w) \<Longrightarrow> ensures P (ret x) Q"
  by (simp add: ensures_def ret_def)

lemma ensures_if: "(b \<Longrightarrow> ensures P m Q) \<Longrightarrow> (\<not> b \<Longrightarrow> ensures P n Q) \<Longrightarrow> ensures P (if b then m else n) Q"
  by simp

lemma ensures_stops: "(\<And>w. P w \<Longrightarrow> Q () (w\<lparr>w_host := f (os_of c w) (w_host w)\<rparr>)) \<Longrightarrow> ensures P (stops c f) Q"
  by (simp add: ensures_def stops_def)

lemma ensures_docker: "(\<And>w rc. P w \<Longrightarrow> Q rc (w\<lparr>w_docker := w_docker w @ [(args, input)]\<rparr>)) \<Longrightarrow> ensures P (docker c args input) Q"
  by (simp add: ensures_def docker_def)

lemma ensures_modify: "(\<And>w. P w \<Longrightarrow> Q () (f w)) \<Longrightarrow> ensures P (modify f) Q"
  by (simp add: ensures_def modify_def)

lemma ensures_on_host:
  "(\<And>w x h. P w \<Longrightarrow> f (os_of c w) (w_host w) = (Some x, h) \<Longrightarrow> Q x (w\<lparr>w_host := h\<rparr>)) \<Longrightarrow> ensures P (on_host c f) Q"
  by (auto simp: ensures_def on_host_def split: prod.splits)

lemma ensures_weaken: "ensures P m Q \<Longrightarrow> (\<And>w. P' w \<Longrightarrow> P w) \<Longrightarrow> (\<And>x w. Q x w \<Longrightarrow> Q' x w) \<Longrightarrow> ensures P' m Q'"
  by (simp add: ensures_def) blast

lemma ensuresD: "ensures P m Q \<Longrightarrow> m w = (Some x, w') \<Longrightarrow> P w \<Longrightarrow> Q x w'"
  by (simp add: ensures_def)

section \<open>The ingress that runs\<close>

text \<open>The process that the pid file of the ingress names was started as the ingress with an environment of this configuration.\<close>

definition ingress_runs :: "cli_os \<Rightarrow> start_error + int \<times> config \<Rightarrow> host \<Rightarrow> bool" where
  "ingress_runs c cfg h \<longleftrightarrow>
     (\<exists>pid pr. (pid, pr) \<in> set (hs_spawned h) \<and>
        dget (hs_files h) (ingress_pids_path (co_os c)) = Some (entries_text [(pid, Some (pr_time pr), PROXY_MARKER)]) \<and>
        pr_argv pr = oe_resolve (co_os c) (INGRESS_ARGV (co_os c)) \<and> ingress_main (pr_env pr) = cfg)"

lemma dmerge_get: "distinct (dkeys kvs) \<Longrightarrow> dget (dmerge d kvs) k = (case dget kvs k of None \<Rightarrow> dget d k | Some v \<Rightarrow> Some v)"
  using dget_dupdate[of kvs d k] by (simp add: dmerge_def dupdate_def)

definition INGRESS_KEYS :: "string list" where
  "INGRESS_KEYS = [''INGRESS_TOKEN'', ''PROXY_PORT'', ''SELF_AUTHED_PORTS'', ''ALLOWED_PORTS'', ''ALLOWED_PORT_RANGES'', ''DENIED_PORTS'',
     ''RDM_MANIFEST_PATH'']"

lemma ingress_env_keys: "dkeys (ingress_env m mp) = INGRESS_KEYS"
  by (simp add: ingress_env_def INGRESS_KEYS_def)

lemma ingress_main_cong:
  assumes "\<And>k. k \<in> set INGRESS_KEYS \<Longrightarrow> dget d k = dget d' k"
  shows "ingress_main d = ingress_main d'"
proof -
  have "env_get d k v = env_get d' k v" if "k \<in> set INGRESS_KEYS" for k v using assms[OF that] by (simp add: env_get_def dget_or_def)
  note g = this
  show ?thesis unfolding ingress_main_def
    by (subst (1 2 3 4 5 6 7) g) (simp_all only: INGRESS_KEYS_def list.set_intros insert_iff list.simps refl simp_thms)
qed

lemma started_env:
  "ingress_main (env_default ''PROXY_PORT'' (int_str PROC_INGRESS_PORT) (dmerge environ (ingress_env m mp))) = ingress_main (ingress_env m mp)"
proof -
  have d: "distinct (dkeys (ingress_env m mp))" unfolding ingress_env_keys by code_simp
  have g: "dget (dmerge environ (ingress_env m mp)) k = dget (ingress_env m mp) k" if "k \<in> set INGRESS_KEYS" for k
  proof -
    have "k \<in> set (dkeys (ingress_env m mp))" using that by (simp only: ingress_env_keys)
    then have "dget (ingress_env m mp) k \<noteq> None" by (simp only: map_of_eq_None_iff set_map not_not)
    then show ?thesis unfolding dmerge_get[OF d] by (cases "dget (ingress_env m mp) k") (simp_all only: option.case refl simp_thms)
  qed
  have "''PROXY_PORT'' \<in> set INGRESS_KEYS" by code_simp
  moreover have "nat_str INGRESS_PORT \<noteq> []" by (rule nat_str_nonempty)
  moreover have "dget (ingress_env m mp) ''PROXY_PORT'' = Some (nat_str INGRESS_PORT)"
    by (simp add: ingress_env_def)
  ultimately have "env_default ''PROXY_PORT'' (int_str PROC_INGRESS_PORT) (dmerge environ (ingress_env m mp)) = dmerge environ (ingress_env m mp)"
    using g[of "''PROXY_PORT''"] by (simp add: env_default_def dget_or_def)
  then show ?thesis using ingress_main_cong[OF g] by (simp only:)
qed

lemma os_of_simps [simp]:
  "ingress_pids_path (os_of c w) = ingress_pids_path (co_os c)" "INGRESS_ARGV (os_of c w) = INGRESS_ARGV (co_os c)"
  "oe_resolve (os_of c w) = oe_resolve (co_os c)" "oe_environ (os_of c w) = w_environ w"
  "pids_path (os_of c w) name = pids_path (co_os c) name" "gateway_pids_path (os_of c w) = gateway_pids_path (co_os c)"
  by (simp_all add: os_of_def ingress_pids_path_def under_def INGRESS_ARGV_def pids_path_def gateway_pids_path_def)

lemma start_ingress_runs:
  assumes "start_ingress (os_of c w) (ingress_env m mp) h = (Some pid, h')"
  shows "ingress_runs c (ingress_main (ingress_env m mp)) h'"
proof -
  let ?env = "env_default ''PROXY_PORT'' (int_str PROC_INGRESS_PORT) (dmerge (w_environ w) (ingress_env m mp))"
  let ?h0 = "stop_ingress (os_of c w) h"
  obtain h1 where sp: "spawn (os_of c w) (INGRESS_ARGV (co_os c)) ?env ?h0 = (Some pid, h1)"
    "h' = write_entries (ingress_pids_path (co_os c)) [(pid, create_time h1 pid, PROXY_MARKER)] h1"
    using assms by (auto simp: start_ingress_def start_recorded_def split: prod.splits option.splits)
  from sp(1) obtain t ports where p: "let p = \<lparr>pr_argv = oe_resolve (co_os c) (INGRESS_ARGV (co_os c)), pr_time = t, pr_env = ?env, pr_ports = ports\<rparr> in
      hs_spawned h1 = hs_spawned ?h0 @ [(pid, p)] \<and> create_time h1 pid = Some t"
    by (auto simp: spawn_def Let_def create_time_def split: list.splits option.splits)
  then show ?thesis unfolding ingress_runs_def sp(2) Let_def
    by (intro exI[of _ pid] exI) (auto simp: write_entries_def started_env)
qed

lemma restart_ingress_runs:
  "ensures P (restart_ingress c m) (\<lambda>_ w. ingress_runs c (ingress_main (ingress_env m (manifest_path c))) (w_host w))"
  unfolding restart_ingress_def
  by (intro ensures_andthen[where R = "\<lambda>_ _. True"] ensures_andthen ensures_stops ensures_on_host ensures_ret)
    (auto dest: start_ingress_runs)

text \<open>An action that leaves the processes alone, but for one that it may start.\<close>

definition keeps_ingress :: "cli_os \<Rightarrow> 'a act \<Rightarrow> bool" where
  "keeps_ingress c m \<longleftrightarrow> (\<forall>cfg. ensures (\<lambda>w. ingress_runs c cfg (w_host w)) m (\<lambda>_ w. ingress_runs c cfg (w_host w)))"

lemma keeps_andthen: "keeps_ingress c m \<Longrightarrow> (\<And>x. keeps_ingress c (k x)) \<Longrightarrow> keeps_ingress c (andthen m k)"
  unfolding keeps_ingress_def by (blast intro: ensures_andthen)

lemma keeps_simple: "keeps_ingress c (ret x)" "keeps_ingress c (docker c' args input)"
  by (simp_all add: keeps_ingress_def ensures_def ret_def docker_def)

lemma keeps_if: "keeps_ingress c m \<Longrightarrow> keeps_ingress c n \<Longrightarrow> keeps_ingress c (if b then m else n)"
  by simp

lemma ingress_runs_spawn: "ingress_runs c cfg h \<Longrightarrow> ingress_runs c cfg (snd (spawn e argv env h))"
  unfolding ingress_runs_def by (cases "hs_spawns h") (auto simp: spawn_def Let_def split: option.splits)

lemma keeps_gitleaks: "keeps_ingress c (start_gitleaks c' p name)"
  by (auto simp: keeps_ingress_def ensures_def start_gitleaks_def intro: ingress_runs_spawn)

lemma keeps_artifacts: "keeps_ingress c (emit_agent_artifacts c' p name t)"
  unfolding emit_agent_artifacts_def Let_def by (intro keeps_andthen keeps_if keeps_simple)

lemma ensures_keeps: "keeps_ingress c m \<Longrightarrow> (\<And>w. P w \<Longrightarrow> ingress_runs c cfg (w_host w)) \<Longrightarrow>
    ensures P m (\<lambda>_ w. ingress_runs c cfg (w_host w))"
  unfolding keeps_ingress_def by (blast intro: ensures_weaken)

lemma ensures_true: "ensures P m (\<lambda>_ _. True)"
  by (simp add: ensures_def)

lemma ensures_last: "(\<And>x. ensures (\<lambda>_. True) (k x) Q) \<Longrightarrow> ensures P (andthen m k) Q"
  by (rule ensures_andthen[OF ensures_true]) simp

lemma use_processes_ingress:
  "ensures P (use_processes c p name m) (\<lambda>_ w. ingress_runs c (ingress_main (ingress_env m (manifest_path c))) (w_host w))"
  unfolding use_processes_def by (intro ensures_last restart_ingress_runs)

lemma use_rest_ingress:
  "ensures P (use_rest c name base p env0)
     (\<lambda>_ w. ingress_runs c (ingress_main (ingress_env (ef_as_map (used_env c p name env0)) (manifest_path c))) (w_host w))"
  unfolding use_rest_def Let_def
  by (rule ensures_last, rule ensures_last, rule ensures_last, rule ensures_last,
      rule ensures_andthen[OF use_processes_ingress], rule ensures_keeps)
    (intro keeps_andthen keeps_if keeps_simple keeps_artifacts keeps_gitleaks, assumption)

lemma with_runner_eq:
  "\<exists>w1. with_runner c p name w = (Some (with_runner_service (oe_runtime (co_os c)) p), w1) \<and> w_env w1 = w_env w \<and> w_host w1 = w_host w"
  by (simp add: with_runner_def with_runner_service_def)

lemma use_valid_ingress:
  assumes "use_valid c name base w = (Some rc, w')"
  shows "ingress_runs c (ingress_main (use_env (oe_runtime (co_os c)) (co_md5 c) base name (ef_load (w_env w)) (manifest_path c))) (w_host w')"
proof -
  let ?p = "with_runner_service (oe_runtime (co_os c)) base"
  obtain w1 where w1: "with_runner c base name w = (Some ?p, w1)" "w_env w1 = w_env w" using with_runner_eq by blast
  have "use_rest c name base ?p (ef_load (w_env w)) w1 = (Some rc, w')"
    using assms by (simp add: use_valid_def andthen_def w1)
  from ensuresD[OF use_rest_ingress this, of "\<lambda>_. True"] show ?thesis
    by (simp add: use_env_def used_env_def Let_def)
qed

text \<open>Only a valid profile is ever applied; otherwise nothing changes.\<close>

lemma apply_use_cases:
  obtains "snd (apply_use c name w) = w"
  | path p where "find_path c w name = Some path" "name_ok name" "load_path w path = Inr p" "valid_profile (co_exists c) p"
    "apply_use c name w = use_valid c name p w"
proof (cases "\<exists>path p. find_path c w name = Some path \<and> name_ok name \<and> load_path w path = Inr p \<and> valid_profile (co_exists c) p")
  case True
  then obtain path p where p: "find_path c w name = Some path" "name_ok name" "load_path w path = Inr p" "valid_profile (co_exists c) p"
    by blast
  then have "apply_use c name w = use_valid c name p w"
    by (auto simp: apply_use_def valid_profile_def split: option.splits)
  with p show ?thesis by (rule that(2))
next
  case False
  then have "snd (apply_use c name w) = w"
    by (auto simp: apply_use_def valid_profile_def split: option.split sum.split)
  then show ?thesis by (rule that(1))
qed

lemma built_policy:
  "is_port_allowed (cfg_policy (build_ingress_server t (self_authed (compute_port_policy p)) (allowed (compute_port_policy p)) m
      (port_ranges p) (port_deny p))) q = is_port_allowed (compute_port_policy p) q"
  "cfg_token (build_ingress_server t ss as m rs ds) = t"
  by (simp_all add: build_ingress_server_def is_port_allowed_def protected_ports_def cfg_policy_def)

text \<open>
  C3. What \<^verbatim>\<open>use\<close> leaves running enforces the profile: unless it changed nothing, the profile it applied is valid, and when
  it ends without an exception the process in the pid file of the ingress was started with an environment from which
  its start-up makes a configuration with the ingress token of the file and exactly the port policy of that profile.
\<close>

theorem use_runs_policy:
  assumes "apply_use c name w = (Some rc, w')" "w' \<noteq> w"
    and "ef_inv (ef_load (w_env w))" "ef_get (ef_load (w_env w)) ''INGRESS_TOKEN'' = Some token" "token \<noteq> []"
  shows "\<exists>path p cfg. find_path c w name = Some path \<and> load_path w path = Inr p \<and> valid_profile (co_exists c) p \<and>
    ingress_runs c (Inr (8799, cfg)) (w_host w') \<and> cfg_token cfg = token \<and>
    (\<forall>q. is_port_allowed (cfg_policy cfg) q = is_port_allowed (compute_port_policy p) q)"
proof (cases rule: apply_use_cases[of c name w])
  case 1
  then show ?thesis using assms(1,2) by simp
next
  case (2 path p)
  note r = use_valid_ingress[OF assms(1)[unfolded 2(5)], unfolded use_ingress_config[OF 2(4) assms(3-5)]]
  show ?thesis
    by (rule exI[of _ path], rule exI[of _ p], rule exI, intro conjI, fact, fact, fact, rule r)
      (simp_all add: built_policy)
qed

section \<open>The port that is opened\<close>

lemma allow_policy:
  assumes "\<not> allow_refused p port" "port \<noteq> COCKPIT_PORT"
  shows "is_port_allowed (compute_port_policy (allow_profile p port ui)) q \<longleftrightarrow>
    is_port_allowed (compute_port_policy p) q \<or> q = port \<and> port - 1 \<notin> set (self_authed (compute_port_policy p))"
proof -
  let ?p = "allow_profile p port ui"
  have s: "set (self_authed (compute_port_policy ?p)) = set (self_authed (compute_port_policy p))"
    by (simp add: self_authed_compute allow_profile_def bearer_ports_def runner_ports_def)
  then have pr: "q \<in> set (protected_ports (compute_port_policy ?p)) \<longleftrightarrow> q \<in> set (protected_ports (compute_port_policy p))"
    by (simp only: protected_iff)
  have a: "set (allowed (compute_port_policy ?p)) = insert port (set (allowed (compute_port_policy p)))"
    by (auto simp: allowed_compute open_ports_def allow_profile_def)
  have d: "port_deny ?p = port_deny p" "port_ranges ?p = port_ranges p" by (simp_all add: allow_profile_def)
  have n: "port \<notin> set (port_deny p)" "port \<notin> set (self_authed (compute_port_policy p))"
    using assms(1) by (auto simp: allow_refused_def Let_def)
  show ?thesis using n assms(2) pr unfolding is_port_allowed_def a by (auto simp: d protected_iff)
qed

lemma allow_fields_ok: "env_kv.ok_kvs (allow_fields p port ui)" "distinct (dkeys (allow_fields p port ui))"
proof -
  have "list_all ok_key [''SELF_AUTHED_PORTS'', ''ALLOWED_PORTS'', ''ALLOWED_PORT_RANGES'', ''DENIED_PORTS'', ''UI_PORT'']" by code_simp
  then show "env_kv.ok_kvs (allow_fields p port ui)" by (simp add: ok_kvs_keys allow_fields_def Let_def)
  show "distinct (dkeys (allow_fields p port ui))" by (simp add: allow_fields_def Let_def)
qed

lemma cli_allow_done:
  assumes "cli_allow c port ui w = (Some 0, w')"
  obtains active path p d ps where "find_path c w active = Some path" "load_path w path = Inr p" "port \<noteq> COCKPIT_PORT" "\<not> allow_refused p port"
    "loads (dget_or (w_files w) path []) = Some (JObj d)" "validate (co_exists c) (allow_profile p port ui) = Some ps" "list_all is_warn ps"
    "allow_apply c active path p port ui (JObj d) w = (Some 0, w')"
proof -
  let ?a = "case ef_get (ef_load (w_env w)) ''ACTIVE_PROFILE'' of None \<Rightarrow> [] | Some a \<Rightarrow> a"
  from assms obtain path p data where 1: "find_path c w ?a = Some path" "load_path w path = Inr p" "port \<noteq> COCKPIT_PORT" "\<not> allow_refused p port"
    "loads (dget_or (w_files w) path []) = Some data" "allow_apply c ?a path p port ui data w = (Some 0, w')"
    by (auto simp: cli_allow_def Let_def split: if_splits option.splits sum.splits)
  moreover from 1(6) obtain d ps where "data = JObj d" "validate (co_exists c) (allow_profile p port ui) = Some ps" "list_all is_warn ps"
    by (auto simp: allow_apply_def Let_def split: json.splits option.splits if_splits)
  ultimately show ?thesis using that by blast
qed

lemma allow_ingress_config:
  assumes "valid_profile exists p'" "ef_inv env" "ef_get env ''INGRESS_TOKEN'' = Some token" "token \<noteq> []"
  shows "ingress_main (ingress_env (ef_as_map (apply_fields (allow_fields p' port ui) env)) manifest) =
      Inr (8799, build_ingress_server token (self_authed (compute_port_policy p')) (allowed (compute_port_policy p'))
        (if manifest = [] then None else Some manifest) (port_ranges p') (port_deny p'))"
proof -
  let ?kvs = "allow_fields p' port ui" and ?pol = "compute_port_policy p'"
  let ?env = "apply_fields ?kvs env"
  have f: "map_of ?kvs ''SELF_AUTHED_PORTS'' = Some (Some (ports_str (self_authed ?pol)))"
    "map_of ?kvs ''ALLOWED_PORTS'' = Some (Some (ports_str (allowed ?pol)))"
    "map_of ?kvs ''ALLOWED_PORT_RANGES'' = Some (Some (ranges_str (port_ranges p')))"
    "map_of ?kvs ''DENIED_PORTS'' = Some (Some (ports_str (port_deny p')))"
    "''INGRESS_TOKEN'' \<notin> set (dkeys ?kvs)"
    by (cases ui; simp add: allow_fields_def Let_def)+
  have get: "ef_get ?env k = Some v" if "map_of ?kvs k = Some (Some v)" "strip v = v" for k v
    unfolding apply_fields_kvs by (rule env_kv.get_apply_kvs[OF assms(2) allow_fields_ok that(1)]) (simp add: that(2))
  have wf: "\<forall>r \<in> set (port_ranges p'). range_wf r" using valid_range_section(1)[OF assms(1)] by auto
  show ?thesis
  proof (rule env_ingress_config[OF _ wf get[OF f(1) strip_ports_str(1)] get[OF f(2) strip_ports_str(1)]
        get[OF f(3) strip_ports_str(2)] get[OF f(4) strip_ports_str(1)] _ assms(4)])
    show "ef_inv ?env" unfolding apply_fields_kvs by (rule env_kv.inv_apply_kvs[OF assms(2) allow_fields_ok(1)])
    show "ef_get ?env ''INGRESS_TOKEN'' = Some token"
      unfolding apply_fields_kvs using env_kv.get_apply_kvs_other[OF assms(2) allow_fields_ok(1) f(5)] assms(3) by simp
  qed
qed

text \<open>
  C11. \<^verbatim>\<open>allow\<close> opens the port it was asked for and no other: when it succeeds, the ingress that runs has the ingress token and
  lets in exactly what the policy of the profile let in and that port, except that a port just above a service with
  its own authorization stays closed, although the command reports success.
\<close>

theorem allow_opens_exactly:
  assumes "cli_allow c port ui w = (Some 0, w')"
    and "ef_inv (ef_load (w_env w))" "ef_get (ef_load (w_env w)) ''INGRESS_TOKEN'' = Some token" "token \<noteq> []"
  shows "\<exists>path p cfg. load_path w path = Inr p \<and> ingress_runs c (Inr (8799, cfg)) (w_host w') \<and> cfg_token cfg = token \<and>
    (\<forall>q. is_port_allowed (cfg_policy cfg) q \<longleftrightarrow> is_port_allowed (compute_port_policy p) q \<or>
       q = port \<and> port - 1 \<notin> set (self_authed (compute_port_policy p)))"
proof -
  obtain active path p d ps where a: "load_path w path = Inr p" "port \<noteq> COCKPIT_PORT" "\<not> allow_refused p port"
    "validate (co_exists c) (allow_profile p port ui) = Some ps" "list_all is_warn ps"
    "allow_apply c active path p port ui (JObj d) w = (Some 0, w')"
    by (rule cli_allow_done[OF assms(1)]) blast
  let ?p = "allow_profile p port ui"
  let ?env = "apply_fields (allow_fields ?p port ui) (ef_load (w_env w))"
  have v: "valid_profile (co_exists c) ?p" using a(4,5) by (simp add: valid_profile_def)
  have "ensures P (andthen (write_file path t) (\<lambda>_. andthen (write_env ?env) (\<lambda>_.
      andthen (write_manifest c ?p active (ef_as_map ?env)) (\<lambda>_. andthen (restart_ingress c (ef_as_map ?env)) (\<lambda>_. ret 0)))))
      (\<lambda>_ w. ingress_runs c (ingress_main (ingress_env (ef_as_map ?env) (manifest_path c))) (w_host w))" for P and t
    by (rule ensures_last, rule ensures_last, rule ensures_last, rule ensures_andthen[OF restart_ingress_runs], rule ensures_ret)
  from ensuresD[OF this, of _ w 0 w' "\<lambda>_. True"] a(4-6)
  have "ingress_runs c (ingress_main (ingress_env (ef_as_map ?env) (manifest_path c))) (w_host w')"
    by (simp add: allow_apply_def Let_def)
  note r = this[unfolded allow_ingress_config[OF v assms(2-4)]]
  show ?thesis
    by (rule exI[of _ path], rule exI[of _ p], rule exI, intro conjI, fact, rule r)
      (simp_all add: built_policy allow_policy[OF a(3,2)])
qed

section \<open>The profile file that is written\<close>

text \<open>No key of the data stands for one of the two fields under another spelling.\<close>

definition no_alias :: "(string \<times> json) list \<Rightarrow> bool" where
  "no_alias d \<longleftrightarrow> list_all (\<lambda>(k, v). k \<in> {''allowed_ports'', ''ui_port''} \<or>
     dget TOP_KEYS (norm_key k) \<notin> {Some ''allowed_ports'', Some ''ui_port''}) d"

definition top_values :: "(string \<times> json) list \<Rightarrow> (string, json) dict" where
  "top_values d = fst (fields_loop TOP_KEYS d ([], []))"

definition named :: "(string \<times> json) list \<Rightarrow> (string \<times> json) list" where
  "named d = List.map_filter (\<lambda>(k, v). map_option (\<lambda>n. (n, v)) (dget TOP_KEYS (norm_key k))) d"

lemma dget_fold_dset: "dget (fold (\<lambda>(k, v). dset k v) kvs d) n = (case map_of (rev kvs) n of None \<Rightarrow> dget d n | Some v \<Rightarrow> Some v)"
  by (induction kvs arbitrary: d) (auto split: option.splits)

lemma top_values_get: "dget (top_values d) n = map_of (rev (named d)) n"
  by (simp add: top_values_def fields_loop_spec dget_fold_dset named_def split: option.split)

lemma named_simps [simp]:
  "named [] = []"
  "named ((k, v) # d) = (case dget TOP_KEYS (norm_key k) of None \<Rightarrow> named d | Some n \<Rightarrow> (n, v) # named d)"
  by (simp_all add: named_def split: option.split)

lemma named_dset_other:
  "dget TOP_KEYS (norm_key k) = Some n \<Longrightarrow> m \<noteq> n \<Longrightarrow> map_of (rev (named (dset k v d))) m = map_of (rev (named d)) m"
proof (induction d)
  case (Cons x d)
  obtain a b where x: "x = (a, b)" by (cases x)
  show ?case using Cons by (auto simp: x map_add_def split: option.splits)
qed simp

lemma named_absent: "list_all (\<lambda>(k', v). dget TOP_KEYS (norm_key k') \<noteq> Some n) d \<Longrightarrow> map_of (rev (named d)) n = None"
  by (induction d) (auto simp: map_add_def split: option.splits)

lemma named_dset_same:
  assumes "distinct (dkeys d)" "list_all (\<lambda>(k', v). k' = k \<or> dget TOP_KEYS (norm_key k') \<noteq> Some n) d"
    and "dget TOP_KEYS (norm_key k) = Some n"
  shows "map_of (rev (named (dset k v d))) n = Some v"
  using assms
proof (induction d)
  case (Cons x d)
  obtain a b where x: "x = (a, b)" by (cases x)
  show ?case
  proof (cases "a = k")
    case True
    have "list_all (\<lambda>(k', v). dget TOP_KEYS (norm_key k') \<noteq> Some n) d"
      using Cons.prems(1,2) by (force simp: x True list_all_iff)
    from named_absent[OF this] show ?thesis using Cons.prems(3) by (simp add: x True map_add_def)
  next
    case False
    then show ?thesis using Cons by (auto simp: x map_add_def split: option.splits)
  qed
qed simp

lemma build_profile_changed:
  assumes "build_profile vals = Inr p" "\<And>n. n \<notin> {''allowed_ports'', ''ui_port''} \<Longrightarrow> dget vals' n = dget vals n"
    and "opt_int vals' ''ui_port'' = Inr u" "seq_map vals' ''allowed_ports'' int_of_json = Inr ps"
  shows "build_profile vals' = Inr (p\<lparr>ui_port := u, allowed_ports := ps\<rparr>)"
proof -
  have g: "str_of vals' n = str_of vals n" "opt_int vals' n = opt_int vals n" "seq_of vals' n = seq_of vals n"
    if "n \<notin> {''allowed_ports'', ''ui_port''}" for n
    using assms(2)[OF that] by (simp_all add: fun_eq_iff str_of_def opt_int_def seq_of_def)
  show ?thesis using assms(1) unfolding build_profile_def assms(3,4)
    by (auto simp: res_iff g seq_map_def)
qed

lemma top_keys: "dget TOP_KEYS (norm_key ''allowed_ports'') = Some ''allowed_ports''" "dget TOP_KEYS (norm_key ''ui_port'') = Some ''ui_port''"
  by code_simp+

lemma no_alias_dset: "no_alias d \<Longrightarrow> k \<in> {''allowed_ports'', ''ui_port''} \<Longrightarrow> no_alias (dset k v d)"
  unfolding no_alias_def by (induction d) auto

lemma no_alias_get:
  assumes "distinct (dkeys d)" "no_alias d" "k = ''allowed_ports'' \<or> k = ''ui_port''"
  shows "dget (top_values (dset k v d)) k = Some v" "m \<noteq> k \<Longrightarrow> dget (top_values (dset k v d)) m = dget (top_values d) m"
proof -
  have k: "dget TOP_KEYS (norm_key k) = Some k" using assms(3) top_keys by auto
  have "list_all (\<lambda>(k', v). k' = k \<or> dget TOP_KEYS (norm_key k') \<noteq> Some k) d"
    using assms(2,3) top_keys unfolding no_alias_def list_all_iff by fastforce
  from named_dset_same[OF assms(1) this k] show "dget (top_values (dset k v d)) k = Some v" by (simp add: top_values_get)
  show "m \<noteq> k \<Longrightarrow> dget (top_values (dset k v d)) m = dget (top_values d) m"
    using named_dset_other[OF k, of m] by (simp add: top_values_get)
qed

lemma fields_top: "list_all (\<lambda>(k, v). dget TOP_KEYS (norm_key k) \<noteq> None) d \<Longrightarrow>
    fields_of (JObj d) TOP_KEYS loc = Inr (top_values d)"
  using fields_of_Inr_iff[of "JObj d" TOP_KEYS loc "top_values d"] by (auto simp: top_values_def list_all_iff)

lemma known_dset: "list_all (\<lambda>(k, v). dget TOP_KEYS (norm_key k) \<noteq> None) d \<Longrightarrow> dget TOP_KEYS (norm_key k) \<noteq> None \<Longrightarrow>
    list_all (\<lambda>(k, v). dget TOP_KEYS (norm_key k) \<noteq> None) (dset k v d)"
  by (induction d) auto

lemma int_list_back: "dget vals k = Some (JArr (map JInt xs)) \<Longrightarrow> seq_map vals k int_of_json = Inr xs"
proof -
  have "rtraverse int_of_json (map JInt xs) = Inr xs" by (induction xs) (simp_all add: int_of_json_def rbind_def)
  then show "dget vals k = Some (JArr (map JInt xs)) \<Longrightarrow> seq_map vals k int_of_json = Inr xs"
    by (simp add: seq_map_def seq_of_def rbind_def)
qed

lemma allow_data_loads:
  assumes "build_top (JObj d) = Inr p" "distinct (dkeys d)" "no_alias d"
  shows "build_top (JObj (allow_data p port ui d)) = Inr (allow_profile p port ui)"
proof -
  let ?v = "JArr (map JInt (sorted_set (port # allowed_ports p)))"
  let ?d1 = "dset ''allowed_ports'' ?v d" and ?d2 = "allow_data p port ui d"
  from assms(1) obtain vals where "fields_of (JObj d) TOP_KEYS ''profile'' = Inr vals" "build_profile vals = Inr p"
    by (auto simp: build_top_def rbind_def split: sum.splits)
  then have f: "list_all (\<lambda>(k, v). dget TOP_KEYS (norm_key k) \<noteq> None) d" "build_profile (top_values d) = Inr p"
    using fields_of_Inr_iff[of "JObj d" TOP_KEYS "''profile''" vals] by (auto simp: top_values_def list_all_iff)
  have d1: "distinct (dkeys ?d1)" "no_alias ?d1" using assms(2,3) no_alias_dset by (auto intro: distinct_update)
  note g1 = no_alias_get[OF assms(2,3)] and g2 = no_alias_get[OF d1]
  have keys: "''allowed_ports'' \<noteq> ''ui_port''" by simp
  have a: "dget (top_values ?d2) ''allowed_ports'' = Some ?v"
    using g1(1) g2(2) keys by (auto simp: allow_data_def Let_def)
  have o': "dget (top_values ?d2) n = dget (top_values d) n" if "n \<notin> {''allowed_ports'', ''ui_port''}" for n
    using that g1(2) g2(2) by (auto simp: allow_data_def Let_def)
  have "opt_int (top_values d) ''ui_port'' = Inr (ui_port p)" using f(2) by (auto simp: build_profile_def res_iff)
  then have u: "opt_int (top_values ?d2) ''ui_port'' = Inr (if ui then Some port else ui_port p)"
    using g1(2)[of "''allowed_ports''" "''ui_port''"] g2(1)[of "''ui_port''"] keys
    by (auto simp: allow_data_def Let_def opt_int_def int_of_json_def rbind_def)
  have "list_all (\<lambda>(k, v). dget TOP_KEYS (norm_key k) \<noteq> None) ?d2"
    using known_dset[OF known_dset[OF f(1)]] known_dset[OF f(1)] top_keys by (auto simp: allow_data_def Let_def)
  then have "fields_of (JObj ?d2) TOP_KEYS ''profile'' = Inr (top_values ?d2)" by (rule fields_top)
  then show ?thesis
    using build_profile_changed[OF f(2) o' u int_list_back[OF a]] by (simp add: build_top_def rbind_def allow_profile_def)
qed

text \<open>
  A port that was opened survives: the profile file that \<^verbatim>\<open>allow\<close> writes loads as the profile it was checked as, so
  the next \<^verbatim>\<open>use\<close> opens the same port; only the spelling of the two keys matters.
\<close>

theorem allow_survives_reload:
  assumes "load_profile t = Inr p" "loads t = Some (JObj d)" "json_exact (JObj d)" "no_alias d"
  shows "load_profile (dumps (fmt_indent2 False) (JObj (allow_data p port ui d)) @ [CHR 0x0A]) = Inr (allow_profile p port ui)"
proof -
  have d: "distinct (dkeys d)" "\<forall>x \<in> set d. json_exact (snd x)" using assms(3) by auto
  have set: "set (dset k v e) \<subseteq> insert (k, v) (set e)" for k v and e :: "(string \<times> json) list"
    by (induction e) auto
  have j: "json_exact (JObj (dset k v e))" if "json_exact (JObj e)" "json_exact v" for k v e
    using that set[of k v e] by (auto intro: distinct_update)
  have "json_exact (JObj (allow_data p port ui d))"
    by (cases ui) (auto simp: allow_data_def Let_def simp del: json_exact.simps(3) intro!: j assms(3))
  then have "loads (dumps (fmt_indent2 False) (JObj (allow_data p port ui d)) @ [CHR 0x0A]) = Some (JObj (allow_data p port ui d))"
    by (rule loads_dumps_ws) (simp_all add: jws_def)
  moreover have "build_top (JObj d) = Inr p" using assms(1,2) by (simp add: load_profile_def)
  ultimately show ?thesis using allow_data_loads[OF _ d(1) assms(4)] by (simp add: load_profile_def)
qed

section \<open>A command that ends\<close>

text \<open>An action that cannot raise, whatever the state.\<close>

definition total :: "'a act \<Rightarrow> bool" where
  "total m \<longleftrightarrow> (\<forall>w. fst (m w) \<noteq> None)"

lemma total_andthen: "total m \<Longrightarrow> (\<And>x. total (k x)) \<Longrightarrow> total (andthen m k)"
proof -
  assume t: "total m" "\<And>x. total (k x)"
  have "fst (andthen m k w) \<noteq> None" for w
  proof -
    obtain r w1 where m: "m w = (r, w1)" by (cases "m w")
    then have "r \<noteq> None" using t(1) unfolding total_def by (metis fst_conv)
    then show ?thesis using t(2) unfolding total_def by (auto simp: andthen_def m)
  qed
  then show "total (andthen m k)" by (simp add: total_def)
qed

lemma total_simple: "total (ret x)" "total (docker c args input)" "total (stops c f)" "total (modify g)" "total (start_gitleaks c p name)"
  by (simp_all add: total_def ret_def docker_def stops_def modify_def start_gitleaks_def)

lemma total_if: "total m \<Longrightarrow> total n \<Longrightarrow> total (if b then m else n)"
  by simp

lemma total_artifacts: "total (emit_agent_artifacts c p name t)"
  unfolding emit_agent_artifacts_def Let_def by (intro total_andthen total_if total_simple)

lemma total_files: "total (write_env e)" "total (write_file path t)" "total (write_manifest c p name m)" "total (stop_active c e)"
  by (simp_all add: write_env_def write_file_def write_manifest_def stop_active_def Let_def total_simple split: option.split)

text \<open>Without services and exposed servers the only process started is the ingress; it starts if the next spawn succeeds.\<close>

definition spawn_ready :: "world \<Rightarrow> bool" where
  "spawn_ready w \<longleftrightarrow> (\<exists>x rest. hs_spawns (w_host w) = Some x # rest)"

lemma spawns_simps [simp]:
  "hs_spawns (kill_tree e pid h) = hs_spawns h" "hs_spawns (write_entries path es h) = hs_spawns h" "hs_spawns (remove_file path h) = hs_spawns h"
  by (simp_all add: kill_tree_def write_entries_def remove_file_def split: option.split)

lemma spawns_stop [simp]: "hs_spawns (stop_recorded e fixed path h) = hs_spawns h"
proof -
  have k: "hs_spawns (kill_owned e fixed en h) = hs_spawns h" for en h by (simp add: kill_owned_def split: prod.split)
  have "hs_spawns (fold (kill_owned e fixed) es h) = hs_spawns h" for es by (induction es arbitrary: h) (simp_all add: k)
  then show ?thesis by (simp add: stop_recorded_def)
qed

lemmas spawn_stops [simp] = stop_ingress_def stop_gateway_procs_def stop_host_services_def

text \<open>Actions that keep the next spawn ready.\<close>

definition keeps_ready :: "'a act \<Rightarrow> bool" where
  "keeps_ready m \<longleftrightarrow> (\<forall>w. spawn_ready w \<longrightarrow> fst (m w) \<noteq> None \<and> spawn_ready (snd (m w)))"

lemma ready_then: "keeps_ready m \<Longrightarrow> spawn_ready w \<Longrightarrow> (\<And>x w1. spawn_ready w1 \<Longrightarrow> fst (k x w1) \<noteq> None) \<Longrightarrow> fst (andthen m k w) \<noteq> None"
  unfolding keeps_ready_def andthen_def by (cases "m w") (force split: option.split)

lemma ready_simple: "keeps_ready (stops c stop_ingress)" "keeps_ready (stops c stop_gateway_procs)" "keeps_ready (stop_active c e)"
  "keeps_ready (write_env e)" "keeps_ready (write_file path t)" "keeps_ready (write_manifest c p name m)"
  by (simp_all add: keeps_ready_def spawn_ready_def stops_def stop_active_def write_env_def write_file_def write_manifest_def Let_def
      modify_def ret_def split: option.split)

lemma total_then: "fst (m w) \<noteq> None \<Longrightarrow> (\<And>x. total (k x)) \<Longrightarrow> fst (andthen m k w) \<noteq> None"
  by (cases "m w"; cases "fst (m w)") (auto simp: total_def andthen_def)

lemma start_ready: "spawn_ready w \<Longrightarrow> fst (on_host c (\<lambda>e. start_ingress e m) w) \<noteq> None"
  by (auto simp: on_host_def spawn_ready_def start_ingress_def start_recorded_def spawn_def Let_def split: prod.split)

lemma restart_ready: "host_services p = [] \<Longrightarrow> keeps_ready (on_host c (\<lambda>e. restart_host_services e (host_services p) name t None))"
  by (simp add: keeps_ready_def spawn_ready_def on_host_def restart_host_services_def)

lemma use_rest_returns:
  assumes "host_services p = []" "exposed_mcps p = []" "spawn_ready w"
  shows "fst (use_rest c name base p env0 w) \<noteq> None"
proof -
  have i: "fst (restart_ingress c m w) \<noteq> None" if "spawn_ready w" for m w
    unfolding restart_ingress_def
    by (rule ready_then[OF ready_simple(1) that], rule total_then[OF start_ready], assumption) (rule total_simple)
  have u: "fst (use_processes c p name m w) \<noteq> None" if "spawn_ready w" for m w
    unfolding use_processes_def assms(2) simp_thms if_False
    by (rule ready_then[OF restart_ready[OF assms(1)] that], rule ready_then[OF ready_simple(2)], assumption, rule i)
  show ?thesis
    unfolding use_rest_def Let_def
    by (rule ready_then[OF ready_simple(3) assms(3)], rule ready_then[OF ready_simple(4)], assumption,
        rule ready_then[OF ready_simple(5)], assumption, rule ready_then[OF ready_simple(6)], assumption,
        rule total_then[OF u], assumption)
      (intro total_andthen total_if total_simple total_artifacts)
qed

section \<open>Applications\<close>

definition demo_cli :: cli_os where
  "demo_cli = \<lparr>co_os = demo_os, co_dirs = [''/p''], co_home = ''/opt/home'', co_exists = (\<lambda>_. True), co_isdir = (\<lambda>_. False),
     co_glob = (\<lambda>_. None), co_md5 = (\<lambda>_. ''0''), co_url = (\<lambda>_. ''https://x''), co_docker = (\<lambda>_ _. 0), co_texts = ([], [])\<rparr>"

definition demo_text :: string where
  "demo_text = dumps (fmt_indent2 False) sample_data @ [CHR 0x0A]"

definition demo_env_text :: string where
  "demo_env_text = ''INGRESS_TOKEN=t0ken'' @ [CHR 0x0A] @ ''ACTIVE_PROFILE=app'' @ [CHR 0x0A]"

definition demo_world :: world where
  "demo_world = \<lparr>w_env = Some demo_env_text, w_files = [(''/p/app.json'', demo_text)],
     w_host = \<lparr>hs_procs = [], hs_files = [], hs_spawns = [Some (5, ''1.5'', [])], hs_spawned = [], hs_killed = []\<rparr>,
     w_environ = [], w_docker = []\<rparr>"

lemma demo_env: "ef_inv (ef_load (w_env demo_world))" "ef_get (ef_load (w_env demo_world)) ''INGRESS_TOKEN'' = Some ''t0ken''"
  "ef_get (ef_load (w_env demo_world)) ''ACTIVE_PROFILE'' = Some ''app''"
proof -
  have w: "w_env demo_world = Some demo_env_text" by (simp add: demo_world_def)
  show "ef_inv (ef_load (w_env demo_world))" "ef_get (ef_load (w_env demo_world)) ''INGRESS_TOKEN'' = Some ''t0ken''"
    "ef_get (ef_load (w_env demo_world)) ''ACTIVE_PROFILE'' = Some ''app''"
    unfolding w by code_simp+
qed

lemma demo_loads: "loads demo_text = Some sample_data"
proof -
  have "json_exact sample_data" by code_simp
  then show ?thesis unfolding demo_text_def by (rule loads_dumps_ws) (simp_all add: jws_def)
qed

lemma demo_profile:
  obtains p where "load_profile demo_text = Inr p" "valid_profile (\<lambda>_. True) p" "host_services p = []" "runner_commands p = []"
    "exposed_mcps p = []" "\<not> allow_refused p 3005" "valid_profile (\<lambda>_. True) (allow_profile p 3005 False)"
proof -
  have "case build_top sample_data of Inl _ \<Rightarrow> False | Inr p \<Rightarrow> valid_profile (\<lambda>_. True) p \<and> host_services p = [] \<and> runner_commands p = [] \<and>
      exposed_mcps p = [] \<and> \<not> allow_refused p 3005 \<and> valid_profile (\<lambda>_. True) (allow_profile p 3005 False)"
    by code_simp
  then show ?thesis using that by (auto simp: load_profile_def demo_loads split: sum.splits)
qed

lemma demo_paths:
  "find_path demo_cli demo_world ''app'' = Some ''/p/app.json''" "dget_or (w_files demo_world) ''/p/app.json'' [] = demo_text"
  "co_exists demo_cli = (\<lambda>_. True)" "spawn_ready demo_world" "hs_spawned (w_host demo_world) = []"
  by (simp_all add: find_path_def find_profile_def profile_file_def path_join_def demo_cli_def demo_world_def has_key_def dget_or_def
      spawn_ready_def starts_with_def ends_with_def)

lemma apply_use_returns:
  assumes "find_path c w name = Some path" "name_ok name" "load_path w path = Inr p" "valid_profile (co_exists c) p"
    and "host_services p = []" "runner_commands p = []" "exposed_mcps p = []" "spawn_ready w" "hs_spawned (w_host w) = []"
  shows "\<exists>rc w'. apply_use c name w = (Some rc, w') \<and> w' \<noteq> w"
proof -
  have u: "apply_use c name w = use_valid c name p w"
    using assms(1-4) by (auto simp: apply_use_def valid_profile_def split: option.splits)
  let ?w1 = "w\<lparr>w_environ := ddel ''RUNNER_CONFIG'' (w_environ w)\<rparr>"
  have "use_valid c name p w = use_rest c name p p (ef_load (w_env w)) ?w1"
    by (simp add: use_valid_def andthen_def with_runner_def assms(6))
  moreover have "spawn_ready ?w1" using assms(8) by (simp add: spawn_ready_def)
  ultimately obtain rc w' where r: "use_valid c name p w = (Some rc, w')"
    using use_rest_returns[OF assms(5,7), of ?w1 c name p "ef_load (w_env w)"]
    by (cases "use_valid c name p w") (metis fst_conv not_None_eq)
  moreover have "w' \<noteq> w" using use_valid_ingress[OF r] assms(9) by (auto simp: ingress_runs_def)
  ultimately show ?thesis using u by auto
qed

theorem use_runs_policy_witness:
  "\<exists>rc w' p cfg. apply_use demo_cli ''app'' demo_world = (Some rc, w') \<and> load_profile demo_text = Inr p \<and>
     ingress_runs demo_cli (Inr (8799, cfg)) (w_host w') \<and> cfg_token cfg = ''t0ken'' \<and>
     is_port_allowed (cfg_policy cfg) 3000 = is_port_allowed (compute_port_policy p) 3000"
proof -
  obtain p where p: "load_profile demo_text = Inr p" "valid_profile (\<lambda>_. True) p" "host_services p = []" "runner_commands p = []" "exposed_mcps p = []"
    by (rule demo_profile) blast
  have n: "name_ok ''app''" by code_simp
  have l: "load_path demo_world ''/p/app.json'' = Inr p" using p(1) by (simp add: load_path_def demo_paths(2))
  obtain rc w' where r: "apply_use demo_cli ''app'' demo_world = (Some rc, w')" "w' \<noteq> demo_world"
    using apply_use_returns[OF demo_paths(1) n l p(2)[folded demo_paths(3)] p(3-5) demo_paths(4,5)] by blast
  from use_runs_policy[OF r demo_env(1,2)] obtain path q cfg where
    "find_path demo_cli demo_world ''app'' = Some path" "load_path demo_world path = Inr q" "ingress_runs demo_cli (Inr (8799, cfg)) (w_host w')"
    "cfg_token cfg = ''t0ken''" "is_port_allowed (cfg_policy cfg) 3000 = is_port_allowed (compute_port_policy q) 3000"
    by auto
  then show ?thesis using r l p(1) demo_paths(1) by auto
qed

lemma restart_ingress_returns: "spawn_ready w \<Longrightarrow> \<exists>w'. restart_ingress c m w = (Some (), w')"
proof -
  assume "spawn_ready w"
  then have "fst (restart_ingress c m w) \<noteq> None"
    unfolding restart_ingress_def
    by (rule ready_then[OF ready_simple(1)], intro total_then[OF start_ready]) (simp_all add: total_simple)
  then show ?thesis by (cases "restart_ingress c m w") auto
qed

lemma allow_apply_returns:
  assumes "valid_profile (co_exists c) (allow_profile p port ui)" "spawn_ready w"
  shows "\<exists>w'. allow_apply c active path p port ui (JObj d) w = (Some 0, w')"
proof -
  obtain ps where v: "validate (co_exists c) (allow_profile p port ui) = Some ps" "list_all is_warn ps"
    using assms(1) by (auto simp: valid_profile_def split: option.splits)
  let ?p = "allow_profile p port ui"
  let ?m = "ef_as_map (apply_fields (allow_fields ?p port ui) (ef_load (w_env w)))"
  let ?w1 = "w\<lparr>w_env := Some (ef_render (apply_fields (allow_fields ?p port ui) (ef_load (w_env w)))),
      w_files := dset (manifest_path c) (dumps (fmt_indent2 False) (build_manifest (with_runner_service (oe_runtime (co_os c)) ?p) active
      (co_url c ?m) (mode (with_runner_service (oe_runtime (co_os c)) ?p))))
      (dset path (dumps (fmt_indent2 False) (JObj (allow_data p port ui d)) @ [CHR 0x0A]) (w_files w))\<rparr>"
  have "spawn_ready ?w1" using assms(2) by (simp add: spawn_ready_def)
  from restart_ingress_returns[OF this, of c ?m] show ?thesis
    by (fastforce simp: allow_apply_def Let_def v andthen_def ret_def write_file_def write_env_def write_manifest_def modify_def)
qed

theorem allow_opens_exactly_witness:
  "\<exists>w' p cfg. cli_allow demo_cli 3005 False demo_world = (Some 0, w') \<and> load_profile demo_text = Inr p \<and>
     ingress_runs demo_cli (Inr (8799, cfg)) (w_host w') \<and> cfg_token cfg = ''t0ken'' \<and>
     is_port_allowed (cfg_policy cfg) 3006 = is_port_allowed (compute_port_policy p) 3006"
proof -
  obtain p where p: "load_profile demo_text = Inr p" "\<not> allow_refused p 3005" "valid_profile (\<lambda>_. True) (allow_profile p 3005 False)"
    by (rule demo_profile) blast
  have l: "load_path demo_world ''/p/app.json'' = Inr p" using p(1) by (simp add: load_path_def demo_paths(2))
  obtain d where d: "loads demo_text = Some (JObj d)" by (simp add: demo_loads sample_data_def)
  have v: "valid_profile (co_exists demo_cli) (allow_profile p 3005 False)" using p(3) by (simp add: demo_paths(3))
  obtain w' where w': "allow_apply demo_cli ''app'' ''/p/app.json'' p 3005 False (JObj d) demo_world = (Some 0, w')"
    using allow_apply_returns[OF v demo_paths(4)] by blast
  then have r: "cli_allow demo_cli 3005 False demo_world = (Some 0, w')"
    by (simp add: cli_allow_def demo_env(3) demo_paths(1,2) l p(2) d Let_def COCKPIT_PORT_def)
  obtain path q cfg where "load_path demo_world path = Inr q" "ingress_runs demo_cli (Inr (8799, cfg)) (w_host w')"
    "cfg_token cfg = ''t0ken''" "\<forall>x. is_port_allowed (cfg_policy cfg) x \<longleftrightarrow> is_port_allowed (compute_port_policy q) x \<or>
       x = 3005 \<and> 3005 - 1 \<notin> set (self_authed (compute_port_policy q))"
    using allow_opens_exactly[OF r demo_env(1,2)] by auto
  moreover from this(1) have "q = p"
  proof (cases "path = ''/p/app.json''")
    case False
    then have "dget_or (w_files demo_world) path [] = []" by (simp add: demo_world_def dget_or_def)
    moreover have "isl (load_profile [])" by code_simp
    ultimately show "load_path demo_world path = Inr q \<Longrightarrow> q = p" by (auto simp: load_path_def)
  qed (simp add: l)
  ultimately show ?thesis using r p(1) by auto
qed

definition plain_data :: json where
  "plain_data = JObj [(''ProjectDir'', JStr ''/srv/app''), (''allowed_ports'', JArr [JInt 3000]), (''GitName'', JStr ''dev'')]"

end
