(* ===== verification/Handover.thy ===== *)
theory Handover
  imports Cli
begin

text \<open>
  What a change of profile means to the other parts: the watchdog that was started for the old profile
  (\<^verbatim>\<open>home/rdm/watchdog.py\<close> keeps the variables it was started with), and the runner that reads the
  configuration written by \<^verbatim>\<open>home/rdm/cli.py\<close>.
\<close>

section \<open>Pid files\<close>

definition under_tmp :: "os_env \<Rightarrow> string" where
  "under_tmp e = (if oe_tempdir e = [] then [] else if ends_with ''/'' (oe_tempdir e) then oe_tempdir e else oe_tempdir e @ ''/'')"

lemma path_join_plain: "\<not> starts_with ''/'' b \<Longrightarrow> a \<noteq> [] \<Longrightarrow> \<not> ends_with ''/'' a \<Longrightarrow> path_join a b = a @ ''/'' @ b"
  by (simp add: path_join_def)

lemma ends_slash: "ends_with ''/'' (xs @ [x]) \<longleftrightarrow> x = CHR ''/''"
  by (auto simp: ends_with_def)

lemma under_eq:
  assumes "\<not> starts_with ''/'' dir" "\<not> starts_with ''/'' f" "dir = d0 @ [x]" "x \<noteq> CHR ''/''"
  shows "under e dir f = under_tmp e @ dir @ ''/'' @ f"
proof -
  have d: "path_join (oe_tempdir e) dir = under_tmp e @ dir" using assms(1) by (simp add: path_join_def under_tmp_def)
  have "under_tmp e @ dir = (under_tmp e @ d0) @ [x]" by (simp add: assms(3))
  then have "\<not> ends_with ''/'' (under_tmp e @ dir)" using assms(4) by (simp only: ends_slash not_False_eq_True)
  then show ?thesis using assms(2,3) unfolding under_def d by (simp add: path_join_plain)
qed

lemma name_ok_plain: "name_ok n \<Longrightarrow> \<not> starts_with ''/'' (n @ s)"
proof -
  assume "name_ok n"
  then obtain ch r where n: "n = ch # r" "is_word ch \<or> ch = CHR ''.'' \<or> ch = CHR ''-''" by (cases n) (auto simp: name_ok_def)
  have "\<not> is_word (CHR ''/'')" by code_simp
  then have "ch \<noteq> CHR ''/''" using n(2) by auto
  then show ?thesis by (simp add: n(1) starts_with_iff)
qed

lemma pid_paths:
  "name_ok a \<Longrightarrow> pids_path e a = under_tmp e @ ''rdm-host'' @ ''/'' @ a @ ''-pids.txt''"
  "gateway_pids_path e = under_tmp e @ ''rdm-gateway'' @ ''/'' @ ''pids.txt''"
  "ingress_pids_path e = under_tmp e @ ''rdm-ingress'' @ ''/'' @ ''pids.txt''"
proof -
  have st: "\<not> starts_with ''/'' ''rdm-host''" "\<not> starts_with ''/'' ''rdm-gateway''" "\<not> starts_with ''/'' ''rdm-ingress''"
    "\<not> starts_with ''/'' ''pids.txt''" by code_simp+
  show "name_ok a \<Longrightarrow> pids_path e a = under_tmp e @ ''rdm-host'' @ ''/'' @ a @ ''-pids.txt''"
    unfolding pids_path_def by (rule under_eq[of _ _ "''rdm-hos''" "CHR ''t''"]) (simp_all only: st name_ok_plain, simp_all)
  show "gateway_pids_path e = under_tmp e @ ''rdm-gateway'' @ ''/'' @ ''pids.txt''"
    unfolding gateway_pids_path_def by (rule under_eq[of _ _ "''rdm-gatewa''" "CHR ''y''"]) (simp_all only: st, simp_all)
  show "ingress_pids_path e = under_tmp e @ ''rdm-ingress'' @ ''/'' @ ''pids.txt''"
    unfolding ingress_pids_path_def by (rule under_eq[of _ _ "''rdm-ingres''" "CHR ''s''"]) (simp_all only: st, simp_all)
qed

lemma pid_paths_differ:
  assumes "name_ok a"
  shows "pids_path e a \<noteq> gateway_pids_path e" "pids_path e a \<noteq> ingress_pids_path e"
    "name_ok b \<Longrightarrow> a \<noteq> b \<Longrightarrow> pids_path e a \<noteq> pids_path e b"
  by (simp_all add: pid_paths(1)[OF assms] pid_paths)

text \<open>The files under the operations on processes.\<close>

lemma files_simps [simp]:
  "hs_files (kill_tree e pid h) = hs_files h" "hs_files (snd (spawn e argv env h)) = hs_files h"
  by (auto simp: kill_tree_def spawn_def Let_def split: option.split list.split)

lemma files_free [simp]: "hs_files (free_port e port h) = hs_files h"
  by (simp add: free_port_def split: option.split)

lemma files_fold: "(\<And>x h. hs_files (f x h) = hs_files h) \<Longrightarrow> hs_files (fold f xs h) = hs_files h"
  by (induction xs arbitrary: h) simp_all

lemma files_stop: "hs_files (stop_recorded e fixed path h) = ddel path (hs_files h)"
  by (simp add: stop_recorded_def remove_file_def files_fold kill_owned_def split: prod.split)

lemma spawn_files: "spawn e argv env h = (r, h') \<Longrightarrow> hs_files h' = hs_files h"
  using files_simps(2)[of e argv env h] by simp

lemma restart_service_files:
  "restart_service e t px s (es, rep, h) = Some (es', rep', h') \<Longrightarrow> hs_files h' = hs_files h"
  by (auto simp: restart_service_def restart_proxy_def Let_def files_fold split: option.splits prod.splits if_splits dest!: spawn_files)

lemma restart_services_files:
  "restart_services e t px ss (es, rep, h) = Inr (es', rep', h') \<Longrightarrow> hs_files h' = hs_files h"
proof (induction ss arbitrary: es rep h)
  case (Cons s ss)
  then obtain es1 rep1 h1 where "restart_service e t px s (es, rep, h) = Some (es1, rep1, h1)"
    "restart_services e t px ss (es1, rep1, h1) = Inr (es', rep', h')" by (auto split: option.splits)
  then show ?case using Cons.IH restart_service_files by metis
qed simp

text \<open>Operations that do not bring back the pid file of a profile.\<close>

definition keeps_gone :: "string \<Rightarrow> 'a act \<Rightarrow> bool" where
  "keeps_gone path m \<longleftrightarrow> ensures (\<lambda>w. dget (hs_files (w_host w)) path = None) m (\<lambda>_ w. dget (hs_files (w_host w)) path = None)"

lemma gone_andthen: "keeps_gone path m \<Longrightarrow> (\<And>x. keeps_gone path (k x)) \<Longrightarrow> keeps_gone path (andthen m k)"
  unfolding keeps_gone_def by (rule ensures_andthen)

lemma gone_simple: "keeps_gone path (ret x)" "keeps_gone path (docker c args input)" "keeps_gone path (write_env e)"
  "keeps_gone path (write_file q t)" "keeps_gone path (write_manifest c p name m)" "keeps_gone path (start_gitleaks c p name)"
  by (simp_all add: keeps_gone_def ensures_def ret_def docker_def write_env_def write_file_def write_manifest_def modify_def
      start_gitleaks_def Let_def)

lemma gone_stops: "keeps_gone path (stops c stop_ingress)" "keeps_gone path (stops c stop_gateway_procs)"
  by (simp_all add: keeps_gone_def ensures_def stops_def files_stop)

lemma gone_if: "keeps_gone path m \<Longrightarrow> keeps_gone path n \<Longrightarrow> keeps_gone path (if b then m else n)"
  by simp

lemma gone_artifacts: "keeps_gone path (emit_agent_artifacts c p name t)"
  unfolding emit_agent_artifacts_def Let_def by (intro gone_andthen gone_if gone_simple)

lemma gone_ingress:
  assumes "path \<noteq> ingress_pids_path (co_os c)"
  shows "keeps_gone path (restart_ingress c m)"
proof -
  have "keeps_gone path (on_host c (\<lambda>e. start_ingress e (ingress_env m (manifest_path c))))"
    unfolding keeps_gone_def
    by (rule ensures_on_host) (use assms in \<open>auto simp: start_ingress_def start_recorded_def write_entries_def files_stop
        split: prod.splits option.splits dest!: spawn_files\<close>)
  then show ?thesis unfolding restart_ingress_def by (intro gone_andthen gone_stops gone_simple)
qed

lemma gone_gateway:
  assumes "path \<noteq> gateway_pids_path (co_os c)"
  shows "keeps_gone path (start_mcp_gateway c p t)"
proof -
  have "keeps_gone path (on_host c (\<lambda>e. start_gateway e (gateway_port p) t))"
    unfolding keeps_gone_def
    by (rule ensures_on_host) (use assms in \<open>auto simp: start_gateway_def Let_def write_entries_def files_stop
        split: prod.splits option.splits dest!: spawn_files\<close>)
  then show ?thesis unfolding start_mcp_gateway_def by (intro gone_andthen gone_simple)
qed

lemma gone_restart:
  assumes "path \<noteq> pids_path (co_os c) name"
  shows "keeps_gone path (on_host c (\<lambda>e. restart_host_services e ss name t px))"
  unfolding keeps_gone_def
  by (rule ensures_on_host) (use assms in \<open>auto simp: restart_host_services_def write_entries_def files_stop
      split: sum.splits dest!: restart_services_files\<close>)

section \<open>The watchdog after a change of profile\<close>

text \<open>
  C40. \<^verbatim>\<open>use\<close> does not reach a running watchdog: after a change from one profile to another, the watchdog that was
  started for the old one, which keeps that name, finds its services stale whenever the old profile
  has any, so at its next turn it starts the services of the old profile again.
\<close>

theorem watchdog_revives_old_profile:
  assumes "apply_use c name w = (Some rc, w')" "w' \<noteq> w"
    and "ef_get (ef_load (w_env w)) ''ACTIVE_PROFILE'' = Some old" "name_ok old" "old \<noteq> name"
  shows "services_stale (os_of c w') old (Some ss) (w_host w') \<longleftrightarrow> ss \<noteq> []"
proof -
  let ?path = "pids_path (co_os c) old"
  obtain path p where u: "name_ok name" "use_valid c name p w = (Some rc, w')"
    using apply_use_cases[of c name w] assms(1,2) by (metis snd_conv)
  note differ = pid_paths_differ(1,2)[OF assms(4), where e = "co_os c"] pid_paths_differ(3)[OF assms(4) u(1) assms(5), where e = "co_os c"]
  let ?p = "with_runner_service (oe_runtime (co_os c)) p"
  obtain w1 where w1: "with_runner c p name w = (Some ?p, w1)" using with_runner_eq by blast
  have r: "use_rest c name p ?p (ef_load (w_env w)) w1 = (Some rc, w')"
    using u(2) with_runner_eq[of c p name w] by (auto simp: use_valid_def andthen_def w1)
  have a: "old \<noteq> []" using assms(4) by (auto simp: name_ok_def)
  have stop: "ensures P (stop_active c (ef_load (w_env w))) (\<lambda>_ w. dget (hs_files (w_host w)) ?path = None)" for P
    by (simp add: stop_active_def assms(3) a ensures_def stops_def files_stop)
  have "keeps_gone ?path (use_processes c ?p name m)" for m
    unfolding use_processes_def
    by (intro gone_andthen gone_if gone_stops gone_restart gone_gateway gone_ingress) (use differ in auto)
  then have rest: "ensures P (use_rest c name p ?p (ef_load (w_env w))) (\<lambda>_ w. dget (hs_files (w_host w)) ?path = None)" for P
    unfolding use_rest_def Let_def
    by (intro ensures_andthen[OF stop] gone_andthen[unfolded keeps_gone_def])
      (auto intro!: gone_andthen[unfolded keeps_gone_def] gone_if[unfolded keeps_gone_def] gone_simple[unfolded keeps_gone_def]
        gone_artifacts[unfolded keeps_gone_def] simp: keeps_gone_def)
  from ensuresD[OF rest r, of "\<lambda>_. True"] have "dget (hs_files (w_host w')) ?path = None" by simp
  then show ?thesis by (simp add: services_stale_def host_services_dead_def host_services_recorded_def read_entries_def)
qed

theorem watchdog_revives_old_profile_witness:
  "\<exists>rc w' w. apply_use demo_cli ''new'' w = (Some rc, w') \<and> ef_get (ef_load (w_env w)) ''ACTIVE_PROFILE'' = Some ''app'' \<and>
     services_stale (os_of demo_cli w') ''app'' (Some [demo_service]) (w_host w')"
proof -
  let ?w = "demo_world\<lparr>w_files := [(''/p/new.json'', demo_text)]\<rparr>"
  obtain p where p: "load_profile demo_text = Inr p" "valid_profile (\<lambda>_. True) p" "host_services p = []" "runner_commands p = []" "exposed_mcps p = []"
    by (rule demo_profile) blast
  have n: "name_ok ''new''" "name_ok ''app''" by code_simp+
  have f: "find_path demo_cli ?w ''new'' = Some ''/p/new.json''"
    by (simp add: find_path_def find_profile_def profile_file_def path_join_def demo_cli_def has_key_def starts_with_def ends_with_def)
  have l: "load_path ?w ''/p/new.json'' = Inr p" using p(1) by (simp add: load_path_def dget_or_def)
  have s: "spawn_ready ?w" "hs_spawned (w_host ?w) = []" using demo_paths(4,5) by (simp_all add: spawn_ready_def)
  obtain rc w' where r: "apply_use demo_cli ''new'' ?w = (Some rc, w')" "w' \<noteq> ?w"
    using apply_use_returns[OF f n(1) l p(2)[folded demo_paths(3)] p(3-5) s] by blast
  have e: "ef_get (ef_load (w_env ?w)) ''ACTIVE_PROFILE'' = Some ''app''" using demo_env(3) by simp
  have "services_stale (os_of demo_cli w') ''app'' (Some [demo_service]) (w_host w')"
    using watchdog_revives_old_profile[OF r e n(2)] by simp
  then show ?thesis using r(1) e by blast
qed

section \<open>From the profile to the runner\<close>

lemma lower_keys:
  "map lower [''name'', ''cmd'', ''description'', ''args'', ''background'', ''port'', ''timeout''] =
     [''name'', ''cmd'', ''description'', ''args'', ''background'', ''port'', ''timeout'']"
  by code_simp

lemma norm_keys_id: "list_all (\<lambda>k. lower k = k) (dkeys d) \<Longrightarrow> distinct (dkeys d) \<Longrightarrow> norm_keys d = d"
proof -
  have "fold (\<lambda>(k, v). dset (lower k) v) d e = e @ d" if "list_all (\<lambda>k. lower k = k) (dkeys d)" "distinct (dkeys (e @ d))" for e
    using that
  proof (induction d arbitrary: e)
    case (Cons x d)
    obtain k v where x: "x = (k, v)" by (cases x)
    have "dset k v e = e @ [(k, v)]" using Cons.prems(2) by (induction e) (auto simp: x)
    then show ?case using Cons by (simp add: x)
  qed simp
  then show "list_all (\<lambda>k. lower k = k) (dkeys d) \<Longrightarrow> distinct (dkeys d) \<Longrightarrow> norm_keys d = d" by (simp add: norm_keys_def)
qed

definition arg_json :: "arg_spec \<Rightarrow> json" where
  "arg_json a = JObj [(''type'', JStr (as_type a)), (''position'', JStr (as_position a))]"

definition args_dict :: "runner_command \<Rightarrow> (string \<times> json) list" where
  "args_dict c = fold (\<lambda>(n, a). dset n (arg_json a)) (rc_args c) []"

lemma set_dset_sub: "set (dset k v d) \<subseteq> insert (k, v) (set d)"
  by (induction d) auto

lemma args_dict_set: "x \<in> set (args_dict c) \<Longrightarrow> \<exists>a. snd x = arg_json a \<and> (fst x, a) \<in> set (rc_args c)"
proof -
  have "\<exists>a. snd x = arg_json a \<and> (fst x, a) \<in> set as" if "x \<in> set (fold (\<lambda>(n, a). dset n (arg_json a)) as d)" "x \<notin> set d" for as d
    using that
  proof (induction as arbitrary: d)
    case (Cons y as)
    obtain n a where y: "y = (n, a)" by (cases y)
    show ?case
    proof (cases "x \<in> set (dset n (arg_json a) d)")
      case True
      then have "x = (n, arg_json a)" using set_dset_sub[of n "arg_json a" d] Cons.prems(2) by auto
      then show ?thesis by (auto simp: y)
    qed (use Cons y in auto)
  qed simp
  then show "x \<in> set (args_dict c) \<Longrightarrow> \<exists>a. snd x = arg_json a \<and> (fst x, a) \<in> set (rc_args c)" by (simp add: args_dict_def)
qed

lemma runner_json_eq:
  "runner_json c = JObj [(''name'', JStr (rc_name c)), (''cmd'', JArr (map JStr (rc_cmd c))), (''description'', JStr (rc_description c)),
     (''args'', JObj (args_dict c)), (''background'', JBool (rc_background c)), (''port'', opt_json (rc_port c)),
     (''timeout'', opt_json (rc_timeout c))]"
  by (simp add: runner_json_def args_dict_def arg_json_def)

lemma norm_arg: "norm_dict (arg_json a) = Some [(''type'', JStr (as_type a)), (''position'', JStr (as_position a))]"
proof -
  have "map lower [''type'', ''position''] = [''type'', ''position'']" by code_simp
  then show ?thesis by (simp add: norm_dict_def arg_json_def norm_keys_id)
qed

lemma those_map_id: "(\<And>x. x \<in> set xs \<Longrightarrow> f x = Some x) \<Longrightarrow> those (map f xs) = Some xs"
  by (induction xs) simp_all

definition command_spec :: "runner_command \<Rightarrow> spec" where
  "command_spec c = [(''name'', JStr (rc_name c)), (''cmd'', JArr (map JStr (rc_cmd c))), (''description'', JStr (rc_description c)),
     (''args'', JObj (args_dict c)), (''background'', JBool (rc_background c)), (''port'', opt_json (rc_port c)),
     (''timeout'', opt_json (rc_timeout c))]"

definition script_spec :: "script \<Rightarrow> spec" where
  "script_spec s = [(''name'', JStr (sp_name s)), (''cmd'', JArr (map JStr (sp_cmd s))), (''description'', JStr (sp_description s))]"

lemma norm_command: "Option.bind (norm_dict (runner_json c)) norm_args = Some (command_spec c)"
proof -
  have "norm_keys (command_spec c) = command_spec c"
    by (rule norm_keys_id) (use lower_keys in \<open>simp_all add: command_spec_def\<close>)
  then have n: "norm_dict (runner_json c) = Some (command_spec c)" by (simp add: runner_json_eq norm_dict_def flip: command_spec_def)
  have "those (map (\<lambda>(k, v). map_option (\<lambda>a. (k, JObj a)) (norm_dict v)) (args_dict c)) = Some (args_dict c)"
  proof (rule those_map_id)
    fix x assume "x \<in> set (args_dict c)"
    then obtain a where "snd x = arg_json a" using args_dict_set by blast
    then show "(case x of (k, v) \<Rightarrow> map_option (\<lambda>a. (k, JObj a)) (norm_dict v)) = Some x"
      by (cases x) (simp add: norm_arg arg_json_def[symmetric] flip: arg_json_def)
  qed
  moreover have "spec_args (command_spec c) = Some (args_dict c)" by (simp add: spec_args_def obj_get_def command_spec_def)
  moreover have "dset ''args'' (JObj (args_dict c)) (command_spec c) = command_spec c" by (simp add: command_spec_def)
  ultimately show ?thesis by (simp add: n norm_args_def)
qed

lemma norm_script: "norm_dict (runner_script_json s) = Some (script_spec s)"
proof -
  have "norm_keys (script_spec s) = script_spec s"
    by (rule norm_keys_id) (use lower_keys in \<open>simp_all add: script_spec_def\<close>)
  then show ?thesis by (simp add: runner_script_json_def norm_dict_def flip: script_spec_def)
qed

lemma those_member: "those ms = Some xs \<Longrightarrow> x \<in> set xs \<Longrightarrow> Some x \<in> set ms"
proof (induction ms arbitrary: xs)
  case (Cons m ms)
  then obtain y ys where "m = Some y" "those ms = Some ys" "xs = y # ys" by (auto split: option.splits)
  then show ?case using Cons.IH[of ys] Cons.prems(2) by auto
qed simp

text \<open>The specifications that the runner works with are the ones of the profile.\<close>

lemma registered_specs:
  assumes "runner_config p name = JObj cfg" "register_all to_int deflt cfg = Some tools" "(tname, RunTool n sp t) \<in> set tools"
  shows "(\<exists>c \<in> set (runner_commands p). sp = command_spec c \<and> n = rc_name c \<and> tname = runner_tool_name n) \<or>
    (\<exists>s \<in> set (scripts p). sp = script_spec s \<and> n = ''script:'' @ sp_name s \<and> tname = runner_tool_name n)"
proof -
  have cfg: "cfg = [(''profile'', JStr name), (''cwd'', JStr (project_dir p)), (''commands'', JArr (map runner_json (runner_commands p))),
       (''scripts'', JArr (map runner_script_json (scripts p)))]"
    using assms(1) by (simp add: runner_config_def)
  let ?ms = "map (command_tools to_int deflt) (map runner_json (runner_commands p)) @
      map (script_tools to_int deflt) (map runner_script_json (scripts p))"
  from assms(2) obtain tss where tss: "those ?ms = Some tss" "tools = concat tss"
    by (auto simp: register_all_def cfg dget_or_def json_items_def)
  from assms(3) obtain ts where ts: "(tname, RunTool n sp t) \<in> set ts" "Some ts \<in> set ?ms"
    using those_member[OF tss(1)] by (auto simp: tss(2))
  from ts(2) consider c where "c \<in> set (runner_commands p)" "command_tools to_int deflt (runner_json c) = Some ts"
    | s where "s \<in> set (scripts p)" "script_tools to_int deflt (runner_script_json s) = Some ts"
    by (auto simp: image_iff)
  then show ?thesis
  proof cases
    case 1
    then have "add_tools to_int [] deflt (command_spec c) = Some ts" by (simp add: command_tools_def norm_command)
    then have "sp = command_spec c \<and> n = rc_name c \<and> tname = runner_tool_name n"
      using ts(1) by (auto simp: add_tools_def obj_get_def command_spec_def split: option.splits if_splits)
    then show ?thesis using 1(1) by blast
  next
    case 2
    then have "add_tools to_int ''script:'' deflt (script_spec s) = Some ts" by (simp add: script_tools_def norm_script)
    then have "sp = script_spec s \<and> n = ''script:'' @ sp_name s \<and> tname = runner_tool_name n"
      using ts(1) by (auto simp: add_tools_def obj_get_def script_spec_def split: option.splits if_splits)
    then show ?thesis using 2(1) by blast
  qed
qed

lemma valid_head:
  assumes "valid_profile exists p" "c \<in> set (runner_commands p)"
  shows "rc_cmd c \<noteq> []" "hd (rc_cmd c) \<notin> set (map (placeholder \<circ> fst) (args_dict c))"
proof -
  have "\<forall>(i, c) \<in> set (enum1 (runner_commands p)). list_all is_warn (v_command (i, c))"
    using valid_profile_sections(2)[OF assms(1)] by (auto simp: v_commands_def warn)
  then have v: "\<forall>(i, c) \<in> set (enum1 (runner_commands p)). rc_cmd c \<noteq> [] \<and>
      (\<forall>(n, a) \<in> set (rc_args c). hd (rc_cmd c) \<noteq> CHR 0x7B # n @ [CHR 0x7D])"
    by (fastforce simp: v_command_def warn split: if_splits)
  then have "\<forall>c \<in> set (runner_commands p). rc_cmd c \<noteq> [] \<and>
      (\<forall>(n, a) \<in> set (rc_args c). hd (rc_cmd c) \<noteq> CHR 0x7B # n @ [CHR 0x7D])"
    by (simp only: enum1_all)
  then have c: "rc_cmd c \<noteq> []" "\<forall>(n, a) \<in> set (rc_args c). hd (rc_cmd c) \<noteq> CHR 0x7B # n @ [CHR 0x7D]"
    using assms(2) by auto
  then show "rc_cmd c \<noteq> []" by simp
  show "hd (rc_cmd c) \<notin> set (map (placeholder \<circ> fst) (args_dict c))"
    using c(2) args_dict_set[of _ c] by (fastforce simp: placeholder_def)
qed

lemma spec_elements: "json_elements repr (JArr (map JStr xs)) = Some xs"
  by (simp add: json_elements_def json_text_def o_def)


text \<open>A profile with a command that takes an argument, one in the background and one whose name is the other's kill tool.\<close>

definition tools_profile :: profile where
  "tools_profile = sample_profile\<lparr>runner_commands :=
     [\<lparr>rc_name = ''dev'', rc_cmd = [''vite''], rc_description = [], rc_args = [], rc_background = True, rc_port = Some 5180, rc_timeout = None\<rparr>,
      \<lparr>rc_name = ''dev-kill'', rc_cmd = [''pkill'', ''{what}''], rc_description = [],
        rc_args = [(''what'', \<lparr>as_type = ''str'', as_position = ''template''\<rparr>)], rc_background = False, rc_port = None, rc_timeout = Some 60\<rparr>]\<rparr>"

lemma tools_profile_valid: "valid_profile (\<lambda>_. True) tools_profile"
  by code_simp

definition int_of_number :: "json \<Rightarrow> int option" where
  "int_of_number j = (case j of JInt i \<Rightarrow> Some i | _ \<Rightarrow> None)"

lemma tools_registered:
  obtains cfg tools where "runner_config tools_profile ''app'' = JObj cfg" "register_all int_of_number 900 cfg = Some tools"
    "(''run_dev_kill'', RunTool ''dev-kill'' (command_spec (runner_commands tools_profile ! 1)) 60) \<in> set tools"
    "map fst tools = [''run_dev'', ''run_dev_kill'', ''run_dev_kill'', ''run_script_lint'']"
proof -
  have "case runner_config tools_profile ''app'' of JObj cfg \<Rightarrow>
      (case register_all int_of_number 900 cfg of
         Some tools \<Rightarrow> (''run_dev_kill'', RunTool ''dev-kill'' (command_spec (runner_commands tools_profile ! 1)) 60) \<in> set tools \<and>
           map fst tools = [''run_dev'', ''run_dev_kill'', ''run_dev_kill'', ''run_script_lint'']
       | None \<Rightarrow> False) | _ \<Rightarrow> False"
    by code_simp
  then show ?thesis using that by (auto split: json.splits option.splits)
qed


text \<open>
  The rule against equal tool names forgets the kill tools: a valid profile can make the runner register two tools
  under one name, here the kill tool of the background command \<^verbatim>\<open>dev\<close> and the run tool of the command \<^verbatim>\<open>dev-kill\<close>.
\<close>

theorem kill_tool_name_taken:
  "valid_profile (\<lambda>_. True) tools_profile \<and>
   (\<exists>cfg tools. runner_config tools_profile ''app'' = JObj cfg \<and> register_all int_of_number 900 cfg = Some tools \<and> \<not> distinct (map fst tools))"
proof
  show "valid_profile (\<lambda>_. True) tools_profile" by (rule tools_profile_valid)
  show "\<exists>cfg tools. runner_config tools_profile ''app'' = JObj cfg \<and> register_all int_of_number 900 cfg = Some tools \<and> \<not> distinct (map fst tools)"
  proof (rule tools_registered)
    fix cfg tools assume t: "runner_config tools_profile ''app'' = JObj cfg" "register_all int_of_number 900 cfg = Some tools"
      "map fst tools = [''run_dev'', ''run_dev_kill'', ''run_dev_kill'', ''run_script_lint'']"
    have "\<not> distinct (map fst tools)" unfolding t(3) by simp
    then show ?thesis using t(1,2) by blast
  qed
qed

end
