(* ===== verification/Actions.thy ===== *)
theory Actions
  imports Jobs AuditChain
begin

text \<open>
  The action queue of the cockpit and of the plugin (\<^verbatim>\<open>home/rdm/ui/control.py\<close>), the reading of the event
  log (\<^verbatim>\<open>read_events\<close> of \<^verbatim>\<open>home/rdm/ui/api.py\<close>) and what is shown of the actions
  (\<^verbatim>\<open>_recent_actions\<close> and \<^verbatim>\<open>action_status\<close> of \<^verbatim>\<open>stitch_devbox/service.py\<close>). The worker thread moves in the atomic steps
  that another thread can see; what an action returns, the clock, the writing of times and \<^verbatim>\<open>str\<close> of a value that is
  not a string are parameters.
\<close>

section \<open>Reading the events\<close>

text \<open>The slice \<^verbatim>\<open>xs[-n:]\<close> for a positive number.\<close>

definition last_n :: "nat \<Rightarrow> 'a list \<Rightarrow> 'a list" where
  "last_n n xs = drop (length xs - n) xs"

definition EVENTS_TAIL_LINES :: nat where
  "EVENTS_TAIL_LINES = 2000"

definition event_of_line :: "string \<Rightarrow> event option" where
  "event_of_line l = (case loads l of Some (JObj d) \<Rightarrow> Some d | _ \<Rightarrow> None)"

text \<open>The text of the events file, or \<^const>\<open>None\<close> when it cannot be read.\<close>

definition read_events :: "string option \<Rightarrow> event list" where
  "read_events text =
     (case text of None \<Rightarrow> []
      | Some t \<Rightarrow> List.map_filter event_of_line (last_n EVENTS_TAIL_LINES (splitlines t)))"

definition events_tail :: "int \<Rightarrow> string option \<Rightarrow> event list" where
  "events_tail limit text = last_n (nat (max 1 (min limit 500))) (read_events text)"

section \<open>The queue\<close>

definition PAYLOAD_CAP_BYTES :: nat where
  "PAYLOAD_CAP_BYTES = 64 * 1024"

text \<open>What the callable does: it returns a number or a dictionary, or raises.\<close>

datatype action_outcome = ReturnedInt int | ReturnedDict "(string, json) dict" | Raised

definition action_payload :: "(string, json) dict \<Rightarrow> (string, json) dict option" where
  "action_payload result =
     (let p = map (\<lambda>(k, v). (k, redact_value v)) result in
      if PAYLOAD_CAP_BYTES < length (utf8 (dumps (fmt_default False) (JObj p))) then None else Some p)"

text \<open>The exit code and the payload of the closing event; \<open>to_int\<close> is \<^verbatim>\<open>int(x)\<close>, which may raise.\<close>

definition action_result :: "(json \<Rightarrow> int option) \<Rightarrow> action_outcome \<Rightarrow> int \<times> (string, json) dict option" where
  "action_result to_int r =
     (case r of
        ReturnedInt i \<Rightarrow> (i, None)
      | ReturnedDict d \<Rightarrow>
          (case to_int (dget_or d ''exit'' (JInt 0)) of
             None \<Rightarrow> (1, None)
           | Some rc \<Rightarrow> (rc, action_payload (filter (\<lambda>(k, v). k \<noteq> ''exit'') d)))
      | Raised \<Rightarrow> (1, None))"

definition started_event :: "json \<Rightarrow> string \<Rightarrow> string \<Rightarrow> event" where
  "started_event ts i name =
     [(''ts'', ts), (''kind'', JStr ''action''), (''job_id'', JStr i), (''tool'', JStr name), (''status'', JStr ''started'')]"

definition finished_event :: "json \<Rightarrow> string \<Rightarrow> string \<Rightarrow> int \<Rightarrow> (string, json) dict option \<Rightarrow> event" where
  "finished_event ts i name rc p =
     [(''ts'', ts), (''kind'', JStr ''action''), (''job_id'', JStr i), (''tool'', JStr name), (''status'', JStr ''finished''),
      (''exit'', JInt rc)] @ (case p of None \<Rightarrow> [] | Some d \<Rightarrow> [(''payload'', JObj d)])"

text \<open>
  Where the worker thread stands in \<^verbatim>\<open>_run\<close>: about to set the current action, to write the first event, to call, to
  clear the current action, to write the last event, to release the lock.
\<close>

datatype phase = Fresh | Named json | Calling | Ran int "(string, json) dict option" | Cleared int "(string, json) dict option" | Closing

record worker =
  wk_id :: string
  wk_name :: string
  wk_phase :: phase

record queue =
  qu_lock :: bool
  qu_current :: "(string \<times> string \<times> json) option"
  qu_workers :: "worker list"
  qu_emits :: "event list"

definition new_queue :: queue where
  "new_queue = \<lparr>qu_lock = False, qu_current = None, qu_workers = [], qu_emits = []\<rparr>"

definition busy :: "queue \<Rightarrow> bool" where
  "busy q = qu_lock q"

text \<open>\<open>i\<close> is the id that \<^verbatim>\<open>token_hex\<close> gives.\<close>

definition submit :: "string \<Rightarrow> string \<Rightarrow> queue \<Rightarrow> string option \<times> queue" where
  "submit i name q =
     (if qu_lock q then (None, q)
      else (Some i, q\<lparr>qu_lock := True, qu_workers := qu_workers q @ [\<lparr>wk_id = i, wk_name = name, wk_phase = Fresh\<rparr>]\<rparr>))"

definition to_phase :: "nat \<Rightarrow> phase \<Rightarrow> queue \<Rightarrow> queue" where
  "to_phase n p q = q\<lparr>qu_workers := (qu_workers q)[n := (qu_workers q ! n)\<lparr>wk_phase := p\<rparr>]\<rparr>"

text \<open>The next step of the \<open>n\<close>th worker; \<open>now\<close> is the clock, \<open>r\<close> what the callable does if it is called now.\<close>

definition worker_step :: "(json \<Rightarrow> int option) \<Rightarrow> json \<Rightarrow> action_outcome \<Rightarrow> nat \<Rightarrow> queue \<Rightarrow> queue" where
  "worker_step to_int now r n q =
     (if length (qu_workers q) \<le> n then q else
      let w = qu_workers q ! n in
      case wk_phase w of
        Fresh \<Rightarrow> (to_phase n (Named now) q)\<lparr>qu_current := Some (wk_id w, wk_name w, now)\<rparr>
      | Named started \<Rightarrow> (to_phase n Calling q)\<lparr>qu_emits := qu_emits q @ [started_event started (wk_id w) (wk_name w)]\<rparr>
      | Calling \<Rightarrow> (case action_result to_int r of (rc, p) \<Rightarrow> to_phase n (Ran rc p) q)
      | Ran rc p \<Rightarrow> (to_phase n (Cleared rc p) q)\<lparr>qu_current := None\<rparr>
      | Cleared rc p \<Rightarrow>
          (to_phase n Closing q)\<lparr>qu_emits := qu_emits q @ [finished_event now (wk_id w) (wk_name w) rc p]\<rparr>
      | Closing \<Rightarrow> q\<lparr>qu_lock := False, qu_workers := take n (qu_workers q) @ drop (Suc n) (qu_workers q)\<rparr>)"

inductive queue_step :: "(json \<Rightarrow> int option) \<Rightarrow> queue \<Rightarrow> queue \<Rightarrow> bool" for to_int where
  client: "queue_step to_int q (snd (submit i name q))"
| worker: "queue_step to_int q (worker_step to_int now r n q)"

section \<open>Closing what a dead process left open\<close>

definition is_action :: "event \<Rightarrow> bool" where
  "is_action e \<longleftrightarrow> obj_get e ''kind'' = JStr ''action''"

definition is_started :: "event \<Rightarrow> bool" where
  "is_started e \<longleftrightarrow> is_action e \<and> obj_get e ''status'' = JStr ''started''"

definition is_closing :: "event \<Rightarrow> bool" where
  "is_closing e \<longleftrightarrow> is_action e \<and> in_strs (obj_get e ''status'') [''finished'', ''interrupted'']"

definition open_actions :: "event list \<Rightarrow> event list" where
  "open_actions events =
     (let closed = map (\<lambda>e. obj_get e ''job_id'') (filter is_closing events) in
      filter (\<lambda>e. is_started e \<and> obj_get e ''job_id'' \<notin> set closed) events)"

definition interrupted_event :: "json \<Rightarrow> event \<Rightarrow> event" where
  "interrupted_event ts e =
     [(''ts'', ts), (''kind'', JStr ''action''), (''job_id'', obj_get e ''job_id''), (''tool'', obj_get e ''tool''),
      (''status'', JStr ''interrupted'')]"

text \<open>The ids are put into a set, which raises for a list or an object.\<close>

definition reconcile :: "int \<Rightarrow> bool \<Rightarrow> string \<Rightarrow> json \<Rightarrow> log_fs \<Rightarrow> nat option \<times> log_fs" where
  "reconcile now rename_ok path ts fs =
     (let events = read_events (dget (lf_text fs) path) in
      if list_ex (\<lambda>e. (is_started e \<or> is_closing e) \<and> \<not> hashable (obj_get e ''job_id'')) events then (None, fs)
      else let es = open_actions events in
        (Some (length es), fold (\<lambda>e. emit now rename_ok path ts (interrupted_event ts e)) es fs))"

section \<open>What is shown of the actions\<close>

text \<open>\<^verbatim>\<open>str(x or "")\<close>, and \<^verbatim>\<open>_iso\<close>; \<open>st\<close> is \<^verbatim>\<open>str\<close> of a value that is not a string, \<open>tm\<close> the writing of a time.\<close>

definition str_or :: "(json \<Rightarrow> string) \<Rightarrow> json \<Rightarrow> string" where
  "str_or st v = (case v of JStr s \<Rightarrow> s | _ \<Rightarrow> if truthy v then st v else [])"

definition iso :: "(json \<Rightarrow> string) \<Rightarrow> (json \<Rightarrow> string) \<Rightarrow> json \<Rightarrow> string" where
  "iso st tm v = (case v of JInt _ \<Rightarrow> tm v | JFloat _ \<Rightarrow> tm v | _ \<Rightarrow> str_or st v)"

record action_row =
  ar_id :: string
  ar_cmd :: string
  ar_status :: string
  ar_started :: string
  ar_finished :: "string option"
  ar_exit :: "json option"
  ar_payload :: "json option"

definition opt_field :: "event \<Rightarrow> string \<Rightarrow> json option \<Rightarrow> json option" where
  "opt_field e k old = (if obj_get e k = JNull then old else Some (obj_get e k))"

definition row_event :: "(json \<Rightarrow> string) \<Rightarrow> (json \<Rightarrow> string) \<Rightarrow> event \<Rightarrow> action_row \<Rightarrow> action_row" where
  "row_event st tm e row =
     (let status = str_or st (obj_get e ''status'') in
      if status = ''started'' then row\<lparr>ar_started := iso st tm (obj_get e ''ts'')\<rparr>
      else if status \<in> {''finished'', ''interrupted''}
      then row\<lparr>ar_status := status, ar_finished := Some (iso st tm (obj_get e ''ts'')),
               ar_exit := opt_field e ''exit'' (ar_exit row), ar_payload := opt_field e ''payload'' (ar_payload row)\<rparr>
      else row)"

definition new_row :: "string \<Rightarrow> string \<Rightarrow> action_row" where
  "new_row i cmd = \<lparr>ar_id = i, ar_cmd = cmd, ar_status = ''started'', ar_started = [], ar_finished = None,
     ar_exit = None, ar_payload = None\<rparr>"

text \<open>The dictionary of rows and the list of their ids in the order of creation are one list here.\<close>

definition rows_step :: "(json \<Rightarrow> string) \<Rightarrow> (json \<Rightarrow> string) \<Rightarrow> event \<Rightarrow> action_row list \<Rightarrow> action_row list" where
  "rows_step st tm e rows =
     (if \<not> is_action e then rows else
      let i = str_or st (obj_get e ''job_id'') in
      if i = [] then rows
      else let rows1 = (if list_ex (\<lambda>r. ar_id r = i) rows then rows else rows @ [new_row i (str_or st (obj_get e ''tool''))]) in
        map (\<lambda>r. if ar_id r = i then row_event st tm e r else r) rows1)"

definition recent_actions :: "(json \<Rightarrow> string) \<Rightarrow> (json \<Rightarrow> string) \<Rightarrow> event list \<Rightarrow> action_row list" where
  "recent_actions st tm events = last_n 10 (fold (rows_step st tm) events [])"

text \<open>Whether an action runs, the rows, and the current action, for the events file as it is read.\<close>

definition action_status ::
  "(json \<Rightarrow> string) \<Rightarrow> (json \<Rightarrow> string) \<Rightarrow> queue option \<Rightarrow> string option \<Rightarrow>
    bool \<times> action_row list \<times> (string \<times> string \<times> string) option" where
  "action_status st tm q text =
     ((case q of None \<Rightarrow> False | Some q \<Rightarrow> busy q),
      recent_actions st tm (events_tail 500 text),
      (case q of None \<Rightarrow> None | Some q \<Rightarrow> map_option (\<lambda>(i, name, t). (i, name, tm t)) (qu_current q)))"

section \<open>One action at a time\<close>

text \<open>The events of actions that run one after the other, the last one perhaps not finished.\<close>

fun paired :: "event list \<Rightarrow> bool" where
  "paired [] \<longleftrightarrow> True"
| "paired [s] \<longleftrightarrow> is_started s"
| "paired (s # f # es) \<longleftrightarrow> is_started s \<and> is_action f \<and> obj_get f ''status'' = JStr ''finished'' \<and>
     obj_get f ''job_id'' = obj_get s ''job_id'' \<and> obj_get f ''tool'' = obj_get s ''tool'' \<and> paired es"

lemma paired_append: "even (length es) \<Longrightarrow> paired (es @ fs) \<longleftrightarrow> paired es \<and> paired fs"
  by (induction es rule: paired.induct) auto

lemma event_fields [simp]:
  "is_started (started_event t i n)" "is_action (finished_event t i n rc p)"
  "obj_get (started_event t i n) ''job_id'' = JStr i" "obj_get (started_event t i n) ''tool'' = JStr n"
  "obj_get (finished_event t i n rc p) ''job_id'' = JStr i" "obj_get (finished_event t i n rc p) ''tool'' = JStr n"
  "obj_get (finished_event t i n rc p) ''status'' = JStr ''finished''"
  by (simp_all add: started_event_def finished_event_def is_started_def is_action_def obj_get_def)

text \<open>What the lock, the current action and the events are while the only worker is in a phase.\<close>

fun phase_ok :: "phase \<Rightarrow> worker \<Rightarrow> queue \<Rightarrow> bool" where
  "phase_ok (Named t) w q \<longleftrightarrow> qu_current q \<noteq> None \<and> even (length (qu_emits q)) \<and> paired (qu_emits q)"
| "phase_ok Calling w q \<longleftrightarrow> qu_current q \<noteq> None \<and>
     (\<exists>es t. qu_emits q = es @ [started_event t (wk_id w) (wk_name w)] \<and> even (length es) \<and> paired es)"
| "phase_ok (Ran rc p) w q \<longleftrightarrow> qu_current q \<noteq> None \<and>
     (\<exists>es t. qu_emits q = es @ [started_event t (wk_id w) (wk_name w)] \<and> even (length es) \<and> paired es)"
| "phase_ok (Cleared rc p) w q \<longleftrightarrow> qu_current q = None \<and>
     (\<exists>es t. qu_emits q = es @ [started_event t (wk_id w) (wk_name w)] \<and> even (length es) \<and> paired es)"
| "phase_ok _ w q \<longleftrightarrow> qu_current q = None \<and> even (length (qu_emits q)) \<and> paired (qu_emits q)"

definition queue_ok :: "queue \<Rightarrow> bool" where
  "queue_ok q \<longleftrightarrow>
     (qu_workers q = [] \<and> \<not> qu_lock q \<and> qu_current q = None \<and> even (length (qu_emits q)) \<and> paired (qu_emits q)) \<or>
     (\<exists>w. qu_workers q = [w] \<and> qu_lock q \<and> phase_ok (wk_phase w) w q)"

lemma queue_ok_new: "queue_ok new_queue"
  by (simp add: queue_ok_def new_queue_def)

lemma queue_ok_submit: "queue_ok q \<Longrightarrow> queue_ok (snd (submit i name q))"
  by (auto simp: queue_ok_def submit_def)

lemma queue_ok_worker:
  assumes "queue_ok q"
  shows "queue_ok (worker_step to_int now r n q)"
proof (cases "qu_workers q")
  case Nil
  then show ?thesis using assms by (simp add: worker_step_def)
next
  case (Cons w ws)
  then have w: "qu_workers q = [w]" "qu_lock q" "phase_ok (wk_phase w) w q" using assms by (auto simp: queue_ok_def)
  show ?thesis
  proof (cases n)
    case 0
    show ?thesis
      using w 0 by (cases "wk_phase w")
        (auto simp: queue_ok_def worker_step_def to_phase_def paired_append split: prod.splits)
  qed (use assms w in \<open>simp add: worker_step_def\<close>)
qed

interpretation queue_machine: invariant_machine "\<lambda>q. q = new_queue" "queue_step to_int" queue_ok for to_int
  by unfold_locales (auto simp: queue_ok_new queue_step.simps queue_ok_submit queue_ok_worker)

text \<open>
  C7. Under every interleaving of clients and workers at most one action runs: the lock is held exactly while there is
  a worker, there is never a second one, the events of the actions never overlap (each start is followed by its own
  end, with the same id and name, before the next start), and an action without its end holds the lock.
\<close>

theorem queue_single_flight:
  assumes "reach (\<lambda>q. q = new_queue) (queue_step to_int) q"
  shows "length (qu_workers q) \<le> 1 \<and> qu_lock q = (qu_workers q \<noteq> []) \<and> paired (qu_emits q) \<and>
    (qu_lock q \<or> even (length (qu_emits q)) \<and> qu_current q = None)"
proof -
  from queue_machine.reach_inv[OF assms] have ok: "queue_ok q" .
  have "paired (qu_emits q)" if "phase_ok p w q" for p w
    using that by (cases p) (auto simp: paired_append)
  then show ?thesis using ok by (auto simp: queue_ok_def)
qed

theorem queue_single_flight_witness:
  "paired (qu_emits (worker_step (\<lambda>_. None) (JInt 2) Raised 0 (worker_step (\<lambda>_. None) (JInt 1) Raised 0
     (snd (submit ''b'' ''start'' (snd (submit ''a'' ''down'' new_queue)))))))"
proof -
  have "reach (\<lambda>q. q = new_queue) (queue_step (\<lambda>_. None))
      (worker_step (\<lambda>_. None) (JInt 2) Raised 0 (worker_step (\<lambda>_. None) (JInt 1) Raised 0
        (snd (submit ''b'' ''start'' (snd (submit ''a'' ''down'' new_queue))))))"
    by (rule reach_step[OF reach_step[OF reach_step[OF reach_step[OF reach_init]]]])
      (simp, rule client, rule client, rule queue_step.worker, rule queue_step.worker)
  from queue_single_flight[OF this] show ?thesis by blast
qed

text \<open>Whatever the callable does, six steps of the worker free the lock and leave both events.\<close>

lemma action_completes:
  assumes "qu_workers q = []" "\<not> qu_lock q" "action_result to_int r = (rc, p)"
  shows "let q1 = fold (\<lambda>now. worker_step to_int now r 0) [t1, t2, t3, t4, t5, t6] (snd (submit i name q)) in
    qu_workers q1 = [] \<and> \<not> qu_lock q1 \<and> qu_current q1 = None \<and>
    qu_emits q1 = qu_emits q @ [started_event t1 i name, finished_event t5 i name rc p]"
  using assms by (simp add: submit_def worker_step_def to_phase_def)

section \<open>The rows against the actions\<close>

text \<open>The rows written down from the pairs of events, one per action.\<close>

fun rows_of :: "(json \<Rightarrow> string) \<Rightarrow> (json \<Rightarrow> string) \<Rightarrow> event list \<Rightarrow> action_row list" where
  "rows_of st tm [] = []"
| "rows_of st tm [s] = [(new_row (str_or st (obj_get s ''job_id'')) (str_or st (obj_get s ''tool'')))
     \<lparr>ar_started := iso st tm (obj_get s ''ts'')\<rparr>]"
| "rows_of st tm (s # f # es) = (new_row (str_or st (obj_get s ''job_id'')) (str_or st (obj_get s ''tool'')))
     \<lparr>ar_started := iso st tm (obj_get s ''ts''), ar_status := ''finished'', ar_finished := Some (iso st tm (obj_get f ''ts'')),
      ar_exit := opt_field f ''exit'' None, ar_payload := opt_field f ''payload'' None\<rparr> # rows_of st tm es"

text \<open>The ids of the actions, in the order in which they start.\<close>

definition started_ids :: "(json \<Rightarrow> string) \<Rightarrow> event list \<Rightarrow> string list" where
  "started_ids st es = map (\<lambda>e. str_or st (obj_get e ''job_id'')) (filter is_started es)"

lemma rows_of_ids: "paired es \<Longrightarrow> map ar_id (rows_of st tm es) = started_ids st es"
  by (induction es rule: paired.induct) (auto simp: started_ids_def new_row_def is_started_def)

lemma rows_step_other: "\<not> is_action e \<Longrightarrow> rows_step st tm e = id"
  by (auto simp: rows_step_def)

lemma fold_rows_filter: "fold (rows_step st tm) es rows = fold (rows_step st tm) (filter is_action es) rows"
  by (induction es arbitrary: rows) (auto simp: rows_step_other)

lemma map_upd_absent: "i \<notin> ar_id ` set rows \<Longrightarrow> map (\<lambda>r. if ar_id r = i then f r else r) rows = rows"
  by (rule map_idI) auto

lemma absent_ex: "i \<notin> ar_id ` set rows \<Longrightarrow> \<not> list_ex (\<lambda>r. ar_id r = i) rows"
  by (auto simp: list_ex_iff)

lemma rows_step_start:
  assumes "is_started s" "i = str_or st (obj_get s ''job_id'')" "i \<noteq> []" "i \<notin> ar_id ` set rows"
  shows "rows_step st tm s rows = rows @ [(new_row i (str_or st (obj_get s ''tool'')))\<lparr>ar_started := iso st tm (obj_get s ''ts'')\<rparr>]"
proof -
  have "str_or st (obj_get s ''status'') = ''started''" "is_action s" using assms(1) by (simp_all add: is_started_def str_or_def)
  then show ?thesis using assms(2-4) map_upd_absent[OF assms(4)] absent_ex[OF assms(4)]
    by (simp add: rows_step_def Let_def row_event_def new_row_def)
qed

lemma rows_step_finish:
  assumes "is_action f" "obj_get f ''status'' = JStr ''finished''" "ar_id r = str_or st (obj_get f ''job_id'')" "ar_id r \<noteq> []"
    and "ar_id r \<notin> ar_id ` set rows"
  shows "rows_step st tm f (rows @ [r]) = rows @ [r\<lparr>ar_status := ''finished'', ar_finished := Some (iso st tm (obj_get f ''ts'')),
      ar_exit := opt_field f ''exit'' (ar_exit r), ar_payload := opt_field f ''payload'' (ar_payload r)\<rparr>]"
proof -
  have "str_or st (obj_get f ''status'') = ''finished''" using assms(2) by (simp add: str_or_def)
  then show ?thesis using assms map_upd_absent[OF assms(5)] by (simp add: rows_step_def Let_def row_event_def)
qed

lemma fold_rows_paired:
  assumes "paired es" "distinct (started_ids st es)" "[] \<notin> set (started_ids st es)"
    "set (started_ids st es) \<inter> ar_id ` set rows = {}"
  shows "fold (rows_step st tm) es rows = rows @ rows_of st tm es"
  using assms
proof (induction es arbitrary: rows rule: paired.induct)
  case (2 s)
  then show ?case by (simp add: rows_step_start started_ids_def)
next
  case (3 s f es)
  let ?i = "str_or st (obj_get s ''job_id'')"
  let ?r = "(new_row ?i (str_or st (obj_get s ''tool'')))\<lparr>ar_started := iso st tm (obj_get s ''ts'')\<rparr>"
  have f: "\<not> is_started f" using 3(2) by (auto simp: is_started_def)
  have ids: "started_ids st (s # f # es) = ?i # started_ids st es" using 3(2) f by (simp add: started_ids_def)
  have i: "?i \<noteq> []" "?i \<notin> ar_id ` set rows" "?i \<notin> set (started_ids st es)" using 3(3-5) unfolding ids by auto
  have a: "rows_step st tm s rows = rows @ [?r]" using 3(2) i by (intro rows_step_start) auto
  have r: "ar_id ?r = str_or st (obj_get f ''job_id'')" "ar_id ?r \<noteq> []" "ar_id ?r \<notin> ar_id ` set rows"
    "ar_exit ?r = None" "ar_payload ?r = None"
    using 3(2) i by (simp_all add: new_row_def)
  let ?r' = "?r\<lparr>ar_status := ''finished'', ar_finished := Some (iso st tm (obj_get f ''ts'')),
      ar_exit := opt_field f ''exit'' None, ar_payload := opt_field f ''payload'' None\<rparr>"
  have b: "rows_step st tm f (rows @ [?r]) = rows @ [?r']"
    using rows_step_finish[of f ?r st rows tm] 3(2) r by simp
  have c: "fold (rows_step st tm) es (rows @ [?r']) = (rows @ [?r']) @ rows_of st tm es"
    using 3(2-5) i(3) unfolding ids by (intro 3(1)) (auto simp: new_row_def)
  show ?case using a b c by simp
qed simp

text \<open>
  C32. What is shown of the actions agrees with what ran: for a log whose actions do not overlap and have ids of their
  own, the rows are those of the last ten actions in the order of their start, each with its name, its times, and the
  exit code and payload of its end; other events between them do not matter.
\<close>

theorem recent_actions_rows:
  assumes "paired (filter is_action es)" "distinct (started_ids st es)" "[] \<notin> set (started_ids st es)"
  shows "recent_actions st tm es = last_n 10 (rows_of st tm (filter is_action es))"
proof -
  have "started_ids st (filter is_action es) = started_ids st es"
    unfolding started_ids_def filter_filter by (rule arg_cong[of _ _ "map _"]) (auto simp: is_started_def intro: filter_cong)
  then show ?thesis
    using fold_rows_paired[of "filter is_action es" st "[]" tm] assms fold_rows_filter[of st tm es "[]"]
    by (simp add: recent_actions_def)
qed

theorem recent_actions_rows_witness:
  "map ar_status (recent_actions (\<lambda>_. []) (\<lambda>_. []) [started_event JNull ''a'' ''down'', [(''kind'', JStr ''gateway'')],
     finished_event JNull ''a'' ''down'' 0 None, started_event JNull ''b'' ''start'']) = [''finished'', ''started'']"
proof -
  let ?es = "[started_event JNull ''a'' ''down'', [(''kind'', JStr ''gateway'')],
     finished_event JNull ''a'' ''down'' 0 None, started_event JNull ''b'' ''start'']"
  have "paired (filter is_action ?es)" "distinct (started_ids (\<lambda>_. []) ?es)" "[] \<notin> set (started_ids (\<lambda>_. []) ?es)"
    by code_simp+
  from recent_actions_rows[OF this, of "\<lambda>_. []"] show ?thesis by simp code_simp
qed

section \<open>Closing open actions once\<close>

lemma splitlines_from_append:
  "splitlines_from cur (a @ CHR 0x0A # b) = splitlines_from cur (a @ [CHR 0x0A]) @ splitlines_from [] b"
proof (induction "length a" arbitrary: a cur rule: less_induct)
  case less
  show ?case
  proof (cases a)
    case Nil
    then show ?thesis by (simp add: splitlines_from.simps[of cur "CHR 0x0A # b"] splitlines_from.simps[of cur "[CHR 0x0A]"]
        splitlines_from.simps[of "[]" "[]"] line_sep_def)
  next
    case (Cons c r)
    have r: "splitlines_from x (r @ CHR 0x0A # b) = splitlines_from x (r @ [CHR 0x0A]) @ splitlines_from [] b" for x
      using less Cons by simp
    have tl: "splitlines_from [] (tl (r @ CHR 0x0A # b)) = splitlines_from [] (tl (r @ [CHR 0x0A])) @ splitlines_from [] b"
      using less Cons by (cases r) (simp_all add: splitlines_from.simps[of "[]" "[]"])
    have "starts_with [CHR 0x0A] (r @ CHR 0x0A # b) = starts_with [CHR 0x0A] (r @ [CHR 0x0A])"
      by (cases r) (simp_all add: starts_with_def)
    then show ?thesis using r tl Cons
      by (simp add: splitlines_from.simps[of cur "c # r @ CHR 0x0A # b"] splitlines_from.simps[of cur "c # r @ [CHR 0x0A]"])
  qed
qed

lemma splitlines_append: "splitlines ((t @ [CHR 0x0A]) @ b) = splitlines (t @ [CHR 0x0A]) @ splitlines b"
  using splitlines_from_append[of "[]" t b] by (simp add: splitlines_def)

lemma last_n_append: "length ys \<le> n \<Longrightarrow> last_n n (xs @ ys) = last_n (n - length ys) xs @ ys"
  by (simp add: last_n_def)

lemma last_n_suffix:
  assumes "m \<le> n"
  shows "\<exists>p. last_n n xs = p @ last_n m xs"
proof -
  have "(length xs - m) - (length xs - n) + (length xs - n) = length xs - m" using assms by simp
  then have "last_n m xs = drop ((length xs - m) - (length xs - n)) (last_n n xs)" by (simp add: last_n_def)
  then show ?thesis by (metis append_take_drop_id)
qed

lemma map_filter_append: "List.map_filter f (xs @ ys) = List.map_filter f xs @ List.map_filter f ys"
  by (simp add: map_filter_def)

lemma length_map_filter: "length (List.map_filter f xs) \<le> length xs"
  by (simp add: map_filter_def)

lemma map_filter_all: "map f xs = map Some ys \<Longrightarrow> List.map_filter f xs = ys"
  by (induction xs arbitrary: ys) (auto simp: map_filter_def Cons_eq_map_conv)

text \<open>The text of a log after some lines are appended, with or without a rotation.\<close>

lemma rotate_text:
  "dget (lf_text (rotate ok path g)) path = None \<or> dget (lf_text (rotate ok path g)) path = dget (lf_text g) path"
  by (simp add: rotate_def Let_def)

lemma append_text_cases:
  "dget (lf_text (append_text now ok path l fs)) path = None \<or>
   dget (lf_text (append_text now ok path l fs)) path = Some (file_text fs path @ l)"
proof -
  obtain g where g: "dget (lf_text g) path = Some (file_text fs path @ l)"
    "append_text now ok path l fs = g \<or> append_text now ok path l fs = rotate ok path g"
    by (rule that[of "(if path \<in> set (lf_handles fs) then fs else fs\<lparr>lf_handles := lf_handles fs @ [path]\<rparr>)
      \<lparr>lf_text := dset path (file_text fs path @ l) (lf_text fs), lf_mtime := dset path now (lf_mtime fs),
        lf_writes := Suc (lf_writes fs)\<rparr>"]) (simp_all add: append_text_def Let_def file_text_def)
  then show ?thesis using rotate_text[of ok path g] by metis
qed

lemma file_text_some: "dget (lf_text fs) path = Some t \<Longrightarrow> file_text fs path = t"
  by (simp add: file_text_def dget_or_def)

lemma file_text_none: "dget (lf_text fs) path = None \<Longrightarrow> file_text fs path = []"
  by (simp add: file_text_def dget_or_def)

lemma emits_text:
  assumes "es \<noteq> []"
  shows "let r = dget (lf_text (fold (\<lambda>e. emit now ok path ts (f e)) es fs)) path; ls = map (\<lambda>e. emit_line ts (f e)) es in
    r = None \<or> (\<exists>k. r = Some (concat (drop k ls))) \<or> r = Some (file_text fs path @ concat ls)"
  using assms
proof (induction es arbitrary: fs)
  case (Cons e es)
  let ?g = "emit now ok path ts (f e) fs" and ?ls = "map (\<lambda>e. emit_line ts (f e)) es"
  let ?r = "dget (lf_text (fold (\<lambda>e. emit now ok path ts (f e)) es ?g)) path"
  have g: "dget (lf_text ?g) path = None \<or> dget (lf_text ?g) path = Some (file_text fs path @ emit_line ts (f e))"
    unfolding emit_def by (rule append_text_cases)
  show ?case
  proof (cases "es = []")
    case True
    then show ?thesis using g by auto
  next
    case False
    from Cons.IH[OF this, of ?g] have "?r = None \<or> (\<exists>k. ?r = Some (concat (drop k ?ls))) \<or>
      ?r = Some (file_text ?g path @ concat ?ls)" by (simp add: Let_def)
    moreover have "concat (drop k ?ls) = concat (drop (Suc k) (emit_line ts (f e) # ?ls))" for k by simp
    moreover have "?r = Some (file_text ?g path @ concat ?ls) \<Longrightarrow>
        ?r = Some (concat (drop 1 (emit_line ts (f e) # ?ls))) \<or>
        ?r = Some (file_text fs path @ concat (emit_line ts (f e) # ?ls))"
      using g by (auto simp: file_text_some file_text_none)
    ultimately show ?thesis unfolding Let_def fold_Cons comp_apply list.map(2) by metis
  qed
qed simp

text \<open>No action starts after it was closed.\<close>

fun starts_first :: "event list \<Rightarrow> bool" where
  "starts_first [] \<longleftrightarrow> True"
| "starts_first (c # es) \<longleftrightarrow>
     (\<not> is_closing c \<or> list_all (\<lambda>e. \<not> is_started e \<or> obj_get e ''job_id'' \<noteq> obj_get c ''job_id'') es) \<and> starts_first es"

text \<open>The id and the name of an action that the log gives back as they were written.\<close>

definition loggable :: "event \<Rightarrow> bool" where
  "loggable e \<longleftrightarrow> (case (obj_get e ''job_id'', obj_get e ''tool'') of
     (JStr i, JStr t) \<Rightarrow> redact_text i = i \<and> CHR 0x85 \<notin> set i \<and> CHR 0x85 \<notin> set (redact_text t) | _ \<Rightarrow> False)"

lemma loggable_line:
  assumes "loggable e" "float_lexeme x"
  obtains l d where "emit_line (JFloat x) (interrupted_event (JFloat x) e) = l @ [CHR 0x0A]" "splitlines (l @ [CHR 0x0A]) = [l]"
    "list_all (\<lambda>c. \<not> line_sep c) l"
    "event_of_line l = Some d" "is_closing d" "\<not> is_started d" "obj_get d ''job_id'' = obj_get e ''job_id''"
proof -
  obtain i t where e: "obj_get e ''job_id'' = JStr i" "obj_get e ''tool'' = JStr t" "redact_text i = i"
    "CHR 0x85 \<notin> set i" "CHR 0x85 \<notin> set (redact_text t)"
    using assms(1) by (auto simp: loggable_def split: json.splits)
  let ?c = "clean_event (JFloat x) (interrupted_event (JFloat x) e)"
  have red: "redact_text ''action'' = ''action''" "redact_text ''interrupted'' = ''interrupted''" by code_simp+
  have c: "?c = [(''ts'', JFloat x), (''kind'', JStr ''action''), (''job_id'', JStr i), (''tool'', JStr (redact_text t)),
      (''status'', JStr ''interrupted'')]"
    using e red by (simp add: clean_event_def interrupted_event_def set_default_def has_key_def FIELDS_def redact_value_def)
  have ex: "json_exact (JObj ?c)" "no_seps (JObj ?c)" using assms(2) e by (simp_all add: c)
  let ?l = "dumps (fmt_default False) (JObj ?c)"
  have sep: "list_all (\<lambda>c. \<not> line_sep c) ?l" unfolding dumps_def using dump_no_sep[OF ex] by (auto simp: list_all_iff simp del: dump.simps)
  have "loads ?l = Some (JObj ?c)" using loads_dumps[OF ex(1)] by simp
  then show ?thesis
    by (intro that[of ?l ?c]) (use splitlines_lines[of "[?l]"] sep c e in
      \<open>simp_all add: emit_line_def event_of_line_def is_closing_def is_started_def is_action_def in_strs_def obj_get_def\<close>)
qed

lemma starts_first_later:
  assumes "starts_first (p @ q)" "e \<in> set q" "is_started e" "c \<in> set (p @ q)" "is_closing c" "obj_get c ''job_id'' = obj_get e ''job_id''"
  shows "c \<in> set q"
  using assms by (induction p) (auto simp: list_all_iff)

lemma notin_filter: "x \<notin> set (map f (filter P xs)) \<longleftrightarrow> (\<forall>c \<in> set xs. P c \<longrightarrow> f c \<noteq> x)"
  by (induction xs) auto

lemma open_actions_iff: "e \<in> set (open_actions es) \<longleftrightarrow>
    e \<in> set es \<and> is_started e \<and> (\<forall>c \<in> set es. is_closing c \<longrightarrow> obj_get c ''job_id'' \<noteq> obj_get e ''job_id'')"
  unfolding open_actions_def Let_def set_filter mem_Collect_eq notin_filter by simp

lemma length_open_actions: "length (open_actions es) \<le> length es"
  by (simp add: open_actions_def Let_def)

lemma open_after:
  assumes "starts_first events" "events = p @ later" "list_all2 (\<lambda>d e. is_closing d \<and> \<not> is_started d \<and>
      obj_get d ''job_id'' = obj_get e ''job_id'') ds (open_actions events)"
  shows "open_actions (later @ ds) = []"
proof -
  have ids: "\<exists>d \<in> set ds. is_closing d \<and> obj_get d ''job_id'' = obj_get e ''job_id''" if "e \<in> set (open_actions events)" for e
    using assms(3) that by (induction rule: list_all2_induct) auto
  have no: "\<not> is_started d" if "d \<in> set ds" for d
    using assms(3) that by (induction rule: list_all2_induct) auto
  have "\<exists>c \<in> set (later @ ds). is_closing c \<and> obj_get c ''job_id'' = obj_get e ''job_id''"
    if e: "e \<in> set later" "is_started e" for e
  proof (cases "e \<in> set (open_actions events)")
    case True
    then show ?thesis using ids by auto
  next
    case False
    then obtain c where "c \<in> set events" "is_closing c" "obj_get c ''job_id'' = obj_get e ''job_id''"
      using e assms(2) unfolding open_actions_iff by auto
    then show ?thesis using starts_first_later[of p later e c] assms(1,2) e by auto
  qed
  then have "e \<notin> set (open_actions (later @ ds))" for e using no unfolding open_actions_iff by (cases "e \<in> set later") auto
  then show ?thesis by (metis last_in_set)
qed

lemma interrupted_lines:
  assumes "list_all loggable es" "float_lexeme x"
  obtains ls ds where "map (\<lambda>e. emit_line (JFloat x) (interrupted_event (JFloat x) e)) es = map (\<lambda>l. l @ [CHR 0x0A]) ls"
    "list_all (\<lambda>l. list_all (\<lambda>c. \<not> line_sep c) l) ls" "map event_of_line ls = map Some ds"
    "list_all2 (\<lambda>d e. is_closing d \<and> \<not> is_started d \<and> obj_get d ''job_id'' = obj_get e ''job_id'') ds es"
  using assms(1)
proof (induction es arbitrary: thesis)
  case (Cons e es)
  from Cons.prems(2) have e: "loggable e" "list_all loggable es" by simp_all
  obtain ls ds where r: "map (\<lambda>e. emit_line (JFloat x) (interrupted_event (JFloat x) e)) es = map (\<lambda>l. l @ [CHR 0x0A]) ls"
    "list_all (\<lambda>l. list_all (\<lambda>c. \<not> line_sep c) l) ls" "map event_of_line ls = map Some ds"
    "list_all2 (\<lambda>d e. is_closing d \<and> \<not> is_started d \<and> obj_get d ''job_id'' = obj_get e ''job_id'') ds es"
    by (rule Cons.IH[OF _ e(2)])
  obtain l d where l: "emit_line (JFloat x) (interrupted_event (JFloat x) e) = l @ [CHR 0x0A]"
    "list_all (\<lambda>c. \<not> line_sep c) l" "event_of_line l = Some d" "is_closing d" "\<not> is_started d"
    "obj_get d ''job_id'' = obj_get e ''job_id''"
    by (rule loggable_line[OF e(1) assms(2)])
  show ?case by (rule Cons.prems(1)[of "l # ls" "d # ds"]) (use l r in simp_all)
qed auto

lemma read_lines:
  assumes "list_all (\<lambda>l. list_all (\<lambda>c. \<not> line_sep c) l) ls" "map event_of_line ls = map Some ds"
  shows "read_events (Some (concat (map (\<lambda>l. l @ [CHR 0x0A]) ls))) = last_n EVENTS_TAIL_LINES ds"
proof -
  have "List.map_filter event_of_line (drop k ls) = drop k ds" for k
    using assms(2) by (intro map_filter_all) (metis drop_map)
  moreover have "length ls = length ds" using assms(2) by (metis length_map)
  ultimately show ?thesis using splitlines_lines[OF assms(1)] by (simp add: read_events_def last_n_def)
qed

lemma no_open: "list_all (\<lambda>d. \<not> is_started d) ds \<Longrightarrow> open_actions ds = []"
  by (auto simp: open_actions_def list_all_iff filter_empty_conv)

lemma reconcile_none:
  assumes "open_actions (read_events (dget (lf_text fs) path)) = []"
    and "list_all (\<lambda>e. \<not> (is_started e \<or> is_closing e) \<or> hashable (obj_get e ''job_id'')) (read_events (dget (lf_text fs) path))"
  shows "reconcile now ok path ts fs = (Some 0, fs)"
  using assms by (auto simp: reconcile_def Let_def list_all_iff list_ex_iff)

lemma reconcile_some:
  assumes "dget (lf_text fs) path = Some t"
    and "list_ex (\<lambda>e. (is_started e \<or> is_closing e) \<and> \<not> hashable (obj_get e ''job_id'')) (read_events (Some t)) = False"
  shows "fst (reconcile now ok path ts fs) = Some (length (open_actions (read_events (Some t))))"
  unfolding reconcile_def Let_def assms by simp

text \<open>
  Closing the open actions is idempotent: when the log ends with a whole line, no action in it starts after its
  end, and the ids and names are ones that the log gives back unchanged, then after one reconciliation a second one
  finds nothing open and writes nothing, whether or not the log is rotated on the way and however much of it the
  2000 lines that are read leave out.
\<close>

theorem reconcile_idempotent:
  assumes "dget (lf_text fs) path = Some (t @ [CHR 0x0A])" "float_lexeme x"
    and "starts_first (read_events (Some (t @ [CHR 0x0A])))" "list_all loggable (open_actions (read_events (Some (t @ [CHR 0x0A]))))"
    and "reconcile now ok path (JFloat x) fs = (Some n, fs1)"
  shows "reconcile now1 ok1 path ts1 fs1 = (Some 0, fs1)"
proof (rule reconcile_none)
  let ?evs = "read_events (Some (t @ [CHR 0x0A]))" and ?es = "open_actions (read_events (Some (t @ [CHR 0x0A])))"
  let ?r = "dget (lf_text fs1) path" and ?hash = "\<lambda>e. \<not> (is_started e \<or> is_closing e) \<or> hashable (obj_get e ''job_id'')"
  obtain ls ds where ls: "map (\<lambda>e. emit_line (JFloat x) (interrupted_event (JFloat x) e)) ?es = map (\<lambda>l. l @ [CHR 0x0A]) ls"
    "list_all (\<lambda>l. list_all (\<lambda>c. \<not> line_sep c) l) ls" "map event_of_line ls = map Some ds"
    "list_all2 (\<lambda>d e. is_closing d \<and> \<not> is_started d \<and> obj_get d ''job_id'' = obj_get e ''job_id'') ds ?es"
    by (rule interrupted_lines[OF assms(4,2)])
  have hs: "list_all ?hash ?evs" and fs1: "fs1 = fold (\<lambda>e. emit now ok path (JFloat x) (interrupted_event (JFloat x) e)) ?es fs"
    using assms(1,5) by (auto simp: reconcile_def Let_def list_all_iff list_ex_iff split: if_splits)
  have len: "length ls = length ds" "length ls = length ?es"
    using arg_cong[OF ls(1), of length] arg_cong[OF ls(3), of length] by simp_all
  have "length ?evs \<le> EVENTS_TAIL_LINES"
    unfolding read_events_def option.case by (rule order_trans[OF length_map_filter]) (simp add: last_n_def)
  then have short: "length ls \<le> EVENTS_TAIL_LINES" using len(2) length_open_actions[of ?evs] by linarith
  have ds: "list_all (\<lambda>d. is_closing d \<and> \<not> is_started d \<and> hashable (obj_get d ''job_id'')) ds"
  proof -
    have "hashable (obj_get e ''job_id'')" if "e \<in> set ?es" for e
      using that hs by (auto simp: open_actions_def list_all_iff)
    with ls(4) show ?thesis by (induction rule: list_all2_induct) auto
  qed
  consider "?r = None" | k where "?r = Some (concat (map (\<lambda>l. l @ [CHR 0x0A]) (drop k ls)))"
    | "?r = Some ((t @ [CHR 0x0A]) @ concat (map (\<lambda>l. l @ [CHR 0x0A]) ls))"
  proof (cases "?es = []")
    case True
    then show ?thesis using that(3) fs1 assms(1) ls(1) by simp
  next
    case False
    from emits_text[OF False, of now ok path "JFloat x" "interrupted_event (JFloat x)" fs] that
    show ?thesis using assms(1) unfolding fs1[symmetric] ls(1) Let_def by (auto simp: file_text_some drop_map)
  qed
  then have "open_actions (read_events ?r) = [] \<and> list_all ?hash (read_events ?r)"
  proof cases
    case 2
    have "map event_of_line (drop k ls) = map Some (drop k ds)" using ls(3) by (metis drop_map)
    moreover have "list_all (\<lambda>l. list_all (\<lambda>c. \<not> line_sep c) l) (drop k ls)" using ls(2) by (auto simp: list_all_iff dest: in_set_dropD)
    ultimately have "read_events ?r = last_n EVENTS_TAIL_LINES (drop k ds)" using read_lines 2 by simp
    then have "set (read_events ?r) \<subseteq> set ds" by (auto simp: last_n_def dest: in_set_dropD)
    then have "list_all (\<lambda>d. is_closing d \<and> \<not> is_started d \<and> hashable (obj_get d ''job_id'')) (read_events ?r)"
      using ds unfolding list_all_iff by blast
    then show ?thesis by (intro conjI no_open) (auto simp: list_all_iff)
  next
    case 3
    define m where "m = EVENTS_TAIL_LINES - length ls"
    have "read_events ?r = List.map_filter event_of_line (last_n m (splitlines (t @ [CHR 0x0A]))) @ ds"
      using 3 splitlines_append[of t "concat (map (\<lambda>l. l @ [CHR 0x0A]) ls)"] splitlines_lines[OF ls(2)] short map_filter_all[OF ls(3)]
      by (simp add: read_events_def last_n_append map_filter_append m_def)
    moreover obtain p where "?evs = p @ List.map_filter event_of_line (last_n m (splitlines (t @ [CHR 0x0A])))"
      using last_n_suffix[of m EVENTS_TAIL_LINES "splitlines (t @ [CHR 0x0A])"]
      by (auto simp: read_events_def m_def map_filter_append)
    ultimately show ?thesis using open_after[OF assms(3) _ ls(4)] hs ds by (auto simp: list_all_iff)
  qed (simp add: read_events_def no_open)
  then show "open_actions (read_events ?r) = []" "list_all ?hash (read_events ?r)" by blast+
qed

text \<open>
  An event is read back only if none of its texts has U+0085: the log is split there too, and the writer leaves the
  character as it is. The end of such an action is lost to every reader, and after a restart it counts as interrupted.
\<close>

lemma finished_event_lost:
  "map (\<lambda>e. obj_get e ''status'') (read_events (Some (concat (map (emit_line JNull) [started_event JNull ''a'' ''d'',
     finished_event JNull ''a'' ''d'' 0 (Some [(''output'', JStr [CHR ''x'', CHR 0x85, CHR ''y''])])])))) = [JStr ''started'']"
  by code_simp

end
