(* ===== verification/Cockpit.thy ===== *)
theory Cockpit
  imports Cli GatewayServer Actions
begin

text \<open>
  The cockpit: its own authorization (\<^verbatim>\<open>home/rdm/ui/auth.py\<close>), the handler of its requests
  (\<^verbatim>\<open>home/rdm/ui/server.py\<close>) and its static files (\<^verbatim>\<open>home/rdm/ui/static.py\<close>). The handler decides what is
  answered and what is read for it (\<open>Served\<close>), submits actions to the queue and writes profiles into the state
  of the host side; the actions are the commands of \<^theory_text>\<open>Cli\<close>. Random tokens, the clock, the decoding of bytes and the
  resolution of paths on the disk are parameters; the directories of the state files and their permissions are left out.
\<close>

section \<open>Queries and escaped paths\<close>

text \<open>The query of \<^verbatim>\<open>urlsplit\<close>, for the same urls as \<^const>\<open>url_path\<close>.\<close>

definition url_query :: "(string \<Rightarrow> bool) \<Rightarrow> string \<Rightarrow> string option" where
  "url_query netloc_ok target =
     (let url = filter (\<lambda>c. code c \<notin> {9, 10, 13}) (dropWhile (\<lambda>c. code c \<le> 32) target);
          u = drop_scheme url;
          inside = takeWhile (\<lambda>c. c \<notin> {CHR ''/'', CHR ''?'', CHR ''#''});
          query = (\<lambda>v. snd (snd (py_partition ''?'' (fst (py_partition ''#'' v))))) in
      if starts_with ''//'' u
      then if netloc_ok (inside (drop 2 u)) then Some (query (drop (length (inside (drop 2 u))) (drop 2 u))) else None
      else Some (query u))"

text \<open>\<^verbatim>\<open>unquote_to_bytes\<close> of an ASCII text.\<close>

fun percent_bytes :: "string \<Rightarrow> string" where
  "percent_bytes (c # a # b # r) =
     (case (if c = CHR ''%'' then (case (hex_val a, hex_val b) of (Some x, Some y) \<Rightarrow> Some (16 * x + y) | _ \<Rightarrow> None) else None) of
        Some n \<Rightarrow> char_of n # percent_bytes r
      | None \<Rightarrow> c # percent_bytes (a # b # r))"
| "percent_bytes s = s"

text \<open>\<^verbatim>\<open>unquote\<close>: each run of ASCII characters on its own; \<open>dec\<close> decodes UTF-8, replacing what is not.\<close>

definition ascii_ch :: "char \<Rightarrow> bool" where
  "ascii_ch c \<longleftrightarrow> code c < 128"

function unquote :: "(string \<Rightarrow> string) \<Rightarrow> string \<Rightarrow> string" where
  "unquote dec s =
     (case s of
        [] \<Rightarrow> []
      | c # r \<Rightarrow> if ascii_ch c then dec (percent_bytes (takeWhile ascii_ch s)) @ unquote dec (dropWhile ascii_ch s)
                else c # unquote dec r)"
  by pat_completeness auto
termination by (relation "measure (length \<circ> snd)") (auto simp: less_Suc_eq_le length_dropWhile_le)

declare unquote.simps [simp del]

definition plus_space :: "string \<Rightarrow> string" where
  "plus_space = map (\<lambda>c. if c = CHR ''+'' then CHR '' '' else c)"

text \<open>\<^verbatim>\<open>parse_qs(query).get(name, [""])[0]\<close>; fields with an empty value are dropped.\<close>

definition query_value :: "(string \<Rightarrow> string) \<Rightarrow> string \<Rightarrow> string \<Rightarrow> string" where
  "query_value dec query name =
     (let pairs = List.map_filter (\<lambda>f. case py_partition ''='' f of (n, _, v) \<Rightarrow>
            if v = [] then None else Some (unquote dec (plus_space n), unquote dec (plus_space v))) (split_str ''&'' query)
      in dget_or pairs name [])"

section \<open>Authorization\<close>

text \<open>\<open>before x\<close>: the clock is before the time \<open>x\<close>.\<close>

definition is_hex64 :: "string \<Rightarrow> bool" where
  "is_hex64 s \<longleftrightarrow> length s = 64 \<and> list_all (\<lambda>c. is_digit c \<or> c \<in> set ''abcdef'') s"

definition load_or_create_secret :: "string \<Rightarrow> string option \<Rightarrow> string \<times> string option" where
  "load_or_create_secret fresh text =
     (let v = (case text of None \<Rightarrow> [] | Some t \<Rightarrow> strip t) in
      if is_hex64 v then (v, text) else (fresh, Some (fresh @ [CHR 0x0A])))"

definition bootstrap_text :: "string \<Rightarrow> json \<Rightarrow> string" where
  "bootstrap_text token ex = dumps (fmt_default True) (JObj [(''token'', JStr token), (''exp'', ex)])"

definition is_number :: "json \<Rightarrow> bool" where
  "is_number j = (case j of JInt _ \<Rightarrow> True | JFloat _ \<Rightarrow> True | JBool _ \<Rightarrow> True | _ \<Rightarrow> False)"

text \<open>Whether the token is accepted, after the file was read as \<open>payload\<close>.\<close>

definition bootstrap_accepts :: "(json \<Rightarrow> bool) \<Rightarrow> string \<Rightarrow> json \<Rightarrow> bool" where
  "bootstrap_accepts before token j =
     (case j of
        JObj d \<Rightarrow> obj_get d ''token'' = JStr token \<and> is_number (obj_get d ''exp'') \<and> before (obj_get d ''exp'')
      | _ \<Rightarrow> False)"

definition consume_bootstrap :: "(json \<Rightarrow> bool) \<Rightarrow> string \<Rightarrow> string option \<Rightarrow> bool \<times> string option" where
  "consume_bootstrap before token text =
     (case text of
        None \<Rightarrow> (False, None)
      | Some t \<Rightarrow> (case loads t of None \<Rightarrow> (False, text) | Some j \<Rightarrow> (bootstrap_accepts before token j, None)))"

definition capitalize :: "string \<Rightarrow> string" where
  "capitalize s = (case s of [] \<Rightarrow> [] | c # r \<Rightarrow> upper_ch c # lower r)"

definition header_map :: "(string \<times> string) list \<Rightarrow> (string, string) dict" where
  "header_map hs = fold (\<lambda>(n, v). dset (capitalize n) v) hs []"

definition host_origin_ok :: "(string, string) dict \<Rightarrow> int \<Rightarrow> bool" where
  "host_origin_ok headers port \<longleftrightarrow>
     (let local = [''127.0.0.1:'' @ int_str port, ''localhost:'' @ int_str port] in
      dget_or headers ''Host'' [] \<in> set local \<and>
      (case dget headers ''Origin'' of None \<Rightarrow> True | Some r \<Rightarrow> r \<in> set (map (\<lambda>h. ''http://'' @ h) local)))"

definition cookie_header :: "string \<Rightarrow> string" where
  "cookie_header session = ''Set-Cookie: rdm_ui='' @ session @ ''; HttpOnly; SameSite=Strict; Path=/''"

section \<open>Actions\<close>

datatype plan = PlanUse string | PlanAllow int bool | PlanStart "string option" bool | PlanTokens | PlanDoctor | PlanDown
  | PlanStopHost | PlanIngress bool

definition plan_use :: "(string, json) dict \<Rightarrow> plan option" where
  "plan_use body = (case obj_get body ''name'' of JStr n \<Rightarrow> if n = [] then None else Some (PlanUse n) | _ \<Rightarrow> None)"

definition plan_allow :: "(string, json) dict \<Rightarrow> plan option" where
  "plan_allow body =
     (case (obj_get body ''port'', dget_or body ''ui'' (JBool False)) of
        (JInt p, JBool u) \<Rightarrow> Some (PlanAllow p u) | _ \<Rightarrow> None)"

definition plan_start :: "(string, json) dict \<Rightarrow> plan option" where
  "plan_start body =
     (case (case obj_get body ''name'' of JNull \<Rightarrow> Some None | JStr n \<Rightarrow> Some (Some n) | _ \<Rightarrow> None,
            dget_or body ''preview'' (JBool False)) of
        (Some n, JBool b) \<Rightarrow> Some (PlanStart n b) | _ \<Rightarrow> None)"

text \<open>The table of plans: \<^const>\<open>None\<close> for an unknown action, \<open>Some None\<close> for a refused body.\<close>

definition action_plan :: "string \<Rightarrow> (string, json) dict \<Rightarrow> plan option option" where
  "action_plan name body =
     (if name = ''use'' then Some (plan_use body) else if name = ''allow'' then Some (plan_allow body)
      else if name = ''start'' then Some (plan_start body)
      else map_option Some (dget [(''issue-tokens'', PlanTokens), (''doctor'', PlanDoctor), (''down'', PlanDown),
        (''stop-host'', PlanStopHost), (''ingress-start'', PlanIngress True), (''ingress-stop'', PlanIngress False)] name))"

fun plan_name :: "plan \<Rightarrow> string" where
  "plan_name (PlanUse _) = ''apply_use''"
| "plan_name (PlanAllow _ _) = ''allow_port''"
| "plan_name (PlanStart _ _) = ''start''"
| "plan_name PlanTokens = ''issue_tokens''"
| "plan_name PlanDoctor = ''run_doctor''"
| "plan_name PlanDown = ''down''"
| "plan_name PlanStopHost = ''stop_host''"
| "plan_name (PlanIngress _) = ''ingress''"

text \<open>The commands behind the plans; the doctor only looks and prints, its exit code is \<open>doc\<close>.\<close>

fun run_plan :: "cli_os \<Rightarrow> string list \<Rightarrow> int \<Rightarrow> plan \<Rightarrow> int act" where
  "run_plan c fresh doc (PlanUse n) = apply_use c n"
| "run_plan c fresh doc (PlanAllow p u) = cli_allow c p u"
| "run_plan c fresh doc (PlanStart n b) = cli_start c n b True"
| "run_plan c fresh doc PlanTokens = issue_tokens c fresh"
| "run_plan c fresh doc PlanDoctor = ret doc"
| "run_plan c fresh doc PlanDown = cli_down c"
| "run_plan c fresh doc PlanStopHost = cli_stop_host c"
| "run_plan c fresh doc (PlanIngress b) = cli_ingress c b"

section \<open>Static files\<close>

definition MIME :: "(string \<times> string) list" where
  "MIME = [(''.html'', ''text/html; charset=utf-8''), (''.css'', ''text/css; charset=utf-8''),
     (''.js'', ''text/javascript; charset=utf-8''), (''.mjs'', ''text/javascript; charset=utf-8''),
     (''.json'', ''application/json''), (''.svg'', ''image/svg+xml''), (''.png'', ''image/png''), (''.jpg'', ''image/jpeg''),
     (''.ico'', ''image/x-icon''), (''.txt'', ''text/plain; charset=utf-8''), (''.woff'', ''font/woff''), (''.woff2'', ''font/woff2'')]"

text \<open>\<^verbatim>\<open>Path.suffix\<close> of a last component: from its last dot, unless that begins or ends it.\<close>

definition suffix_of :: "string \<Rightarrow> string" where
  "suffix_of name =
     (let ext = takeWhile (\<lambda>c. c \<noteq> CHR ''.'') (rev name) in
      if ext = [] \<or> length name \<le> Suc (length ext) then [] else CHR ''.'' # rev ext)"

text \<open>
  \<open>root\<close> are the parts of the directory, \<open>at rel\<close> those of \<^verbatim>\<open>(root / rel).resolve()\<close>, with links followed, \<open>bytes\<close>
  the content of a file that can be read.
\<close>

record static_fs =
  sf_root :: "string list"
  sf_at :: "string \<Rightarrow> string list"
  sf_bytes :: "string list \<Rightarrow> string option"

definition inside_root :: "string list \<Rightarrow> string list \<Rightarrow> bool" where
  "inside_root root cand \<longleftrightarrow> length root < length cand \<and> take (length root) cand = root"

definition static_resolve :: "(string \<Rightarrow> string) \<Rightarrow> static_fs \<Rightarrow> string \<Rightarrow> (string \<times> string) option" where
  "static_resolve dec sf path =
     (let rel = (if path \<in> {[], ''/''} then ''index.html'' else dropWhile (\<lambda>c. c = CHR ''/'') (unquote dec path));
          cand = sf_at sf rel in
      if \<not> inside_root (sf_root sf) cand then None
      else map_option (\<lambda>b. (b, dget_or MIME (lower (suffix_of (last cand))) ''application/octet-stream'')) (sf_bytes sf cand))"

section \<open>The handler\<close>

record cockpit =
  ck_world :: world
  ck_queue :: queue
  ck_plans :: "(string \<times> plan) list"
  ck_sessions :: "string list"
  ck_bootstrap :: "string option"
  ck_streams :: nat

text \<open>
  What the process is given: the port, the checks and decoders of the standard library, the files, the host side.
  \<open>ce_before\<close> and \<open>kc_fresh\<close> are the clock and the random token of the moment.
\<close>

record cockpit_env =
  kc_port :: int
  kc_netloc :: "string \<Rightarrow> bool"
  kc_decode :: "string \<Rightarrow> string option"
  kc_replace :: "string \<Rightarrow> string"
  kc_static :: static_fs
  kc_os :: cli_os
  kc_before :: "json \<Rightarrow> bool"
  kc_fresh :: string

text \<open>What an answer is made of: the answer itself, or the builder that is asked for its content.\<close>

datatype content = StatusPage | LogsPage string string | HandoffBlock bool | ManifestPage | ExposurePage | DiffPage
  | EventStream | JobsPage | PermissionsPage | SessionToken string | ProfilePage string string

datatype reply = Answer http_answer | Served content | Unhandled

definition refuse :: "int \<Rightarrow> string \<Rightarrow> reply" where
  "refuse status why = Answer (send_json status (JObj [(''error'', JStr why)]) [])"

definition FORBIDDEN :: reply where
  "FORBIDDEN = Answer (send_json 403 (JObj [(''error'', JStr ''forbidden''), (''hint'', JStr ''Host/Origin must be loopback'')]) [])"

definition local_ok :: "cockpit_env \<Rightarrow> http_request \<Rightarrow> bool" where
  "local_ok e rq \<longleftrightarrow> host_origin_ok (header_map (hr_headers rq)) (kc_port e)"

definition session_token :: "http_request \<Rightarrow> cockpit \<Rightarrow> string option" where
  "session_token rq k =
     map_option snd (find (\<lambda>(name, v). name = ''rdm_ui'' \<and> v \<in> set (ck_sessions k))
       (map (\<lambda>part. case py_partition ''='' (strip part) of (n, _, v) \<Rightarrow> (n, v))
         (split_str '';'' (hdr (hr_headers rq) ''Cookie''))))"

definition header_token_ok :: "http_request \<Rightarrow> cockpit \<Rightarrow> bool" where
  "header_token_ok rq k \<longleftrightarrow> (let t = hdr (hr_headers rq) ''X-RDM-Token'' in t \<noteq> [] \<and> t \<in> set (ck_sessions k))"

definition serve_static :: "cockpit_env \<Rightarrow> string \<Rightarrow> string \<Rightarrow> reply" where
  "serve_static e path missing =
     (case static_resolve (kc_replace e) (kc_static e) path of
        None \<Rightarrow> refuse 404 missing
      | Some (b, mime) \<Rightarrow> Answer (respond 200 b mime))"

definition serve_index :: "cockpit_env \<Rightarrow> reply" where
  "serve_index e = serve_static e ''/'' ''index.html not found''"

text \<open>The redirect that carries the cookie.\<close>

definition redirect_home :: "string \<Rightarrow> http_answer" where
  "redirect_home session =
     (let cookie = (case py_partition '': '' (cookie_header session) of (n, _, v) \<Rightarrow> (n, v)); a = respond 302 [] PLAIN in
      a\<lparr>an_headers := an_headers a @ [cookie, (''Location'', ''/'')]\<rparr>)"

definition serve_root :: "cockpit_env \<Rightarrow> http_request \<Rightarrow> string \<Rightarrow> cockpit \<Rightarrow> reply \<times> cockpit" where
  "serve_root e rq query k =
     (let t = query_value (kc_replace e) query ''t'' in
      if t \<noteq> [] then
        (case consume_bootstrap (kc_before e) t (ck_bootstrap k) of
           (True, b) \<Rightarrow> (Answer (redirect_home (kc_fresh e)),
              k\<lparr>ck_bootstrap := b, ck_sessions := ck_sessions k @ [kc_fresh e]\<rparr>)
         | (False, b) \<Rightarrow>
             (if session_token rq k = None then refuse 403 ''invalid or expired bootstrap'' else serve_index e, k\<lparr>ck_bootstrap := b\<rparr>))
      else (if session_token rq k = None then refuse 401 ''unauthorized'' else serve_index e, k))"

definition PROFILE_PREFIX :: string where
  "PROFILE_PREFIX = ''/api/profile/''"

definition ACTION_PREFIX :: string where
  "ACTION_PREFIX = ''/api/action/''"

definition SSE_MAX_CONNECTIONS :: nat where
  "SSE_MAX_CONNECTIONS = 8"

text \<open>The name and the file of the profile that a path names, or the answer that refuses.\<close>

definition profile_target :: "cockpit_env \<Rightarrow> string \<Rightarrow> cockpit \<Rightarrow> reply + string \<times> string" where
  "profile_target e path k =
     (let name = drop (length PROFILE_PREFIX) path in
      if \<not> name_ok name then Inl (refuse 404 ''invalid profile name'')
      else case find_path (kc_os e) (ck_world k) name of
        None \<Rightarrow> Inl (refuse 404 ''profile not found'') | Some f \<Rightarrow> Inr (name, f))"

definition sse_acquire :: "cockpit \<Rightarrow> bool \<times> cockpit" where
  "sse_acquire k = (if SSE_MAX_CONNECTIONS \<le> ck_streams k then (False, k) else (True, k\<lparr>ck_streams := Suc (ck_streams k)\<rparr>))"

definition sse_release :: "cockpit \<Rightarrow> cockpit" where
  "sse_release k = k\<lparr>ck_streams := ck_streams k - 1\<rparr>"

definition LOG_SOURCES :: "string list" where
  "LOG_SOURCES = [''host'', ''ingress'', ''watchdog'', ''runner'', ''gateway'']"

definition serve_api :: "cockpit_env \<Rightarrow> http_request \<Rightarrow> string \<Rightarrow> string \<Rightarrow> string \<Rightarrow> cockpit \<Rightarrow> reply \<times> cockpit" where
  "serve_api e rq path query session k =
     (if path = ''/api/session'' then (Served (SessionToken session), k)
      else if path = ''/api/status'' then (Served StatusPage, k)
      else if path = ''/api/logs'' then
        (let source = query_value (kc_replace e) query ''source'' in
         (if source \<noteq> [] \<and> source \<notin> set LOG_SOURCES then refuse 404 ''unknown source''
          else Served (LogsPage source (lower (query_value (kc_replace e) query ''filter''))), k))
      else if path = ''/api/handoff'' then
        (let reveal = (query_value (kc_replace e) query ''reveal'' = ''1'') in
         (if reveal \<and> \<not> header_token_ok rq k then refuse 403 ''reveal requires a valid header token''
          else Served (HandoffBlock reveal), k))
      else if path = ''/api/manifest'' then (Served ManifestPage, k)
      else if path = ''/api/exposure'' then (Served ExposurePage, k)
      else if path = ''/api/diff'' then (Served DiffPage, k)
      else if path = ''/api/events'' then
        (case sse_acquire k of (False, k1) \<Rightarrow> (refuse 503 ''sse connection limit reached'', k1) | (True, k1) \<Rightarrow> (Served EventStream, k1))
      else if path = ''/api/jobs'' then (Served JobsPage, k)
      else if path = ''/api/permissions'' then (Served PermissionsPage, k)
      else if starts_with PROFILE_PREFIX path then
        (case profile_target e path k of Inl r \<Rightarrow> (r, k) | Inr (name, f) \<Rightarrow> (Served (ProfilePage name f), k))
      else (refuse 404 ''not found'', k))"

text \<open>\<^verbatim>\<open>ValueError\<close> of \<^verbatim>\<open>urlsplit\<close> leaves the request without an answer.\<close>

definition cockpit_get :: "cockpit_env \<Rightarrow> http_request \<Rightarrow> cockpit \<Rightarrow> reply \<times> cockpit" where
  "cockpit_get e rq k =
     (case (url_path (kc_netloc e) (hr_target rq), url_query (kc_netloc e) (hr_target rq)) of
        (Some path, Some query) \<Rightarrow>
          if \<not> local_ok e rq then (FORBIDDEN, k)
          else if path \<in> {[], ''/''} then serve_root e rq query k
          else (case session_token rq k of
             None \<Rightarrow> (refuse 401 ''unauthorized'', k)
           | Some session \<Rightarrow>
               if starts_with ''/api/'' path then serve_api e rq path query session k
               else (serve_static e path ''not found'', k))
      | _ \<Rightarrow> (Unhandled, k))"

text \<open>The guards that an action and the writing of a profile share; \<open>act\<close> is what comes after them.\<close>

definition guarded :: "cockpit_env \<Rightarrow> http_request \<Rightarrow> (string \<Rightarrow> cockpit \<Rightarrow> reply \<times> cockpit) \<Rightarrow> cockpit \<Rightarrow> reply \<times> cockpit" where
  "guarded e rq act k =
     (case url_path (kc_netloc e) (hr_target rq) of
        None \<Rightarrow> (Unhandled, k)
      | Some path \<Rightarrow>
          if \<not> local_ok e rq then (FORBIDDEN, k)
          else if session_token rq k = None then (refuse 401 ''unauthorized'', k)
          else if \<not> header_token_ok rq k then (refuse 403 ''action requires a valid header token'', k)
          else act path k)"

text \<open>The texts of refused profiles and arguments are not modelled: the answers have a fixed one.\<close>

text \<open>The body: \<^const>\<open>None\<close> for a \<^verbatim>\<open>ValueError\<close>, \<^const>\<open>JNull\<close> when there is none.\<close>

definition body_json :: "cockpit_env \<Rightarrow> http_request \<Rightarrow> json option" where
  "body_json e rq =
     (case (if list_ex (\<lambda>(n, _). lower n = ''content-length'') (hr_headers rq)
            then py_int (hdr (hr_headers rq) ''Content-Length'') else Some 0) of
        None \<Rightarrow> None
      | Some n \<Rightarrow> if n \<le> 0 then Some JNull
          else (case kc_decode e (take (nat n) (hr_rest rq)) of None \<Rightarrow> None | Some t \<Rightarrow> loads t))"

definition profile_put :: "cockpit_env \<Rightarrow> http_request \<Rightarrow> string \<Rightarrow> cockpit \<Rightarrow> reply \<times> cockpit" where
  "profile_put e rq path k =
     (case profile_target e path k of
        Inl r \<Rightarrow> (r, k)
      | Inr (name, f) \<Rightarrow>
          (case body_json e rq of
             None \<Rightarrow> (refuse 400 ''body must be valid JSON'', k)
           | Some data \<Rightarrow>
               (case write_raw (co_exists (kc_os e)) data of
                  Inl _ \<Rightarrow> (refuse 400 ''invalid profile'', k)
                | Inr t \<Rightarrow> (Answer (send_json 200 (JObj [(''name'', JStr name), (''path'', JStr f)]) []),
                     k\<lparr>ck_world := (ck_world k)\<lparr>w_files := dset f t (w_files (ck_world k))\<rparr>\<rparr>))))"

definition cockpit_put :: "cockpit_env \<Rightarrow> http_request \<Rightarrow> cockpit \<Rightarrow> reply \<times> cockpit" where
  "cockpit_put e rq =
     guarded e rq (\<lambda>path k. if starts_with PROFILE_PREFIX path then profile_put e rq path k else (refuse 404 ''not found'', k))"

definition api_action :: "cockpit_env \<Rightarrow> http_request \<Rightarrow> string \<Rightarrow> cockpit \<Rightarrow> reply \<times> cockpit" where
  "api_action e rq path k =
     (let name = drop (length ACTION_PREFIX) path in
      if action_plan name [] = None then (refuse 404 ''unknown action'', k)
      else (case body_json e rq of
         None \<Rightarrow> (refuse 400 ''body must be valid JSON'', k)
       | Some data \<Rightarrow>
           (case (case data of JNull \<Rightarrow> Some [] | JObj d \<Rightarrow> Some d | _ \<Rightarrow> None) of
              None \<Rightarrow> (refuse 400 ''body must be a JSON object'', k)
            | Some body \<Rightarrow>
                (case action_plan name body of
                   Some (Some p) \<Rightarrow>
                     (case submit (kc_fresh e) (plan_name p) (ck_queue k) of
                        (None, _) \<Rightarrow> (refuse 409 ''another action is already running'', k)
                      | (Some i, q) \<Rightarrow> (Answer (send_json 202 (JObj [(''action_id'', JStr i)]) []),
                           k\<lparr>ck_queue := q, ck_plans := ck_plans k @ [(i, p)]\<rparr>))
                 | _ \<Rightarrow> (refuse 400 ''invalid arguments'', k)))))"

definition cockpit_post :: "cockpit_env \<Rightarrow> http_request \<Rightarrow> cockpit \<Rightarrow> reply \<times> cockpit" where
  "cockpit_post e rq =
     guarded e rq (\<lambda>path k. if starts_with ACTION_PREFIX path then api_action e rq path k else (refuse 404 ''not found'', k))"

definition build_cockpit :: "string \<Rightarrow> int \<Rightarrow> (string \<times> int) option" where
  "build_cockpit host port = (if host \<noteq> LOOPBACK_HOST then None else Some (LOOPBACK_HOST, port))"

section \<open>The stream of events\<close>

text \<open>\<^verbatim>\<open>bytes.splitlines\<close>.\<close>

function byte_lines :: "string \<Rightarrow> string \<Rightarrow> string list" where
  "byte_lines cur s =
     (case s of
        [] \<Rightarrow> if cur = [] then [] else [cur]
      | c # r \<Rightarrow>
          if c \<noteq> CHR 0x0A \<and> c \<noteq> CHR 0x0D then byte_lines (cur @ [c]) r
          else cur # byte_lines [] (if c = CHR 0x0D \<and> starts_with [CHR 0x0A] r then tl r else r))"
  by pat_completeness auto
termination by (relation "measure (length \<circ> snd)") auto

declare byte_lines.simps [simp del]

definition event_frames :: "string \<Rightarrow> string" where
  "event_frames chunk =
     concat (map (\<lambda>l. ''data: '' @ l @ [CHR 0x0A, CHR 0x0A]) (filter (\<lambda>l. strip_by is_bws l \<noteq> []) (byte_lines [] chunk)))"

text \<open>The part of a text up to its last line end.\<close>

definition whole_lines :: "string \<Rightarrow> string" where
  "whole_lines f = rev (dropWhile (\<lambda>c. c \<noteq> CHR 0x0A) (rev f))"

text \<open>One turn: what is sent, and the new offset; \<^const>\<open>None\<close> when the file cannot be read.\<close>

definition sse_drain :: "string option \<Rightarrow> nat \<Rightarrow> string \<times> nat" where
  "sse_drain content offset =
     (case content of
        None \<Rightarrow> ([], offset)
      | Some f \<Rightarrow>
          let o1 = (if length f < offset then 0 else offset) in
          if length f = o1 then ([], o1)
          else let chunk = whole_lines (drop o1 f) in
            if chunk = [] then ([], o1) else (event_frames chunk, o1 + length chunk))"

fun sse_turns :: "nat \<Rightarrow> string option list \<Rightarrow> string" where
  "sse_turns offset [] = []"
| "sse_turns offset (f # fs) = (case sse_drain f offset of (out, o1) \<Rightarrow> out @ sse_turns o1 fs)"

section \<open>Who may act\<close>

definition trusted :: "cockpit_env \<Rightarrow> http_request \<Rightarrow> cockpit \<Rightarrow> bool" where
  "trusted e rq k \<longleftrightarrow> local_ok e rq \<and> session_token rq k \<noteq> None \<and> header_token_ok rq k"

lemma guarded_cases: "guarded e rq act k = (case url_path (kc_netloc e) (hr_target rq) of
    Some path \<Rightarrow> if trusted e rq k then act path k else (fst (guarded e rq act k), k) | None \<Rightarrow> (Unhandled, k))"
  by (auto simp: guarded_def trusted_def split: option.splits)

lemma guarded_untrusted: "\<not> trusted e rq k \<Longrightarrow> snd (guarded e rq act k) = k"
  by (subst guarded_cases) (auto split: option.splits)

lemma guarded_keeps: "(\<And>path. snd (act path k) = k \<or> Q (snd (act path k))) \<Longrightarrow>
    snd (guarded e rq act k) = k \<or> trusted e rq k \<and> Q (snd (guarded e rq act k))"
  by (subst (1 2) guarded_cases) (auto split: option.splits)

lemma api_action_state: "snd (api_action e rq path k) = k \<or>
    (\<exists>p. \<not> qu_lock (ck_queue k) \<and> fst (api_action e rq path k) = Answer (send_json 202 (JObj [(''action_id'', JStr (kc_fresh e))]) []) \<and>
      snd (api_action e rq path k) = k\<lparr>ck_queue := snd (submit (kc_fresh e) (plan_name p) (ck_queue k)),
        ck_plans := ck_plans k @ [(kc_fresh e, p)]\<rparr>)"
  by (auto simp: api_action_def Let_def submit_def split: option.splits json.splits)

lemma profile_put_state: "snd (profile_put e rq path k) = k \<or>
    (\<exists>name f t data. profile_target e path k = Inr (name, f) \<and> write_raw (co_exists (kc_os e)) data = Inr t \<and>
      snd (profile_put e rq path k) = k\<lparr>ck_world := (ck_world k)\<lparr>w_files := dset f t (w_files (ck_world k))\<rparr>\<rparr>)"
  by (auto simp: profile_put_def split: option.splits sum.splits prod.splits)

lemma cockpit_post_state: "snd (cockpit_post e rq k) = k \<or> trusted e rq k \<and> (\<exists>p. \<not> qu_lock (ck_queue k) \<and>
       snd (cockpit_post e rq k) = k\<lparr>ck_queue := snd (submit (kc_fresh e) (plan_name p) (ck_queue k)),
         ck_plans := ck_plans k @ [(kc_fresh e, p)]\<rparr>)"
  unfolding cockpit_post_def by (rule guarded_keeps) (use api_action_state[of e rq _ k] in auto)

lemma cockpit_put_state: "snd (cockpit_put e rq k) = k \<or> trusted e rq k \<and>
    (\<exists>name f t data. find_path (kc_os e) (ck_world k) name = Some f \<and> name_ok name \<and>
       write_raw (co_exists (kc_os e)) data = Inr t \<and>
       snd (cockpit_put e rq k) = k\<lparr>ck_world := (ck_world k)\<lparr>w_files := dset f t (w_files (ck_world k))\<rparr>\<rparr>)"
proof -
  let ?R = "\<lambda>k'. \<exists>name f t data. find_path (kc_os e) (ck_world k) name = Some f \<and> name_ok name \<and>
       write_raw (co_exists (kc_os e)) data = Inr t \<and>
       k' = k\<lparr>ck_world := (ck_world k)\<lparr>w_files := dset f t (w_files (ck_world k))\<rparr>\<rparr>"
  have "profile_target e path k = Inr (name, f) \<Longrightarrow> find_path (kc_os e) (ck_world k) name = Some f \<and> name_ok name" for path name f
    by (auto simp: profile_target_def Let_def split: if_splits option.splits)
  then have "snd (profile_put e rq path k) = k \<or> ?R (snd (profile_put e rq path k))" for path
    using profile_put_state[of e rq path k] by metis
  then show ?thesis unfolding cockpit_put_def by (intro guarded_keeps) simp
qed


lemma cockpit_get_cases:
  obtains (refused) r where "cockpit_get e rq k = (r, k)" "\<And>c. r \<noteq> Served c"
  | (root) query where "local_ok e rq" "cockpit_get e rq k = serve_root e rq query k"
  | (api) path query session where "local_ok e rq" "session_token rq k = Some session"
      "cockpit_get e rq k = serve_api e rq path query session k"
proof -
  have static: "serve_static e path m \<noteq> Served c" for path m c
    by (simp add: serve_static_def refuse_def split: option.splits)
  show thesis
  proof (cases "url_path (kc_netloc e) (hr_target rq)")
    case None
    then show thesis by (intro refused[of Unhandled]) (simp_all add: cockpit_get_def)
  next
    case p: (Some path)
    show thesis
    proof (cases "url_query (kc_netloc e) (hr_target rq)")
      case None
      then show thesis using p by (intro refused[of Unhandled]) (simp_all add: cockpit_get_def)
    next
      case q: (Some query)
      note get = p q cockpit_get_def
      consider "\<not> local_ok e rq" | "local_ok e rq" "path \<in> {[], ''/''}"
        | "local_ok e rq" "path \<notin> {[], ''/''}" "session_token rq k = None"
        | s where "local_ok e rq" "path \<notin> {[], ''/''}" "session_token rq k = Some s" "starts_with ''/api/'' path"
        | s where "local_ok e rq" "path \<notin> {[], ''/''}" "session_token rq k = Some s" "\<not> starts_with ''/api/'' path"
        by blast
      then show thesis
      proof cases
        case 1 then show thesis by (intro refused[of FORBIDDEN]) (simp_all add: get FORBIDDEN_def)
      next
        case 2 then show thesis by (intro root[of query]) (auto simp: get)
      next
        case 3 then show thesis by (intro refused[of "refuse 401 ''unauthorized''"]) (simp_all add: get refuse_def)
      next
        case 4 then show thesis by (intro api[of s path query]) (simp_all add: get)
      next
        case 5 then show thesis by (intro refused[of "serve_static e path ''not found''"]) (simp_all add: get static)
      qed
    qed
  qed
qed


section \<open>Where sessions come from\<close>

text \<open>What happens to a cockpit: the owner writes a bootstrap, requests come in, the worker moves, a stream ends.\<close>

datatype ck_op = Bootstrap string json | Get cockpit_env http_request | Post cockpit_env http_request
  | Put cockpit_env http_request | Work "json \<Rightarrow> int option" json action_outcome nat | EndStream

fun ck_step :: "ck_op \<Rightarrow> cockpit \<Rightarrow> cockpit" where
  "ck_step (Bootstrap t ex) k = k\<lparr>ck_bootstrap := Some (bootstrap_text t ex)\<rparr>"
| "ck_step (Get e rq) k = snd (cockpit_get e rq k)"
| "ck_step (Post e rq) k = snd (cockpit_post e rq k)"
| "ck_step (Put e rq) k = snd (cockpit_put e rq k)"
| "ck_step (Work to_int now r n) k = k\<lparr>ck_queue := worker_step to_int now r n (ck_queue k)\<rparr>"
| "ck_step EndStream k = sse_release k"

definition new_cockpit :: "world \<Rightarrow> cockpit" where
  "new_cockpit w = \<lparr>ck_world = w, ck_queue = new_queue, ck_plans = [], ck_sessions = [], ck_bootstrap = None, ck_streams = 0\<rparr>"

text \<open>The bootstrap token that a request presents, and those for which sessions were given in a run.\<close>

definition presented :: "cockpit_env \<Rightarrow> http_request \<Rightarrow> string" where
  "presented e rq = (case url_query (kc_netloc e) (hr_target rq) of None \<Rightarrow> [] | Some q \<Rightarrow> query_value (kc_replace e) q ''t'')"

fun accepted_by :: "ck_op \<Rightarrow> cockpit \<Rightarrow> string list" where
  "accepted_by (Get e rq) k = (if ck_sessions (snd (cockpit_get e rq k)) = ck_sessions k then [] else [presented e rq])"
| "accepted_by _ k = []"

fun accepted_run :: "ck_op list \<Rightarrow> cockpit \<Rightarrow> string list" where
  "accepted_run [] k = []"
| "accepted_run (p # ps) k = accepted_by p k @ accepted_run ps (ck_step p k)"

fun written_by :: "ck_op \<Rightarrow> string list" where
  "written_by (Bootstrap t ex) = [t]"
| "written_by _ = []"

fun exact_op :: "ck_op \<Rightarrow> bool" where
  "exact_op (Bootstrap t ex) \<longleftrightarrow> json_exact ex"
| "exact_op _ \<longleftrightarrow> True"

text \<open>The token that the file still holds.\<close>

definition pending_token :: "cockpit \<Rightarrow> string list" where
  "pending_token k =
     (case ck_bootstrap k of None \<Rightarrow> []
      | Some t \<Rightarrow> (case loads t of Some (JObj d) \<Rightarrow> (case obj_get d ''token'' of JStr s \<Rightarrow> [s] | _ \<Rightarrow> []) | _ \<Rightarrow> []))"

lemma pending_bootstrap: "json_exact ex \<Longrightarrow> pending_token (k\<lparr>ck_bootstrap := Some (bootstrap_text t ex)\<rparr>) = [t]"
proof -
  assume "json_exact ex"
  then have "json_exact (JObj [(''token'', JStr t), (''exp'', ex)])" by simp
  from loads_dumps[OF this] have "loads (bootstrap_text t ex) = Some (JObj [(''token'', JStr t), (''exp'', ex)])"
    by (simp add: bootstrap_text_def)
  then show ?thesis by (simp add: pending_token_def obj_get_def)
qed

lemma consume_cases:
  obtains (refused) b where "consume_bootstrap before t text = (False, b)" "b = text \<or> b = None"
  | (accepted) x d where "consume_bootstrap before t text = (True, None)" "text = Some x" "loads x = Some (JObj d)" "obj_get d ''token'' = JStr t"
proof (cases "fst (consume_bootstrap before t text)")
  case True
  then have "\<exists>x d. consume_bootstrap before t text = (True, None) \<and> text = Some x \<and> loads x = Some (JObj d) \<and> obj_get d ''token'' = JStr t"
    by (auto simp: consume_bootstrap_def bootstrap_accepts_def split: option.splits json.splits)
  then show thesis using accepted by blast
next
  case False
  then show thesis
    by (intro refused[of "snd (consume_bootstrap before t text)"])
      (auto simp: consume_bootstrap_def split: option.splits)
qed

lemma root_sessions:
  assumes "url_query (kc_netloc e) (hr_target rq) = Some query"
  shows "case serve_root e rq query k of (r, k1) \<Rightarrow>
    ck_sessions k1 = ck_sessions k \<and> (ck_bootstrap k1 = ck_bootstrap k \<or> ck_bootstrap k1 = None) \<or>
    ck_sessions k1 = ck_sessions k @ [kc_fresh e] \<and> pending_token k = [presented e rq] \<and> ck_bootstrap k1 = None"
proof -
  let ?t = "query_value (kc_replace e) query ''t''"
  show ?thesis
  proof (cases "?t = []")
    case False
    then show ?thesis
      by (cases rule: consume_cases[of "kc_before e" ?t "ck_bootstrap k"])
        (auto simp: serve_root_def Let_def assms presented_def pending_token_def)
  qed (simp add: serve_root_def)
qed

lemma get_sessions:
  "ck_sessions (snd (cockpit_get e rq k)) = ck_sessions k \<and>
     (ck_bootstrap (snd (cockpit_get e rq k)) = ck_bootstrap k \<or> ck_bootstrap (snd (cockpit_get e rq k)) = None) \<or>
   ck_sessions (snd (cockpit_get e rq k)) = ck_sessions k @ [kc_fresh e] \<and> pending_token k = [presented e rq] \<and>
     ck_bootstrap (snd (cockpit_get e rq k)) = None"
proof (cases "\<exists>path query. url_path (kc_netloc e) (hr_target rq) = Some path \<and> url_query (kc_netloc e) (hr_target rq) = Some query \<and>
    local_ok e rq \<and> path \<in> {[], ''/''}")
  case True
  then obtain path query where "url_path (kc_netloc e) (hr_target rq) = Some path" "local_ok e rq" "path \<in> {[], ''/''}"
    and q: "url_query (kc_netloc e) (hr_target rq) = Some query" by blast
  then have "cockpit_get e rq k = serve_root e rq query k" by (auto simp: cockpit_get_def)
  then show ?thesis using root_sessions[OF q, of k] by (simp split: prod.splits)
next
  case False
  have api: "ck_sessions (snd (serve_api e rq path query s k)) = ck_sessions k \<and> ck_bootstrap (snd (serve_api e rq path query s k)) = ck_bootstrap k"
    for path query s
    by (simp add: serve_api_def Let_def sse_acquire_def split: sum.splits prod.splits)
  from False have "snd (cockpit_get e rq k) = k \<or> (\<exists>path query s. snd (cockpit_get e rq k) = snd (serve_api e rq path query s k))"
    unfolding cockpit_get_def by (auto split: option.splits)
  then show ?thesis using api by auto
qed

lemma pending_cong: "ck_bootstrap k1 = ck_bootstrap k \<Longrightarrow> pending_token k1 = pending_token k"
  "ck_bootstrap k1 = None \<Longrightarrow> pending_token k1 = []"
  by (simp_all add: pending_token_def)

lemma step_other:
  assumes "written_by p = []" "accepted_by p k = []"
  shows "ck_sessions (ck_step p k) = ck_sessions k \<and> (pending_token (ck_step p k) = pending_token k \<or> pending_token (ck_step p k) = [])"
proof (cases p)
  case (Get e rq)
  then show ?thesis using get_sessions[of e rq k] assms(2) pending_cong(1)[of "snd (cockpit_get e rq k)" k]
      pending_cong(2)[of "snd (cockpit_get e rq k)"] by (auto split: if_splits)
next
  case (Post e rq)
  then show ?thesis using cockpit_post_state[of e rq k] by (auto intro: pending_cong)
next
  case (Put e rq)
  then show ?thesis using cockpit_put_state[of e rq k] by (auto intro: pending_cong)
qed (use assms in \<open>auto simp: sse_release_def intro: pending_cong\<close>)

lemma accepted_pending: "list_all exact_op ps \<Longrightarrow> subseq (accepted_run ps k) (pending_token k @ concat (map written_by ps))"
proof (induction ps arbitrary: k)
  case (Cons p ps)
  have ih: "subseq (accepted_run ps (ck_step p k)) (pending_token (ck_step p k) @ concat (map written_by ps))" using Cons by simp
  consider t ex where "p = Bootstrap t ex" | e rq where "p = Get e rq" "accepted_by p k \<noteq> []" | "written_by p = []" "accepted_by p k = []"
    by (cases p) auto
  then show ?case
  proof cases
    case 1
    then show ?thesis using ih Cons.prems by (auto simp: pending_bootstrap)
  next
    case 2
    then have "pending_token k = [presented e rq]" "pending_token (ck_step p k) = []" "accepted_by p k = [presented e rq]"
      using get_sessions[of e rq k] by (auto simp: pending_cong(2) split: if_splits)
    then show ?thesis using ih 2 by simp
  next
    case 3
    then show ?thesis using ih step_other[OF 3] by auto
  qed
qed simp

lemma accepted_sessions: "length (ck_sessions (fold ck_step ps k)) = length (ck_sessions k) + length (accepted_run ps k)"
proof (induction ps arbitrary: k)
  case (Cons p ps)
  have "length (ck_sessions (ck_step p k)) = length (ck_sessions k) + length (accepted_by p k)"
  proof (cases "\<exists>e rq. p = Get e rq \<and> accepted_by p k \<noteq> []")
    case True
    then obtain e rq where "p = Get e rq" "accepted_by p k \<noteq> []" by blast
    then show ?thesis using get_sessions[of e rq k] by (auto split: if_splits)
  next
    case False
    then show ?thesis using step_other[of p k] by (cases p) auto
  qed
  then show ?case using Cons[of "ck_step p k"] by simp
qed simp


definition demo_cockpit_env :: "cli_os \<Rightarrow> static_fs \<Rightarrow> cockpit_env" where
  "demo_cockpit_env c sf = \<lparr>kc_port = 80, kc_netloc = (\<lambda>_. True), kc_decode = Some, kc_replace = (\<lambda>x. x), kc_static = sf,
     kc_os = c, kc_before = (\<lambda>_. True), kc_fresh = ''s''\<rparr>"

definition demo_get :: http_request where
  "demo_get = \<lparr>hr_target = ''/?t=b'', hr_headers = [(''Host'', ''localhost:80'')], hr_rest = []\<rparr>"

lemma demo_cockpit_step:
  "ck_sessions (snd (cockpit_get (demo_cockpit_env c sf) demo_get (ck_step (Bootstrap ''b'' (JFloat ''1.5'')) (new_cockpit w)))) = [''s'']"
  "presented (demo_cockpit_env c sf) demo_get = ''b''"
proof -
  have "url_path (\<lambda>_. True) ''/?t=b'' = Some ''/''" "url_query (\<lambda>_. True) ''/?t=b'' = Some ''t=b''"
    "query_value (\<lambda>x. x) ''t=b'' ''t'' = ''b''" "host_origin_ok (header_map [(''Host'', ''localhost:80'')]) 80"
    "consume_bootstrap (\<lambda>_. True) ''b'' (Some (bootstrap_text ''b'' (JFloat ''1.5''))) = (True, None)"
    by code_simp+
  then show "ck_sessions (snd (cockpit_get (demo_cockpit_env c sf) demo_get (ck_step (Bootstrap ''b'' (JFloat ''1.5'')) (new_cockpit w)))) = [''s'']"
    "presented (demo_cockpit_env c sf) demo_get = ''b''"
    by (simp_all add: cockpit_get_def demo_cockpit_env_def demo_get_def local_ok_def serve_root_def new_cockpit_def presented_def)
qed



text \<open>
  The reading and the removal of the file are two steps: two requests that present the same token at the same time,
  one of which reads before the other removes, both get a session.
\<close>

datatype consumer = Waiting string | Holding string "string option" | Decided bool

definition consume_check :: "(json \<Rightarrow> bool) \<Rightarrow> string \<Rightarrow> string option \<Rightarrow> bool \<times> bool" where
  "consume_check before token text =
     (case text of None \<Rightarrow> (False, False)
      | Some t \<Rightarrow> (case loads t of None \<Rightarrow> (False, False) | Some j \<Rightarrow> (bootstrap_accepts before token j, True)))"

definition consumer_step :: "(json \<Rightarrow> bool) \<Rightarrow> nat \<Rightarrow> string option \<times> consumer list \<Rightarrow> string option \<times> consumer list" where
  "consumer_step before n s =
     (case s of (text, cs) \<Rightarrow>
        (case cs ! n of
           Waiting t \<Rightarrow> (text, cs[n := Holding t text])
         | Holding t r \<Rightarrow> (case consume_check before t r of (ok, unlink) \<Rightarrow> (if unlink then None else text, cs[n := Decided ok]))
         | Decided b \<Rightarrow> s))"

lemma consume_alone:
  "consume_bootstrap before t text =
     (let s = fold (consumer_step before) [0, 0] (text, [Waiting t]) in (snd s ! 0 = Decided True, fst s))"
  by (auto simp: consume_bootstrap_def consumer_step_def consume_check_def split: option.splits)

lemma bootstrap_used_twice:
  assumes "consume_bootstrap before t text = (True, b)"
  shows "fold (consumer_step before) [0, 1, 0, 1] (text, [Waiting t, Waiting t]) = (None, [Decided True, Decided True])"
  using assms by (auto simp: consume_bootstrap_def consumer_step_def consume_check_def split: option.splits)

section \<open>What a listener gets\<close>

lemma byte_lines_append:
  "byte_lines cur ((a @ [CHR 0x0A]) @ b) = byte_lines cur (a @ [CHR 0x0A]) @ byte_lines [] b"
proof (induction "length a" arbitrary: a cur rule: less_induct)
  case less
  show ?case
  proof (cases a)
    case Nil
    then show ?thesis by (simp add: byte_lines.simps[of cur "CHR 0x0A # b"] byte_lines.simps[of cur "[CHR 0x0A]"] byte_lines.simps[of "[]" "[]"])
  next
    case (Cons c r)
    have r: "byte_lines x (r @ CHR 0x0A # b) = byte_lines x (r @ [CHR 0x0A]) @ byte_lines [] b" for x using less Cons by simp
    have tl: "byte_lines [] (tl (r @ CHR 0x0A # b)) = byte_lines [] (tl (r @ [CHR 0x0A])) @ byte_lines [] b"
      using less Cons by (cases r) (simp_all add: byte_lines.simps[of "[]" "[]"])
    have "starts_with [CHR 0x0A] (r @ CHR 0x0A # b) = starts_with [CHR 0x0A] (r @ [CHR 0x0A])"
      by (cases r) (simp_all add: starts_with_def)
    then show ?thesis using r tl Cons
      by (simp add: byte_lines.simps[of cur "c # r @ CHR 0x0A # b"] byte_lines.simps[of cur "c # r @ [CHR 0x0A]"])
  qed
qed

lemma whole_lines_ends: "whole_lines f = [] \<or> (\<exists>a. whole_lines f = a @ [CHR 0x0A])"
proof (cases "dropWhile (\<lambda>c. c \<noteq> CHR 0x0A) (rev f)")
  case (Cons c r)
  then have "c = CHR 0x0A" by (auto simp: dropWhile_eq_Cons_conv)
  then show ?thesis using Cons by (simp add: whole_lines_def)
qed (simp add: whole_lines_def)

lemma whole_lines_split: "f = whole_lines f @ rev (takeWhile (\<lambda>c. c \<noteq> CHR 0x0A) (rev f))"
  unfolding whole_lines_def by (metis rev_append rev_rev_ident takeWhile_dropWhile_id)

lemma whole_lines_none: "whole_lines b = [] \<longleftrightarrow> CHR 0x0A \<notin> set b"
  by (auto simp: whole_lines_def)

lemma whole_lines_append: "whole_lines (a @ b) = (if CHR 0x0A \<in> set b then a @ whole_lines b else whole_lines a)"
proof (cases "CHR 0x0A \<in> set b")
  case True
  then have "CHR 0x0A \<in> set (rev b)" by simp
  then have "dropWhile (\<lambda>c. c \<noteq> CHR 0x0A) (rev b @ rev a) = dropWhile (\<lambda>c. c \<noteq> CHR 0x0A) (rev b) @ rev a"
    by (rule dropWhile_append1) simp
  then show ?thesis using True by (simp add: whole_lines_def)
next
  case False
  then have "dropWhile (\<lambda>c. c \<noteq> CHR 0x0A) (rev b @ rev a) = dropWhile (\<lambda>c. c \<noteq> CHR 0x0A) (rev a)"
    by (intro dropWhile_append2) auto
  then show ?thesis using False by (simp add: whole_lines_def)
qed

lemma whole_lines_idem: "whole_lines (whole_lines f) = whole_lines f"
  using whole_lines_ends[of f] by (auto simp: whole_lines_def)

lemma event_frames_append: "a = [] \<or> (\<exists>x. a = x @ [CHR 0x0A]) \<Longrightarrow> event_frames (a @ b) = event_frames a @ event_frames b"
  using byte_lines_append[of "[]" _ b] by (auto simp: event_frames_def byte_lines.simps[of "[]" "[]"])

text \<open>The file as it grows from turn to turn.\<close>

fun growing :: "string \<Rightarrow> string list \<Rightarrow> bool" where
  "growing f [] \<longleftrightarrow> True"
| "growing f (g # gs) \<longleftrightarrow> take (length f) g = f \<and> growing g gs"

lemma drain_growing:
  assumes "take (length f) g = f"
  shows "case sse_drain (Some g) (length (whole_lines f)) of (out, o1) \<Rightarrow>
    event_frames (whole_lines f) @ out = event_frames (whole_lines g) \<and> o1 = length (whole_lines g)"
proof -
  obtain x where x: "f = whole_lines f @ x" "CHR 0x0A \<notin> set x"
    by (rule that[OF whole_lines_split]) (auto dest: set_takeWhileD)
  define r where "r = x @ drop (length f) g"
  have g: "g = whole_lines f @ r" using assms x(1) unfolding r_def by (metis append.assoc append_take_drop_id)
  have wg: "whole_lines g = whole_lines f @ whole_lines r"
    unfolding g whole_lines_append using whole_lines_none[of r] whole_lines_idem[of f] by simp
  have "event_frames (whole_lines f @ whole_lines r) = event_frames (whole_lines f) @ event_frames (whole_lines r)"
    by (rule event_frames_append[OF whole_lines_ends])
  moreover have "drop (length (whole_lines f)) g = r" "length g = length (whole_lines f) + length r" by (simp_all add: g)
  moreover have "event_frames [] = []" by (simp add: event_frames_def byte_lines.simps[of "[]" "[]"])
  moreover have "r = [] \<Longrightarrow> whole_lines r = []" by (simp add: whole_lines_none)
  ultimately show ?thesis unfolding wg sse_drain_def Let_def by (cases "r = []"; cases "whole_lines r = []") simp_all
qed

text \<open>
  C33. A listener of the event stream gets every event once and in order: while the file of events grows, in whatever
  pieces it is written, what all turns have sent is the frames of the whole lines that are not blank, an incomplete last
  line being left for a later turn.
\<close>

theorem event_stream_exact:
  assumes "growing [] fs"
  shows "sse_turns 0 (map Some fs) = event_frames (whole_lines (last ([] # fs)))"
proof -
  have "growing f fs \<Longrightarrow>
      event_frames (whole_lines f) @ sse_turns (length (whole_lines f)) (map Some fs) = event_frames (whole_lines (last (f # fs)))" for f
  proof (induction fs arbitrary: f)
    case (Cons g gs)
    obtain out o1 where d: "sse_drain (Some g) (length (whole_lines f)) = (out, o1)" by fastforce
    have h: "event_frames (whole_lines f) @ out = event_frames (whole_lines g)" "o1 = length (whole_lines g)"
      using drain_growing[of f g] Cons.prems d by auto
    have "event_frames (whole_lines f) @ sse_turns (length (whole_lines f)) (map Some (g # gs)) =
        (event_frames (whole_lines f) @ out) @ sse_turns (length (whole_lines g)) (map Some gs)" by (simp add: d h(2))
    also have "\<dots> = event_frames (whole_lines (last (g # gs)))" unfolding h(1) using Cons.IH[of g] Cons.prems by simp
    finally show ?case by simp
  qed simp
  from this[OF assms] show ?thesis by (simp add: whole_lines_def event_frames_def byte_lines.simps[of "[]" "[]"])
qed

theorem event_stream_exact_witness:
  "sse_turns 0 (map Some [''{a'', ''{a}'' @ CHR 0x0A # ''{b'', ''{a}'' @ CHR 0x0A # ''{b}'' @ [CHR 0x0A]]) =
     event_frames (''{a}'' @ CHR 0x0A # ''{b}'' @ [CHR 0x0A])"
proof -
  have "growing [] [''{a'', ''{a}'' @ CHR 0x0A # ''{b'', ''{a}'' @ CHR 0x0A # ''{b}'' @ [CHR 0x0A]]" by simp
  from event_stream_exact[OF this] show ?thesis by (simp add: whole_lines_def)
qed

end
