(* ===== verification/Bridge.thy ===== *)
theory Bridge
  imports Actions
begin

text \<open>
  The client of the bridge (\<^verbatim>\<open>home/rdm/bridge_client.py\<close>) and the commands of the plugin that use it
  (\<^verbatim>\<open>stitch_devbox/jobcontrol.py\<close>). The bridge is a parameter: what it answers to the nth request. Times are
  milliseconds. The texts of errors are left out, the kinds of exceptions are kept, those of Python itself
  (\<^verbatim>\<open>AttributeError\<close>, \<^verbatim>\<open>TypeError\<close>) included.
\<close>

section \<open>Requests and answers\<close>

record posted =
  po_payload :: "(string, json) dict"
  po_token :: string
  po_session :: "string option"

text \<open>The session header (empty if there is none), the decoded body and the content type; or a status; or nothing.\<close>

datatype http_out = HttpOk string string string | HttpFail int | NoConnection

datatype bridge_error = Unreachable | Denied | ToolError | SessionExpired | Crashed

record bridge_env =
  be_server :: "nat \<Rightarrow> posted \<Rightarrow> http_out"
  be_clock :: "nat \<Rightarrow> int"

record bridge =
  bc_token :: string
  bc_session :: "string option"
  bc_id :: int
  bc_deadline :: "int option"
  bc_posts :: "posted list"

type_synonym 'a bact = "bridge \<Rightarrow> (bridge_error + 'a) \<times> bridge"

definition PROTOCOL_VERSION :: string where
  "PROTOCOL_VERSION = ''2025-06-18''"

definition CALL_TIMEOUT_MS :: int where
  "CALL_TIMEOUT_MS = 5000"

definition COMMAND_DEADLINE_MS :: int where
  "COMMAND_DEADLINE_MS = 5500"

definition new_bridge :: "string \<Rightarrow> bridge" where
  "new_bridge token = \<lparr>bc_token = token, bc_session = None, bc_id = 0, bc_deadline = None, bc_posts = []\<rparr>"

definition bret :: "'a \<Rightarrow> 'a bact" where
  "bret x b = (Inr x, b)"

definition bfail :: "bridge_error \<Rightarrow> 'a bact" where
  "bfail er b = (Inl er, b)"

definition bthen :: "'a bact \<Rightarrow> ('a \<Rightarrow> 'c bact) \<Rightarrow> 'c bact" where
  "bthen m f b = (case m b of (Inl er, b1) \<Rightarrow> (Inl er, b1) | (Inr x, b1) \<Rightarrow> f x b1)"

definition now_of :: "bridge_env \<Rightarrow> bridge \<Rightarrow> int" where
  "now_of e b = be_clock e (length (bc_posts b))"

text \<open>What is left of the budget of the command; \<^const>\<open>None\<close> when nothing is.\<close>

definition call_timeout :: "bridge_env \<Rightarrow> bridge \<Rightarrow> int option" where
  "call_timeout e b =
     (case bc_deadline b of
        None \<Rightarrow> Some CALL_TIMEOUT_MS
      | Some d \<Rightarrow> if d - now_of e b \<le> 0 then None else Some (min CALL_TIMEOUT_MS (d - now_of e b)))"

text \<open>The last message with a result or an error among the data lines.\<close>

definition sse_data :: "string \<Rightarrow> (string, json) dict option" where
  "sse_data line =
     (if \<not> starts_with ''data:'' line then None
      else let chunk = strip (drop 5 line) in
        if chunk = [] \<or> chunk = ''[DONE]'' then None
        else (case loads chunk of Some (JObj d) \<Rightarrow> if has_key d ''result'' \<or> has_key d ''error'' then Some d else None | _ \<Rightarrow> None))"

definition sse_message :: "string \<Rightarrow> (string, json) dict option" where
  "sse_message body =
     (case List.map_filter sse_data (splitlines body) of [] \<Rightarrow> None | ms \<Rightarrow> Some (last ms))"

definition read_answer :: "bridge \<Rightarrow> http_out \<Rightarrow> (bridge_error + (string, json) dict option) \<times> bridge" where
  "read_answer b out =
     (case out of
        HttpOk session body ctype \<Rightarrow>
          (let b1 = (if session \<noteq> [] then b\<lparr>bc_session := Some session\<rparr> else b) in
           if strip body = [] then (Inr None, b1)
           else if contains_sub ''text/event-stream'' (lower ctype) then (Inr (sse_message body), b1)
           else (case loads body of Some (JObj d) \<Rightarrow> (Inr (Some d), b1) | _ \<Rightarrow> (Inl ToolError, b1)))
      | HttpFail status \<Rightarrow>
          (if status = 401 \<or> status = 403 then (Inl Denied, b)
           else if status = 404 \<and> bc_session b \<noteq> None then (Inl SessionExpired, b) else (Inl ToolError, b))
      | NoConnection \<Rightarrow> (Inl Unreachable, b))"

definition post :: "bridge_env \<Rightarrow> (string, json) dict \<Rightarrow> (string, json) dict option bact" where
  "post e p b =
     (if call_timeout e b = None then (Inl Unreachable, b)
      else let r = \<lparr>po_payload = p, po_token = bc_token b, po_session = bc_session b\<rparr> in
        read_answer (b\<lparr>bc_posts := bc_posts b @ [r]\<rparr>) (be_server e (length (bc_posts b)) r))"

definition request_payload :: "int \<Rightarrow> string \<Rightarrow> json \<Rightarrow> (string, json) dict" where
  "request_payload i meth params = [(''jsonrpc'', JStr ''2.0''), (''id'', JInt i), (''method'', JStr meth), (''params'', params)]"

text \<open>A request under the next id.\<close>

definition post_request :: "bridge_env \<Rightarrow> string \<Rightarrow> json \<Rightarrow> (string, json) dict option bact" where
  "post_request e meth params b = (let i = bc_id b + 1 in post e (request_payload i meth params) (b\<lparr>bc_id := i\<rparr>))"

definition init_params :: json where
  "init_params = JObj [(''protocolVersion'', JStr PROTOCOL_VERSION), (''capabilities'', JObj []),
     (''clientInfo'', JObj [(''name'', JStr ''rdm-bridge-client''), (''version'', JStr ''1.0'')])]"

definition initialize :: "bridge_env \<Rightarrow> unit bact" where
  "initialize e =
     bthen (post_request e ''initialize'' init_params) (\<lambda>r.
       case r of
         None \<Rightarrow> bfail ToolError
       | Some d \<Rightarrow>
           if has_key d ''error'' \<or> \<not> is_dict (obj_get d ''result'') then bfail ToolError
           else bthen (post e [(''jsonrpc'', JStr ''2.0''), (''method'', JStr ''notifications/initialized'')]) (\<lambda>_. bret ()))"

definition tool_params :: "string \<Rightarrow> (string, json) dict \<Rightarrow> json" where
  "tool_params name args = JObj [(''name'', JStr name), (''arguments'', JObj args)]"

text \<open>An error that is no object has no \<^verbatim>\<open>get\<close>.\<close>

definition post_tool :: "bridge_env \<Rightarrow> string \<Rightarrow> (string, json) dict \<Rightarrow> (string, json) dict bact" where
  "post_tool e name args =
     bthen (post_request e ''tools/call'' (tool_params name args)) (\<lambda>r.
       case r of
         None \<Rightarrow> bfail ToolError
       | Some d \<Rightarrow>
           if has_key d ''error'' then bfail (if is_dict (obj_get d ''error'') then ToolError else Crashed)
           else (case obj_get d ''result'' of JObj x \<Rightarrow> bret x | _ \<Rightarrow> bfail ToolError))"

text \<open>The first text block that is a JSON object; a text that is no string raises \<^verbatim>\<open>TypeError\<close>.\<close>

fun payload_of :: "json list \<Rightarrow> bridge_error + (string, json) dict" where
  "payload_of [] = Inl ToolError"
| "payload_of (block # rest) =
     (case block of
        JObj d \<Rightarrow>
          if obj_get d ''type'' \<noteq> JStr ''text'' then payload_of rest
          else if \<not> truthy (obj_get d ''text'') then payload_of rest
          else (case obj_get d ''text'' of
             JStr t \<Rightarrow> (case loads t of Some (JObj x) \<Rightarrow> Inr x | _ \<Rightarrow> payload_of rest)
           | _ \<Rightarrow> Inl Crashed)
      | _ \<Rightarrow> payload_of rest)"

definition result_payload :: "(string, json) dict \<Rightarrow> bridge_error + (string, json) dict" where
  "result_payload r =
     (case obj_get r ''content'' of
        JArr blocks \<Rightarrow> payload_of blocks
      | JInt _ \<Rightarrow> if truthy (obj_get r ''content'') then Inl Crashed else Inl ToolError
      | JFloat _ \<Rightarrow> if truthy (obj_get r ''content'') then Inl Crashed else Inl ToolError
      | JBool b \<Rightarrow> if b then Inl Crashed else Inl ToolError
      | _ \<Rightarrow> Inl ToolError)"

text \<open>A request that finds its session expired is repeated once in a new one.\<close>

definition retry_expired :: "bridge_env \<Rightarrow> 'a bact \<Rightarrow> 'a bact" where
  "retry_expired e m b =
     (case m b of
        (Inl SessionExpired, b1) \<Rightarrow> bthen (initialize e) (\<lambda>_. m) (b1\<lparr>bc_session := None\<rparr>)
      | r \<Rightarrow> r)"

definition bcall :: "bridge_env \<Rightarrow> string \<Rightarrow> (string, json) dict \<Rightarrow> (string, json) dict bact" where
  "bcall e name args b =
     bthen (if bc_session b = None then initialize e else bret ()) (\<lambda>_.
       bthen (retry_expired e (post_tool e name args)) (\<lambda>r.
         case result_payload r of
           Inl er \<Rightarrow> bfail er
         | Inr x \<Rightarrow> if truthy (obj_get r ''isError'') then bfail ToolError else bret x)) b"

definition list_or_empty :: "json \<Rightarrow> json list" where
  "list_or_empty j = (case j of JArr xs \<Rightarrow> xs | _ \<Rightarrow> [])"

definition job_list :: "bridge_env \<Rightarrow> json list bact" where
  "job_list e = bthen (bcall e ''opencode_job_list'' []) (\<lambda>x. bret (list_or_empty (obj_get x ''jobs'')))"

definition job_cancel :: "bridge_env \<Rightarrow> string \<Rightarrow> (string, json) dict bact" where
  "job_cancel e i = bcall e ''opencode_job_cancel'' [(''job_id'', JStr i)]"

definition permissions_pending :: "bridge_env \<Rightarrow> json list bact" where
  "permissions_pending e = bthen (bcall e ''opencode_permissions_pending'' []) (\<lambda>x. bret (list_or_empty (obj_get x ''requests'')))"

text \<open>The job of the first pending request with the id.\<close>

fun job_of_request :: "string \<Rightarrow> json list \<Rightarrow> bridge_error + json" where
  "job_of_request i [] = Inr JNull"
| "job_of_request i (r # rs) =
     (case r of JObj d \<Rightarrow> if obj_get d ''id'' = JStr i then Inr (obj_get d ''job_id'') else job_of_request i rs | _ \<Rightarrow> Inl Crashed)"

definition reply_args :: "string \<Rightarrow> string \<Rightarrow> string \<Rightarrow> (string, json) dict" where
  "reply_args job i decision = [(''job_id'', JStr job), (''permission_id'', JStr i), (''reply'', JStr decision)]"

definition permission_reply :: "bridge_env \<Rightarrow> string \<Rightarrow> string \<Rightarrow> (string, json) dict bact" where
  "permission_reply e i decision =
     bthen (permissions_pending e) (\<lambda>rs.
       case job_of_request i rs of
         Inl er \<Rightarrow> bfail er
       | Inr (JStr job) \<Rightarrow> if job = [] then bfail ToolError else bcall e ''opencode_permission_reply'' (reply_args job i decision)
       | Inr _ \<Rightarrow> bfail ToolError)"

text \<open>All calls of a command share one budget.\<close>

definition budget :: "bridge_env \<Rightarrow> 'a bact \<Rightarrow> 'a bact" where
  "budget e m b =
     (case m (b\<lparr>bc_deadline := Some (now_of e b + COMMAND_DEADLINE_MS)\<rparr>) of (r, b1) \<Rightarrow> (r, b1\<lparr>bc_deadline := None\<rparr>))"

section \<open>The commands of the plugin\<close>

definition BRIDGE_DOWN_TTL_MS :: int where
  "BRIDGE_DOWN_TTL_MS = 15000"

definition DECISIONS :: "string list" where
  "DECISIONS = [''once'', ''reject'']"

record job_control =
  jc_client :: "bridge option"
  jc_down_until :: int

definition new_control :: job_control where
  "new_control = \<lparr>jc_client = None, jc_down_until = 0\<rparr>"

text \<open>
  What a command finds: the time, whether the port of the bridge answers, the token in the \<^verbatim>\<open>.env\<close> file, the text of
  the event log, and the parameters of the log's readers.
\<close>

record control_env =
  cv_bridge :: bridge_env
  cv_now :: int
  cv_reachable :: bool
  cv_token :: string
  cv_events :: "string option"
  cv_float :: float_ops
  cv_str :: "json \<Rightarrow> string"
  cv_time :: "json \<Rightarrow> string"

text \<open>Whether the bridge counts as down, and the state after the probe.\<close>

definition bridge_down_gate :: "control_env \<Rightarrow> job_control \<Rightarrow> bool \<times> job_control" where
  "bridge_down_gate v c =
     (if cv_now v < jc_down_until c then (True, c)
      else if cv_reachable v then (False, c)
      else (True, c\<lparr>jc_down_until := cv_now v + BRIDGE_DOWN_TTL_MS\<rparr>))"

text \<open>The client is made once, with the token of that moment.\<close>

definition client_of :: "control_env \<Rightarrow> job_control \<Rightarrow> bridge" where
  "client_of v c = (case jc_client c of None \<Rightarrow> new_bridge (cv_token v) | Some b \<Rightarrow> b)"

definition with_client :: "control_env \<Rightarrow> 'a bact \<Rightarrow> job_control \<Rightarrow> (bridge_error + 'a) \<times> job_control" where
  "with_client v m c =
     (case budget (cv_bridge v) m (client_of v c) of (r, b) \<Rightarrow> (r, c\<lparr>jc_client := Some b\<rparr>))"

record live_row =
  lr_id :: string
  lr_tool :: string
  lr_note :: string
  lr_started :: string

definition terminal_view :: "(string, json) dict \<Rightarrow> bridge_error + bool" where
  "terminal_view d =
     (if hashable (obj_get d ''status'') then Inr (in_strs (obj_get d ''status'') TERMINAL_STATUSES) else Inl Crashed)"

definition job_row :: "(json \<Rightarrow> string) \<Rightarrow> (string, json) dict \<Rightarrow> live_row" where
  "job_row st d = \<lparr>lr_id = str_or st (obj_get d ''job_id''), lr_tool = str_or st (obj_get d ''tool''),
     lr_note = str_or st (obj_get d ''status''), lr_started = str_or st (obj_get d ''created_at'')\<rparr>"

fun job_rows :: "(json \<Rightarrow> string) \<Rightarrow> json list \<Rightarrow> bridge_error + live_row list" where
  "job_rows st [] = Inr []"
| "job_rows st (view # views) =
     (case view of
        JObj d \<Rightarrow> rbind (terminal_view d) (\<lambda>t. rbind (job_rows st views) (\<lambda>rs. Inr (if t then rs else job_row st d # rs)))
      | _ \<Rightarrow> Inl Crashed)"

definition events_job_rows :: "control_env \<Rightarrow> live_row list" where
  "events_job_rows v =
     map (\<lambda>j. \<lparr>lr_id = str_or (cv_str v) (jb_id j), lr_tool = str_or (cv_str v) (jb_tool j),
          lr_note = str_or (cv_str v) (jb_status j), lr_started = iso (cv_str v) (cv_time v) (jb_request_ts j)\<rparr>)
       (filter (\<lambda>j. \<not> jb_terminal j) (co_jobs (correlate (cv_float v) (read_events (cv_events v)))))"

text \<open>The rows, whether they come from the bridge, and whether it counts as up.\<close>

definition jobs_live :: "control_env \<Rightarrow> job_control \<Rightarrow> (bridge_error + live_row list \<times> bool \<times> bool) \<times> job_control" where
  "jobs_live v c =
     (case bridge_down_gate v c of
        (True, c1) \<Rightarrow> (Inr (events_job_rows v, False, False), c1)
      | (False, c1) \<Rightarrow>
          (case with_client v (job_list (cv_bridge v)) c1 of
             (Inr views, c2) \<Rightarrow>
               (case job_rows (cv_str v) views of
                  Inl er \<Rightarrow> (Inl er, c2\<lparr>jc_down_until := 0\<rparr>) | Inr rows \<Rightarrow> (Inr (rows, True, True), c2\<lparr>jc_down_until := 0\<rparr>))
           | (Inl Unreachable, c2) \<Rightarrow> (Inr (events_job_rows v, False, False), c2\<lparr>jc_down_until := cv_now v + BRIDGE_DOWN_TTL_MS\<rparr>)
           | (Inl ToolError, c2) \<Rightarrow> (Inr (events_job_rows v, False, False), c2)
           | (Inl er, c2) \<Rightarrow> (Inl er, c2)))"

text \<open>\<open>Inl\<close>: the arguments are refused; otherwise whether the bridge accepted, or the exception.\<close>

definition control_call :: "control_env \<Rightarrow> (string, json) dict bact \<Rightarrow> job_control \<Rightarrow> (bridge_error + bool) \<times> job_control" where
  "control_call v m c =
     (case with_client v m c of
        (Inr _, c1) \<Rightarrow> (Inr True, c1)
      | (Inl er, c1) \<Rightarrow> (if er \<in> {Unreachable, Denied, ToolError} then Inr False else Inl er, c1))"

definition control_job_cancel ::
  "control_env \<Rightarrow> string \<Rightarrow> job_control \<Rightarrow> (bridge_error + bool) option \<times> job_control" where
  "control_job_cancel v i c =
     (if i = [] then (None, c) else apfst Some (control_call v (job_cancel (cv_bridge v) i) c))"

definition control_permission_reply ::
  "control_env \<Rightarrow> string \<Rightarrow> string \<Rightarrow> job_control \<Rightarrow> (bridge_error + bool) option \<times> job_control" where
  "control_permission_reply v i decision c =
     (if i = [] \<or> decision \<notin> set DECISIONS then (None, c)
      else apfst Some (control_call v (permission_reply (cv_bridge v) i decision) c))"

section \<open>Pending permissions\<close>

definition shown_text :: "(json \<Rightarrow> string) \<Rightarrow> json \<Rightarrow> string" where
  "shown_text st v = (case v of JStr s \<Rightarrow> s | _ \<Rightarrow> st v)"

text \<open>The items of \<^verbatim>\<open>x or []\<close>; a number cannot be iterated.\<close>

definition items_or_empty :: "json \<Rightarrow> bridge_error + json list" where
  "items_or_empty j =
     (if \<not> truthy j then Inr []
      else case j of JArr xs \<Rightarrow> Inr xs | JStr t \<Rightarrow> Inr (map (\<lambda>c. JStr [c]) t) | JObj d \<Rightarrow> Inr (map (\<lambda>(k, _). JStr k) d) | _ \<Rightarrow> Inl Crashed)"

definition summary :: "(json \<Rightarrow> string) \<Rightarrow> (string, json) dict \<Rightarrow> bridge_error + string" where
  "summary st r =
     rbind (items_or_empty (obj_get r ''patterns'')) (\<lambda>ps.
       let permission = str_or st (obj_get r ''permission''); patterns = py_join '', '' (map (shown_text st) ps) in
       Inr (if patterns = [] then permission else permission @ '': '' @ patterns))"

definition as_dict :: "json \<Rightarrow> bridge_error + (string, json) dict" where
  "as_dict j = (case j of JObj d \<Rightarrow> Inr d | _ \<Rightarrow> Inl Crashed)"

definition job_key :: "(string, json) dict \<Rightarrow> bridge_error + json" where
  "job_key d = (if hashable (obj_get d ''job_id'') then Inr (obj_get d ''job_id'') else Inl Crashed)"

text \<open>The views by their job; the last one of a job counts.\<close>

definition views_by_job :: "json list \<Rightarrow> bridge_error + (json, (string, json) dict) dict" where
  "views_by_job views =
     rbind (rtraverse (\<lambda>j. rbind (as_dict j) (\<lambda>d. rbind (job_key d) (\<lambda>i. Inr (i, d)))) views) (\<lambda>ps.
       Inr (fold (\<lambda>(i, d). dset i d) ps []))"

definition request_row :: "(json \<Rightarrow> string) \<Rightarrow> (json, (string, json) dict) dict \<Rightarrow> json \<Rightarrow> bridge_error + live_row" where
  "request_row st by_job r =
     rbind (as_dict r) (\<lambda>d. rbind (job_key d) (\<lambda>i. rbind (summary st d) (\<lambda>t.
       let view = dget_or by_job i [] in
       Inr \<lparr>lr_id = str_or st (obj_get d ''id''), lr_tool = str_or st (obj_get view ''tool''), lr_note = t,
            lr_started = str_or st (obj_get view ''created_at'')\<rparr>)))"

definition bridge_permission_rows :: "control_env \<Rightarrow> job_control \<Rightarrow> (bridge_error + live_row list) \<times> job_control" where
  "bridge_permission_rows v c =
     (case with_client v (bthen (job_list (cv_bridge v)) (\<lambda>views. bthen (permissions_pending (cv_bridge v)) (\<lambda>rs. bret (views, rs)))) c of
        (Inl er, c1) \<Rightarrow> (Inl er, c1)
      | (Inr (views, rs), c1) \<Rightarrow> (rbind (views_by_job views) (\<lambda>bj. rtraverse (request_row (cv_str v) bj) rs), c1))"

text \<open>The last response of each job, in the order of the jobs' first responses.\<close>

definition last_responses :: "event list \<Rightarrow> (json, event) dict" where
  "last_responses events =
     fold (\<lambda>e d. if is_response e \<and> obj_get e ''job_id'' \<noteq> JNull then dset (obj_get e ''job_id'') e d else d) events []"

definition tap_permission_rows :: "control_env \<Rightarrow> bridge_error + live_row list" where
  "tap_permission_rows v =
     (let events = read_events (cv_events v);
          tools = fold (\<lambda>j d. dset (jb_id j) (jb_tool j) d) (co_jobs (correlate (cv_float v) events)) [] in
      if list_ex (\<lambda>e. is_response e \<and> \<not> hashable (obj_get e ''job_id'')) events then Inl Crashed
      else Inr (List.map_filter (\<lambda>(i, e).
        if obj_get e ''status'' = JStr ''awaiting_permission'' \<and> truthy (obj_get e ''permission_id'')
        then Some \<lparr>lr_id = shown_text (cv_str v) (obj_get e ''permission_id''),
               lr_tool = str_or (cv_str v) (dget_or tools i JNull), lr_note = str_or (cv_str v) (obj_get e ''permission''),
               lr_started = iso (cv_str v) (cv_time v) (obj_get e ''ts'')\<rparr>
        else None) (last_responses events)))"

definition from_taps :: "control_env \<Rightarrow> job_control \<Rightarrow> (bridge_error + live_row list \<times> bool) \<times> job_control" where
  "from_taps v c = (rbind (tap_permission_rows v) (\<lambda>rows. Inr (rows, False)), c)"

definition control_permissions :: "control_env \<Rightarrow> job_control \<Rightarrow> (bridge_error + live_row list \<times> bool) \<times> job_control" where
  "control_permissions v c =
     (case bridge_down_gate v c of
        (True, c1) \<Rightarrow> from_taps v c1
      | (False, c1) \<Rightarrow>
          (case bridge_permission_rows v c1 of
             (Inr rows, c2) \<Rightarrow> (Inr (rows, True), c2\<lparr>jc_down_until := 0\<rparr>)
           | (Inl Unreachable, c2) \<Rightarrow> from_taps v (c2\<lparr>jc_down_until := cv_now v + BRIDGE_DOWN_TTL_MS\<rparr>)
           | (Inl ToolError, c2) \<Rightarrow> from_taps v c2
           | (Inl er, c2) \<Rightarrow> (Inl er, c2)))"

section \<open>What is sent\<close>

text \<open>At most \<open>n\<close> requests more, each of them with the token of the client and a payload of \<open>P\<close>.\<close>

definition sends :: "((string, json) dict \<Rightarrow> bool) \<Rightarrow> nat \<Rightarrow> bridge \<Rightarrow> bridge \<Rightarrow> bool" where
  "sends P n b b1 \<longleftrightarrow> bc_token b1 = bc_token b \<and>
     (\<exists>ps. bc_posts b1 = bc_posts b @ ps \<and> length ps \<le> n \<and> list_all (\<lambda>p. po_token p = bc_token b \<and> P (po_payload p)) ps)"

definition sending :: "((string, json) dict \<Rightarrow> bool) \<Rightarrow> nat \<Rightarrow> 'a bact \<Rightarrow> bool" where
  "sending P n m \<longleftrightarrow> (\<forall>b. sends P n b (snd (m b)))"

lemma sends_refl: "sends P n b b"
  by (simp add: sends_def)

lemma sends_trans: "sends P n a b \<Longrightarrow> sends P k b c \<Longrightarrow> sends P (n + k) a c"
proof -
  assume "sends P n a b" "sends P k b c"
  then obtain ps qs where "bc_token b = bc_token a" "bc_posts b = bc_posts a @ ps" "length ps \<le> n"
      "list_all (\<lambda>p. po_token p = bc_token a \<and> P (po_payload p)) ps"
    and "bc_token c = bc_token b" "bc_posts c = bc_posts b @ qs" "length qs \<le> k"
      "list_all (\<lambda>p. po_token p = bc_token b \<and> P (po_payload p)) qs"
    unfolding sends_def by blast
  then show ?thesis unfolding sends_def by (intro conjI exI[of _ "ps @ qs"]) simp_all
qed

lemma sends_mono: "sends P n a b \<Longrightarrow> n \<le> k \<Longrightarrow> (\<And>x. P x \<Longrightarrow> Q x) \<Longrightarrow> sends Q k a b"
proof -
  assume "sends P n a b" "n \<le> k" "\<And>x. P x \<Longrightarrow> Q x"
  then obtain ps where "bc_token b = bc_token a" "bc_posts b = bc_posts a @ ps" "length ps \<le> n"
      "list_all (\<lambda>p. po_token p = bc_token a \<and> P (po_payload p)) ps" unfolding sends_def by blast
  then show ?thesis unfolding sends_def using \<open>n \<le> k\<close> \<open>\<And>x. P x \<Longrightarrow> Q x\<close>
    by (intro conjI exI[of _ ps]) (simp_all add: list_all_iff)
qed

lemma sending_mono: "sending P n m \<Longrightarrow> n \<le> k \<Longrightarrow> (\<And>x. P x \<Longrightarrow> Q x) \<Longrightarrow> sending Q k m"
  unfolding sending_def by (blast intro: sends_mono)

lemma sends_same: "bc_token b1 = bc_token b \<Longrightarrow> bc_posts b1 = bc_posts b \<Longrightarrow> sends P n b b1"
  by (simp add: sends_def)

lemma sending_ret: "sending P n (bret x)" "sending P n (bfail er)"
  by (simp_all add: sending_def bret_def bfail_def sends_refl)

lemma sending_then:
  assumes "sending P n m" "\<And>x. sending P k (f x)"
  shows "sending P (n + k) (bthen m f)"
  unfolding sending_def
proof
  fix b
  obtain r b1 where m: "m b = (r, b1)" by fastforce
  have "sends P n b b1" using assms(1) m unfolding sending_def by (metis snd_conv)
  then show "sends P (n + k) b (snd (bthen m f b))"
  proof (cases r)
    case (Inl er)
    then show ?thesis using m \<open>sends P n b b1\<close> sends_mono[of P n b b1 "n + k" P] by (simp add: bthen_def)
  next
    case (Inr x)
    have "sends P k b1 (snd (f x b1))" using assms(2) unfolding sending_def by blast
    then show ?thesis using m Inr sends_trans[OF \<open>sends P n b b1\<close>] by (simp add: bthen_def)
  qed
qed

lemma read_answer_same: "bc_token (snd (read_answer b out)) = bc_token b \<and> bc_posts (snd (read_answer b out)) = bc_posts b"
  by (auto simp: read_answer_def Let_def split: http_out.splits option.splits json.splits)

lemma sending_post: "P p \<Longrightarrow> sending P 1 (post e p)"
  unfolding sending_def
proof
  fix b :: bridge
  assume "P p"
  let ?r = "\<lparr>po_payload = p, po_token = bc_token b, po_session = bc_session b\<rparr>"
  have "sends P 1 b (b\<lparr>bc_posts := bc_posts b @ [?r]\<rparr>)" using \<open>P p\<close> by (auto simp: sends_def)
  moreover have "sends P 0 (b\<lparr>bc_posts := bc_posts b @ [?r]\<rparr>) (snd (read_answer (b\<lparr>bc_posts := bc_posts b @ [?r]\<rparr>) out))" for out
    using read_answer_same by (intro sends_same) auto
  ultimately have "sends P 1 b (snd (read_answer (b\<lparr>bc_posts := bc_posts b @ [?r]\<rparr>) out))" for out
    using sends_trans by fastforce
  then show "sends P 1 b (snd (post e p b))" by (simp add: post_def Let_def sends_refl)
qed

lemma sending_request: "(\<And>i. P (request_payload i meth params)) \<Longrightarrow> sending P 1 (post_request e meth params)"
  unfolding sending_def
proof
  fix b
  assume "\<And>i. P (request_payload i meth params)"
  from sending_post[of P, OF this]
  have "sends P 1 (b\<lparr>bc_id := bc_id b + 1\<rparr>) (snd (post_request e meth params b))"
    by (simp add: sending_def post_request_def Let_def)
  then show "sends P 1 b (snd (post_request e meth params b))" by (simp add: sends_def)
qed

definition any_payload :: "(string, json) dict \<Rightarrow> bool" where
  "any_payload p \<longleftrightarrow> True"

text \<open>A call of the tool \<open>name\<close>.\<close>

definition calls_tool :: "string \<Rightarrow> (string, json) dict \<Rightarrow> bool" where
  "calls_tool name p \<longleftrightarrow> obj_get p ''method'' = JStr ''tools/call'' \<and>
     (case obj_get p ''params'' of JObj d \<Rightarrow> obj_get d ''name'' = JStr name | _ \<Rightarrow> False)"

lemma initialize_sends:
  assumes "\<And>p. obj_get p ''method'' \<noteq> JStr ''tools/call'' \<Longrightarrow> P p"
  shows "sending P 2 (initialize e)"
proof -
  have P: "P (request_payload i ''initialize'' x)" "P [(''jsonrpc'', JStr ''2.0''), (''method'', JStr ''notifications/initialized'')]" for i x
    by (rule assms, simp add: request_payload_def obj_get_def)+
  have "sending P 1 (case r of None \<Rightarrow> bfail ToolError | Some d \<Rightarrow>
      if has_key d ''error'' \<or> \<not> is_dict (obj_get d ''result'') then bfail ToolError
      else bthen (post e [(''jsonrpc'', JStr ''2.0''), (''method'', JStr ''notifications/initialized'')]) (\<lambda>_. bret ()))" for r
    using sending_then[OF sending_post[of P, OF P(2)], of 0 "\<lambda>_. bret ()" e] by (simp add: sending_ret split: option.split)
  then show ?thesis unfolding initialize_def one_add_one[symmetric] by (rule sending_then[OF sending_request[of P, OF P(1)]])
qed

lemma post_tool_sends:
  assumes "\<And>i. P (request_payload i ''tools/call'' (tool_params name args))"
  shows "sending P 1 (post_tool e name args)"
proof -
  have "sending P 0 (case r of None \<Rightarrow> bfail ToolError | Some d \<Rightarrow>
      if has_key d ''error'' then bfail (if is_dict (obj_get d ''error'') then ToolError else Crashed)
      else (case obj_get d ''result'' of JObj x \<Rightarrow> bret x | _ \<Rightarrow> bfail ToolError))" for r
    by (auto simp: sending_ret split: option.split json.split)
  from sending_then[OF sending_request[of P, OF assms] this] show ?thesis by (simp add: post_tool_def)
qed

lemma retry_sends:
  assumes "sending P n m" "sending P k (initialize e)"
  shows "sending P (n + (k + n)) (retry_expired e m)"
  unfolding sending_def
proof
  fix b
  obtain r b1 where m: "m b = (r, b1)" by fastforce
  have s: "sends P n b b1" using assms(1) m unfolding sending_def by (metis snd_conv)
  show "sends P (n + (k + n)) b (snd (retry_expired e m b))"
  proof (cases "r = Inl SessionExpired")
    case True
    have "sends P (k + n) (b1\<lparr>bc_session := None\<rparr>) (snd (bthen (initialize e) (\<lambda>_. m) (b1\<lparr>bc_session := None\<rparr>)))"
      using sending_then[OF assms(2,1)] unfolding sending_def by blast
    then have "sends P (k + n) b1 (snd (bthen (initialize e) (\<lambda>_. m) (b1\<lparr>bc_session := None\<rparr>)))" by (simp add: sends_def)
    then show ?thesis using sends_trans[OF s] m True by (simp add: retry_expired_def)
  next
    case False
    then show ?thesis using m s sends_mono[of P n b b1 "n + (k + n)" P]
      by (auto simp: retry_expired_def split: sum.splits bridge_error.splits)
  qed
qed

lemma bcall_sends:
  assumes "\<And>p. obj_get p ''method'' \<noteq> JStr ''tools/call'' \<Longrightarrow> P p" "\<And>i. P (request_payload i ''tools/call'' (tool_params name args))"
  shows "sending P 6 (bcall e name args)"
proof -
  let ?fin = "\<lambda>r. case result_payload r of Inl er \<Rightarrow> bfail er | Inr x \<Rightarrow> if truthy (obj_get r ''isError'') then bfail ToolError else bret x"
  have i: "sending P 2 (initialize e)" by (rule initialize_sends[of P, OF assms(1)])
  have t: "sending P 1 (post_tool e name args)" by (rule post_tool_sends[of P, OF assms(2)])
  have f: "sending P 0 (?fin r)" for r by (auto simp: sending_ret split: sum.split)
  have m: "sending P (1 + (2 + 1) + 0) (bthen (retry_expired e (post_tool e name args)) ?fin)"
    by (rule sending_then[OF retry_sends[OF t i] f])
  have "sending P 2 (if s = None then initialize e else bret ())" for s :: "string option"
    by (cases s) (simp_all add: i sending_ret)
  then have "sending P (2 + (1 + (2 + 1) + 0)) (bthen (if s = None then initialize e else bret ()) (\<lambda>_. bthen (retry_expired e (post_tool e name args)) ?fin))"
    for s :: "string option" by (rule sending_then[OF _ m])
  then show ?thesis unfolding sending_def bcall_def by simp
qed

lemma list_sends:
  assumes "\<And>p. \<not> calls_tool ''opencode_permission_reply'' p \<Longrightarrow> P p"
  shows "sending P 6 (permissions_pending e)" "sending P 6 (job_list e)"
proof -
  have p: "P p" if "obj_get p ''method'' \<noteq> JStr ''tools/call''" for p using that by (intro assms) (simp add: calls_tool_def)
  have q: "P (request_payload i ''tools/call'' (tool_params name args))" if "name \<noteq> ''opencode_permission_reply''" for i name args
    using that by (intro assms) (simp add: calls_tool_def request_payload_def tool_params_def obj_get_def)
  have h: "sending P 6 (bthen (bcall e name args) (\<lambda>x. bret (f x)))" if "name \<noteq> ''opencode_permission_reply''"
    for name args and f :: "(string, json) dict \<Rightarrow> json list"
    using sending_then[OF bcall_sends[of P, OF p q[OF that]], of 0 "\<lambda>x. bret (f x)"] by (simp add: sending_ret)
  show "sending P 6 (permissions_pending e)" "sending P 6 (job_list e)"
    unfolding permissions_pending_def job_list_def by (rule h, simp)+
qed

text \<open>A request that answers a permission answers the one asked for, with the job that is listed for it.\<close>

definition reply_as_listed :: "bridge_env \<Rightarrow> bridge \<Rightarrow> string \<Rightarrow> string \<Rightarrow> (string, json) dict \<Rightarrow> bool" where
  "reply_as_listed e b i decision p =
     (if calls_tool ''opencode_permission_reply'' p
      then \<exists>rs job. fst (permissions_pending e b) = Inr rs \<and> job_of_request i rs = Inr (JStr job) \<and> job \<noteq> [] \<and>
        obj_get p ''params'' = tool_params ''opencode_permission_reply'' (reply_args job i decision)
      else True)"


section \<open>A bridge that is down\<close>

datatype poll = PollJobs control_env | PollPermissions control_env | CancelJob control_env string | ReplyTo control_env string string

fun poll_env :: "poll \<Rightarrow> control_env" where
  "poll_env (PollJobs v) = v"
| "poll_env (PollPermissions v) = v"
| "poll_env (CancelJob v i) = v"
| "poll_env (ReplyTo v i d) = v"

fun is_read :: "poll \<Rightarrow> bool" where
  "is_read (PollJobs v) \<longleftrightarrow> True"
| "is_read (PollPermissions v) \<longleftrightarrow> True"
| "is_read _ \<longleftrightarrow> False"

fun poll_step :: "poll \<Rightarrow> job_control \<Rightarrow> job_control" where
  "poll_step (PollJobs v) c = snd (jobs_live v c)"
| "poll_step (PollPermissions v) c = snd (control_permissions v c)"
| "poll_step (CancelJob v i) c = snd (control_job_cancel v i c)"
| "poll_step (ReplyTo v i d) c = snd (control_permission_reply v i d c)"

text \<open>The times at which the port of the bridge was tried.\<close>

fun probe_times :: "poll list \<Rightarrow> job_control \<Rightarrow> int list" where
  "probe_times [] c = []"
| "probe_times (p # ps) c =
     (if is_read p \<and> \<not> cv_now (poll_env p) < jc_down_until c then [cv_now (poll_env p)] else []) @ probe_times ps (poll_step p c)"

lemma gate_down: "\<not> cv_reachable v \<Longrightarrow> bridge_down_gate v c =
    (True, if cv_now v < jc_down_until c then c else c\<lparr>jc_down_until := cv_now v + BRIDGE_DOWN_TTL_MS\<rparr>)"
  by (simp add: bridge_down_gate_def)

lemma read_down:
  assumes "is_read p" "\<not> cv_reachable (poll_env p)"
  shows "poll_step p c = (if cv_now (poll_env p) < jc_down_until c then c
    else c\<lparr>jc_down_until := cv_now (poll_env p) + BRIDGE_DOWN_TTL_MS\<rparr>)"
  using assms by (cases p) (simp_all add: jobs_live_def control_permissions_def from_taps_def gate_down)

lemma probes_spaced:
  "list_all (\<lambda>p. is_read p \<and> \<not> cv_reachable (poll_env p)) ps \<Longrightarrow>
    successively (\<lambda>a b. a + BRIDGE_DOWN_TTL_MS \<le> b) (probe_times ps c) \<and>
    (probe_times ps c = [] \<or> jc_down_until c \<le> hd (probe_times ps c))"
proof (induction ps arbitrary: c)
  case (Cons p ps)
  then have p: "is_read p" "\<not> cv_reachable (poll_env p)" "list_all (\<lambda>p. is_read p \<and> \<not> cv_reachable (poll_env p)) ps" by simp_all
  show ?case
  proof (cases "cv_now (poll_env p) < jc_down_until c")
    case True
    then show ?thesis using Cons.IH[OF p(3), of c] by (simp add: read_down[OF p(1,2)])
  next
    case False
    then show ?thesis using Cons.IH[OF p(3), of "c\<lparr>jc_down_until := cv_now (poll_env p) + BRIDGE_DOWN_TTL_MS\<rparr>"] p(1)
      by (cases "probe_times ps (c\<lparr>jc_down_until := cv_now (poll_env p) + BRIDGE_DOWN_TTL_MS\<rparr>)") (auto simp: read_down[OF p(1,2)])
  qed
qed simp

text \<open>
  A bridge that is down is not worn out: however often the plugin polls jobs and permissions while the port does not
  answer, it tries the port at most once in fifteen seconds, and never sends the bridge a request.
\<close>

theorem bridge_backoff:
  assumes "list_all (\<lambda>p. is_read p \<and> \<not> cv_reachable (poll_env p)) ps"
  shows "successively (\<lambda>a b. a + BRIDGE_DOWN_TTL_MS \<le> b) (probe_times ps c) \<and>
    jc_client (fold poll_step ps c) = jc_client c"
proof -
  have "jc_client (fold poll_step ps c) = jc_client c" using assms
    by (induction ps arbitrary: c) (simp_all add: read_down)
  then show ?thesis using probes_spaced[OF assms] by blast
qed

definition demo_control_env :: "int \<Rightarrow> bool \<Rightarrow> string \<Rightarrow> control_env" where
  "demo_control_env now up token = \<lparr>cv_bridge = \<lparr>be_server = (\<lambda>n p. if po_token p = ''new'' then HttpOk [] [] [] else HttpFail 401),
       be_clock = (\<lambda>_. 0)\<rparr>, cv_now = now, cv_reachable = up, cv_token = token, cv_events = None,
     cv_float = \<lparr>fsub = (\<lambda>a b. a), fgt = (\<lambda>a b. False)\<rparr>, cv_str = (\<lambda>_. []), cv_time = (\<lambda>_. [])\<rparr>"

section \<open>A token that changes\<close>

lemma budget_token: "sending P n m \<Longrightarrow> bc_token (snd (budget e m b)) = bc_token b"
proof -
  assume "sending P n m"
  let ?b = "b\<lparr>bc_deadline := Some (now_of e b + COMMAND_DEADLINE_MS)\<rparr>"
  have "sends P n ?b (snd (m ?b))" using \<open>sending P n m\<close> unfolding sending_def by blast
  then show ?thesis by (cases "m ?b") (simp add: budget_def sends_def)
qed

lemma with_client_token:
  assumes "sending P n m" "jc_client c = Some b"
  shows "\<exists>b1. jc_client (snd (with_client v m c)) = Some b1 \<and> bc_token b1 = bc_token b"
  using budget_token[OF assms(1), of "cv_bridge v" b] assms(2)
  by (cases "budget (cv_bridge v) m b") (simp add: with_client_def client_of_def)

lemma any_sends: "sending any_payload 6 (bcall e name args)" "sending any_payload 12 (permission_reply e i d)"
  "sending any_payload 6 (job_list e)" "sending any_payload 6 (permissions_pending e)"
proof -
  show b: "sending any_payload 6 (bcall e name args)" for name args by (rule bcall_sends) (simp_all add: any_payload_def)
  show l: "sending any_payload 6 (job_list e)" "sending any_payload 6 (permissions_pending e)"
    by (rule list_sends, simp add: any_payload_def)+
  have "sending any_payload 6 (case job_of_request i rs of Inl er \<Rightarrow> bfail er
       | Inr (JStr job) \<Rightarrow> if job = [] then bfail ToolError else bcall e ''opencode_permission_reply'' (reply_args job i d)
       | Inr _ \<Rightarrow> bfail ToolError)" for rs
    by (auto simp: sending_ret b split: sum.splits json.splits)
  from sending_then[OF l(2) this] show "sending any_payload 12 (permission_reply e i d)" by (simp add: permission_reply_def)
qed

definition client_token :: "string \<Rightarrow> job_control \<Rightarrow> bool" where
  "client_token t c \<longleftrightarrow> (\<exists>b. jc_client c = Some b \<and> bc_token b = t)"

lemma token_with_client: "client_token t c \<Longrightarrow> sending P n m \<Longrightarrow> client_token t (snd (with_client v m c))"
  using with_client_token unfolding client_token_def by metis

lemma token_down_until: "client_token t (c\<lparr>jc_down_until := x\<rparr>) = client_token t c"
  by (simp add: client_token_def)

lemma token_gate: "client_token t c \<Longrightarrow> client_token t (snd (bridge_down_gate v c))"
  by (simp add: bridge_down_gate_def token_down_until)

lemma token_step: "client_token t c \<Longrightarrow> client_token t (poll_step p c)"
proof (cases p)
  case (PollJobs v)
  assume "client_token t c"
  then have "client_token t (snd (with_client v (job_list (cv_bridge v)) (snd (bridge_down_gate v c))))"
    by (intro token_with_client[OF token_gate any_sends(3)])
  then show ?thesis using PollJobs token_gate[OF \<open>client_token t c\<close>, of v]
    by (auto simp: jobs_live_def token_down_until split: prod.splits bool.splits sum.splits bridge_error.splits)
next
  case (PollPermissions v)
  assume "client_token t c"
  have "sending any_payload 6 (bthen (permissions_pending e) (\<lambda>rs. bret (views, rs)))" for e and views :: "json list"
    using sending_then[OF any_sends(4) sending_ret(1)[of any_payload 0]] by simp
  from sending_then[OF any_sends(3) this]
  have "sending any_payload 12 (bthen (job_list e) (\<lambda>views. bthen (permissions_pending e) (\<lambda>rs. bret (views, rs))))" for e by simp
  from token_with_client[OF token_gate[OF \<open>client_token t c\<close>] this]
  have "client_token t (snd (bridge_permission_rows v (snd (bridge_down_gate v c))))"
    by (auto simp: bridge_permission_rows_def split: prod.splits sum.splits)
      (metis snd_conv)+
  then show ?thesis using PollPermissions token_gate[OF \<open>client_token t c\<close>, of v]
    by (auto simp: control_permissions_def from_taps_def token_down_until split: prod.splits bool.splits sum.splits bridge_error.splits)
next
  case (CancelJob v i)
  assume "client_token t c"
  from token_with_client[OF this any_sends(1), of v "cv_bridge v" "''opencode_job_cancel''" "[(''job_id'', JStr i)]"]
  show ?thesis using CancelJob \<open>client_token t c\<close>
    by (auto simp: control_job_cancel_def control_call_def job_cancel_def split: prod.splits sum.splits)
next
  case (ReplyTo v i d)
  assume "client_token t c"
  from token_with_client[OF this any_sends(2), of v "cv_bridge v" i d]
  show ?thesis using ReplyTo \<open>client_token t c\<close>
    by (auto simp: control_permission_reply_def control_call_def split: prod.splits sum.splits)
qed

text \<open>A bridge that refuses a token with 401.\<close>

definition rejects :: "string \<Rightarrow> control_env \<Rightarrow> bool" where
  "rejects t v \<longleftrightarrow> (\<forall>n r. po_token r \<noteq> t \<or> be_server (cv_bridge v) n r = HttpFail 401)"

lemma post_rejected:
  assumes "\<And>n r. po_token r = bc_token b \<Longrightarrow> be_server e n r = HttpFail 401"
    and "bc_deadline b = Some (now_of e b + COMMAND_DEADLINE_MS)"
  shows "fst (post e p b) = Inl Denied"
  using assms by (simp add: post_def call_timeout_def COMMAND_DEADLINE_MS_def Let_def read_answer_def)

lemma request_rejected:
  assumes "\<And>n r. po_token r = bc_token b \<Longrightarrow> be_server e n r = HttpFail 401"
    and "bc_deadline b = Some (now_of e b + COMMAND_DEADLINE_MS)"
  shows "fst (post_request e meth params b) = Inl Denied"
  using assms by (simp add: post_request_def Let_def post_rejected now_of_def)

lemma then_failed: "fst (m b) = Inl er \<Longrightarrow> fst (bthen m f b) = Inl er"
  by (cases "m b") (simp add: bthen_def)

lemma bcall_rejected:
  assumes "\<And>n r. po_token r = bc_token b \<Longrightarrow> be_server e n r = HttpFail 401"
    and "bc_deadline b = Some (now_of e b + COMMAND_DEADLINE_MS)"
  shows "fst (bcall e name args b) = Inl Denied"
proof (cases "bc_session b = None")
  case True
  have "fst (initialize e b) = Inl Denied" unfolding initialize_def by (intro then_failed request_rejected assms)
  then show ?thesis using True by (simp add: bcall_def then_failed)
next
  case False
  have "fst (post_tool e name args b) = Inl Denied" unfolding post_tool_def by (intro then_failed request_rejected assms)
  then have "fst (retry_expired e (post_tool e name args) b) = Inl Denied"
    by (cases "post_tool e name args b") (simp add: retry_expired_def)
  moreover obtain x where "bc_session b = Some x" using False by blast
  ultimately show ?thesis by (simp add: bcall_def then_failed bthen_def[of "bret ()"] bret_def)
qed

lemma list_rejected:
  assumes "client_token t c" "rejects t v"
  shows "fst (with_client v (job_list (cv_bridge v)) c) = Inl Denied"
proof -
  obtain b where b: "jc_client c = Some b" "bc_token b = t" using assms(1) by (auto simp: client_token_def)
  let ?b = "b\<lparr>bc_deadline := Some (now_of (cv_bridge v) b + COMMAND_DEADLINE_MS)\<rparr>"
  have "fst (bcall (cv_bridge v) ''opencode_job_list'' [] ?b) = Inl Denied"
    by (rule bcall_rejected) (use assms(2) b in \<open>auto simp: rejects_def now_of_def\<close>)
  then have "fst (job_list (cv_bridge v) ?b) = Inl Denied" unfolding job_list_def by (rule then_failed)
  then show ?thesis using b(1) by (cases "job_list (cv_bridge v) ?b") (simp add: with_client_def client_of_def budget_def)
qed

text \<open>
  After a rotation of the tokens the plugin is locked out of the bridge until it is restarted: its client keeps the
  token that the \<^verbatim>\<open>.env\<close> file had at its first use, so once the bridge refuses that token, a reachable bridge refuses
  every listing of the jobs, after whatever further commands and whatever token the file has by then.
\<close>

theorem stale_token_locks_out:
  assumes "client_token t c" "rejects t v" "cv_reachable v"
    and "jc_down_until (fold poll_step ps c) \<le> cv_now v"
  shows "fst (jobs_live v (fold poll_step ps c)) = Inl Denied"
proof -
  have "client_token t (fold poll_step ps c)" using assms(1) by (induction ps arbitrary: c) (simp_all add: token_step)
  from list_rejected[OF this assms(2)] show ?thesis using assms(3,4)
    by (cases "with_client v (job_list (cv_bridge v)) (fold poll_step ps c)") (simp add: jobs_live_def bridge_down_gate_def)
qed

text \<open>
  The kinds of errors that the client promises are not all: when the notification that follows a new session is answered
  with 404, the inner exception for an expired session leaves the client.
\<close>

lemma expired_escapes:
  "fst (job_list \<lparr>be_server = (\<lambda>n p. if n = 0 then HttpOk ''s'' (dumps (fmt_default True) (JObj [(''result'', JObj [])])) []
       else HttpFail 404), be_clock = (\<lambda>_. 0)\<rparr> (new_bridge ''t'')) = Inl SessionExpired"
  by code_simp

end
