(* ===== verification/Vitals.thy ===== *)
theory Vitals
  imports Cockpit
begin

text \<open>
  The payload builders of the cockpit and the plugin (\<^verbatim>\<open>home/rdm/ui/api.py\<close>): the masked environment, the
  process files, the two caches of the status, the tails of the logs and what is shown of the profile, its changes, the
  jobs and the permissions. The listing of docker, the probes of ports, git, the files of the logs and the clock (in
  milliseconds) are parameters.
\<close>

section \<open>The environment\<close>

definition SENSITIVE_MARKERS :: "string list" where
  "SENSITIVE_MARKERS = [''TOKEN'', ''SECRET'', ''PASSWORD'']"

definition SENSITIVE_KEYS :: "string list" where
  "SENSITIVE_KEYS = [''VLESS_SUB_URL'', ''TUNNEL_TAIL'']"

definition is_sensitive :: "string \<Rightarrow> bool" where
  "is_sensitive key \<longleftrightarrow> key \<in> set SENSITIVE_KEYS \<or> list_ex (\<lambda>m. contains_sub m key) SENSITIVE_MARKERS"

definition masked_env :: "(string, string) dict \<Rightarrow> (string, string) dict" where
  "masked_env m = map (\<lambda>(k, v). (k, if is_sensitive k then mask_token v else v)) (sort_key fst m)"

section \<open>Process files\<close>

definition pidfile_alive :: "os_env \<Rightarrow> string \<Rightarrow> host \<Rightarrow> nat \<times> nat" where
  "pidfile_alive e path h =
     (let es = read_entries e path h in (length es, length (filter (\<lambda>(pid, t, m). owned h pid t m) es)))"

definition watchdog_alive :: "os_env \<Rightarrow> host \<Rightarrow> bool" where
  "watchdog_alive e h \<longleftrightarrow> list_ex (\<lambda>(pid, t, m). owned h pid t m) (read_entries e (watchdog_pids_path e) h)"

section \<open>The caches\<close>

definition COMPOSE_PS_TTL_MS :: int where
  "COMPOSE_PS_TTL_MS = 15000"

definition PROBE_PORTS_TTL_MS :: int where
  "PROBE_PORTS_TTL_MS = 5000"

type_synonym probe_key = "int \<times> int option \<times> int option"
type_synonym ports_up = "(string \<times> bool) list"

record vitals =
  vt_ps :: "(string \<times> string \<times> int) option"
  vt_probe :: "(probe_key \<times> ports_up \<times> int) option"

definition invalidate_status_cache :: "vitals \<Rightarrow> vitals" where
  "invalidate_status_cache v = v\<lparr>vt_ps := None, vt_probe := None\<rparr>"

text \<open>The lock is held from the look at the clock to the end; \<open>value\<close> is what docker lists if it is asked now.\<close>

definition compose_ps :: "int \<Rightarrow> string \<Rightarrow> string \<Rightarrow> vitals \<Rightarrow> string \<times> vitals" where
  "compose_ps now file_name listing v =
     (case vt_ps v of
        Some (f, x, at) \<Rightarrow>
          if f = file_name \<and> now - at < COMPOSE_PS_TTL_MS then (x, v)
          else (listing, v\<lparr>vt_ps := Some (file_name, listing, now)\<rparr>)
      | None \<Rightarrow> (listing, v\<lparr>vt_ps := Some (file_name, listing, now)\<rparr>))"

text \<open>The ports are looked up under the lock, probed without it and stored under it.\<close>

definition probe_cached :: "int \<Rightarrow> probe_key \<Rightarrow> vitals \<Rightarrow> ports_up option" where
  "probe_cached now key v =
     (case vt_probe v of Some (k, x, at) \<Rightarrow> if k = key \<and> now - at < PROBE_PORTS_TTL_MS then Some x else None | None \<Rightarrow> None)"

definition probe_store :: "int \<Rightarrow> probe_key \<Rightarrow> ports_up \<Rightarrow> vitals \<Rightarrow> vitals" where
  "probe_store at key x v = v\<lparr>vt_probe := Some (key, x, at)\<rparr>"

definition probe_ports_live :: "(int \<Rightarrow> bool) \<Rightarrow> probe_key \<Rightarrow> ports_up" where
  "probe_ports_live probe key =
     (case key of (port, runner, gateway) \<Rightarrow>
        [(''cockpit'', probe port), (''ingress'', probe (int INGRESS_PORT)), (''bridge'', probe BRIDGE_PORT)] @
        (case runner of None \<Rightarrow> [] | Some r \<Rightarrow> if r = 0 then [] else [(''runner'', probe r)]) @
        (case gateway of None \<Rightarrow> [] | Some g \<Rightarrow> if g = 0 then [] else [(''gateway'', probe g)]))"

text \<open>The whole of \<^verbatim>\<open>_probe_ports\<close> when nobody else is in it; \<open>stored\<close> is the clock after the probes.\<close>

definition probe_ports :: "int \<Rightarrow> int \<Rightarrow> (int \<Rightarrow> bool) \<Rightarrow> probe_key \<Rightarrow> vitals \<Rightarrow> ports_up \<times> vitals" where
  "probe_ports now stored probe key v =
     (case probe_cached now key v of
        Some x \<Rightarrow> (x, v)
      | None \<Rightarrow> (probe_ports_live probe key, probe_store stored key (probe_ports_live probe key) v))"

section \<open>The status\<close>

definition read_json :: "string option \<Rightarrow> json option" where
  "read_json text = (case text of None \<Rightarrow> None | Some t \<Rightarrow> loads t)"

text \<open>The directory part of a path below a directory.\<close>

definition parent_dir :: "string \<Rightarrow> string" where
  "parent_dir p = rev (tl (dropWhile (\<lambda>c. c \<noteq> CHR ''/'') (rev p)))"

record status =
  st_ps :: string
  st_ports :: ports_up
  st_services :: "nat \<times> nat"
  st_ingress :: "nat \<times> nat"
  st_watchdog :: bool
  st_env :: "(string, string) dict"
  st_manifest :: "json option"
  st_profile :: "string \<times> string option"

text \<open>What the moment gives: the clock before and after the probes, what docker lists, what a probe of a port says.\<close>

record moment =
  mo_now :: int
  mo_stored :: int
  mo_listing :: string
  mo_probe :: "int \<Rightarrow> bool"

definition COMPOSE_FILE :: "cli_os \<Rightarrow> string" where
  "COMPOSE_FILE c = path_join (co_home c) ''docker-compose.yml''"

definition build_status :: "cli_os \<Rightarrow> moment \<Rightarrow> int \<Rightarrow> world \<Rightarrow> vitals \<Rightarrow> status \<times> vitals" where
  "build_status c m port w v =
     (let env_map = ef_as_map (ef_load (w_env w)); e = os_of c w; h = w_host w;
          active = dget_or env_map ''ACTIVE_PROFILE'' [];
          path = (if active = [] then None else find_path c w active) in
      case compose_ps (mo_now m) (COMPOSE_FILE c) (mo_listing m) v of (ps, v1) \<Rightarrow>
      (case probe_ports (mo_now m) (mo_stored m) (mo_probe m) (port, runner_port_of c env_map w, active_gateway_port c env_map w) v1 of
        (ports, v2) \<Rightarrow>
          (\<lparr>st_ps = ps, st_ports = ports, st_services = pidfile_alive e (pids_path e active) h,
            st_ingress = pidfile_alive e (ingress_pids_path e) h, st_watchdog = watchdog_alive e h,
            st_env = masked_env env_map, st_manifest = read_json (dget (w_files w) (manifest_path c)),
            st_profile = (active, map_option parent_dir path)\<rparr>, v2)))"

section \<open>Logs\<close>

definition TAIL_LINES :: nat where
  "TAIL_LINES = 200"

definition LOG_PATTERNS :: "(string \<times> string list) list" where
  "LOG_PATTERNS =
     [(''host'', [''rdm-host/*.out'', ''rdm-host/*.err'']), (''ingress'', [''rdm-ingress/ingress.out'', ''rdm-ingress/ingress.err'']),
      (''watchdog'', [''rdm-watchdog/watchdog.log'']), (''runner'', [''rdm-runner/audit.log'']),
      (''gateway'', [''rdm-gateway/gateway.out'', ''rdm-gateway/gateway.err'', ''rdm-gateway/proxy.out'', ''rdm-gateway/proxy.err''])]"

definition log_tail :: "string option \<Rightarrow> string \<Rightarrow> string list" where
  "log_tail text needle =
     (case text of
        None \<Rightarrow> []
      | Some t \<Rightarrow>
          let ls = last_n TAIL_LINES (splitlines t) in
          map redact_text (if needle = [] then ls else filter (\<lambda>l. contains_sub needle (lower l)) ls))"

text \<open>\<open>glob\<close> gives the paths that match a pattern below the temporary directory, \<open>text\<close> what is read from one.\<close>

definition collect_logs ::
  "(string \<Rightarrow> string list) \<Rightarrow> (string \<Rightarrow> string option) \<Rightarrow> string \<Rightarrow> string \<Rightarrow> (string \<times> string \<times> string list) list option" where
  "collect_logs glob text source needle =
     (if source \<noteq> [] \<and> dget LOG_PATTERNS source = None then None
      else Some (concat (map (\<lambda>name.
        filter (\<lambda>(_, _, ls). ls \<noteq> [])
          (map (\<lambda>p. (name, path_name p, log_tail (text p) needle)) (sort (concat (map glob (dget_or LOG_PATTERNS name []))))))
        (if source = [] then map fst LOG_PATTERNS else [source]))))"

section \<open>The other payloads\<close>

definition dict_or_empty :: "json option \<Rightarrow> (string, json) dict" where
  "dict_or_empty j = (case j of Some (JObj d) \<Rightarrow> d | _ \<Rightarrow> [])"

definition exposure_payload :: "cli_os \<Rightarrow> world \<Rightarrow> json option" where
  "exposure_payload c w =
     (let env_map = ef_as_map (ef_load (w_env w)); d = dict_or_empty (read_json (dget (w_files w) (manifest_path c))) in
      map_option (\<lambda>p. JObj
        [(''profile'', JObj [(''name'', JStr (dget_or env_map ''ACTIVE_PROFILE'' [])), (''project_dir'', JStr (project_dir p))]),
         (''allowed_ports'', dget_or d ''allowed_ports'' (JArr [])), (''endpoints'', dget_or d ''endpoints'' (JArr []))])
        (load_active_profile c env_map w))"

text \<open>\<open>run argv\<close> is the exit code and output of git, or \<^const>\<open>None\<close> when it cannot be run or takes too long.\<close>

definition git_porcelain :: "(string list \<Rightarrow> (int \<times> string) option) \<Rightarrow> string \<Rightarrow> string list option" where
  "git_porcelain run directory =
     (if directory = [] then None
      else case run [''git'', ''-C'', directory, ''rev-parse'', ''--is-inside-work-tree''] of
        None \<Rightarrow> None
      | Some (rc, out) \<Rightarrow>
          if rc \<noteq> 0 \<or> strip out \<noteq> ''true'' then None
          else (case run [''git'', ''-C'', directory, ''status'', ''--porcelain''] of
            None \<Rightarrow> None
          | Some (rc2, out2) \<Rightarrow> if rc2 \<noteq> 0 then None else Some (filter (\<lambda>l. strip l \<noteq> []) (splitlines out2))))"

definition diff_payload :: "cli_os \<Rightarrow> (string list \<Rightarrow> (int \<times> string) option) \<Rightarrow> world \<Rightarrow> json" where
  "diff_payload c run w =
     (case load_active_profile c (ef_as_map (ef_load (w_env w))) w of
        None \<Rightarrow> JObj [(''git'', JBool False)]
      | Some p \<Rightarrow>
          (case git_porcelain run (project_dir p) of
             None \<Rightarrow> JObj [(''git'', JBool False)]
           | Some ls \<Rightarrow> JObj [(''git'', JBool True), (''porcelain'', JArr (map JStr ls))]))"

definition jobs_payload :: "float_ops \<Rightarrow> json \<Rightarrow> json \<Rightarrow> string option \<Rightarrow> job list \<times> alarm list" where
  "jobs_payload fl now limit text = (let es = read_events text in (co_jobs (correlate fl es), stall_alarm fl now limit es))"

definition permissions_payload :: "float_ops \<Rightarrow> json \<Rightarrow> json \<Rightarrow> string option \<Rightarrow> job list \<times> alarm list" where
  "permissions_payload fl now limit text =
     (let es = read_events text in
      (filter (\<lambda>j. jb_permission j \<noteq> JNull \<or> jb_status j = JStr ''awaiting_permission'') (co_jobs (correlate fl es)),
       stall_alarm fl now limit es))"

section \<open>How old what is shown can be\<close>

text \<open>
  The listings asked for and the invalidations, in the order in which they take the lock. \<open>live t f\<close> is what docker
  lists at the time \<open>t\<close>; a listing asked for at \<open>now\<close> is answered at some time \<open>t\<close> after it. What was served is
  kept with its time, and the time of the last invalidation.
\<close>

record listings =
  li_vitals :: vitals
  li_clock :: int
  li_reset :: int
  li_served :: "(string \<times> string \<times> int \<times> int) list"

inductive listing_step :: "(int \<Rightarrow> string \<Rightarrow> string) \<Rightarrow> listings \<Rightarrow> listings \<Rightarrow> bool" for live where
  ask: "li_clock s \<le> now \<Longrightarrow> now \<le> t \<Longrightarrow> compose_ps now f (live t f) (li_vitals s) = (x, v) \<Longrightarrow>
    listing_step live s (s\<lparr>li_vitals := v, li_clock := t, li_served := li_served s @ [(f, x, now, li_reset s)]\<rparr>)"
| invalidate: "li_clock s \<le> now \<Longrightarrow>
    listing_step live s (s\<lparr>li_vitals := invalidate_status_cache (li_vitals s), li_clock := now, li_reset := now\<rparr>)"

definition listing_init :: "listings \<Rightarrow> bool" where
  "listing_init s \<longleftrightarrow> vt_ps (li_vitals s) = None \<and> li_reset s \<le> li_clock s \<and> li_served s = []"

definition fresh_listing :: "(int \<Rightarrow> string \<Rightarrow> string) \<Rightarrow> int \<Rightarrow> string \<times> string \<times> int \<times> int \<Rightarrow> bool" where
  "fresh_listing live clock sv =
     (case sv of (f, x, now, reset) \<Rightarrow> \<exists>t. x = live t f \<and> now - COMPOSE_PS_TTL_MS < t \<and> reset \<le> t \<and> t \<le> clock)"

definition listing_ok :: "(int \<Rightarrow> string \<Rightarrow> string) \<Rightarrow> listings \<Rightarrow> bool" where
  "listing_ok live s \<longleftrightarrow>
     li_reset s \<le> li_clock s \<and> list_all (fresh_listing live (li_clock s)) (li_served s) \<and>
     (case vt_ps (li_vitals s) of None \<Rightarrow> True
      | Some (f, x, at) \<Rightarrow> \<exists>t. x = live t f \<and> at \<le> t \<and> li_reset s \<le> t \<and> t \<le> li_clock s)"

lemma fresh_mono: "fresh_listing live c sv \<Longrightarrow> c \<le> c' \<Longrightarrow> fresh_listing live c' sv"
  by (fastforce simp: fresh_listing_def split: prod.splits)

lemma served_mono: "list_all (fresh_listing live c) svs \<Longrightarrow> c \<le> c' \<Longrightarrow> list_all (fresh_listing live c') svs"
  by (auto simp: list_all_iff intro: fresh_mono)

lemma listing_ok_step:
  assumes "listing_ok live s" "listing_step live s s'"
  shows "listing_ok live s'"
  using assms(2)
proof cases
  case (ask now t f x v)
  have base: "li_reset s \<le> li_clock s" "list_all (fresh_listing live (li_clock s)) (li_served s)"
    using assms(1) by (simp_all add: listing_ok_def)
  have "li_clock s \<le> t" using ask by simp
  note old = served_mono[OF base(2) this]
  consider (hit) at where "vt_ps (li_vitals s) = Some (f, x, at)" "now - at < COMPOSE_PS_TTL_MS" "v = li_vitals s"
    | (miss) "x = live t f" "vt_ps v = Some (f, x, now)"
    using ask(4) by (auto simp: compose_ps_def split: option.splits if_splits)
  then show ?thesis
  proof cases
    case hit
    then obtain t0 where t0: "x = live t0 f" "at \<le> t0" "li_reset s \<le> t0" "t0 \<le> li_clock s"
      using assms(1) by (auto simp: listing_ok_def)
    then have "fresh_listing live t (f, x, now, li_reset s)"
      using hit ask by (auto simp: fresh_listing_def intro!: exI[of _ t0])
    with t0 hit ask old base show ?thesis by (auto simp: listing_ok_def intro!: exI[of _ t0])
  next
    case miss
    then have "fresh_listing live t (f, x, now, li_reset s)"
      using ask base by (auto simp: fresh_listing_def COMPOSE_PS_TTL_MS_def intro!: exI[of _ t])
    with miss ask old base show ?thesis by (auto simp: listing_ok_def intro!: exI[of _ t])
  qed
next
  case (invalidate now)
  then show ?thesis
    using assms(1) by (auto simp: listing_ok_def invalidate_status_cache_def intro: served_mono)
qed

interpretation listing_machine: invariant_machine listing_init "listing_step live" "listing_ok live" for live
  by unfold_locales (simp add: listing_init_def listing_ok_def, rule listing_ok_step)


definition demo_listings :: listings where
  "demo_listings = \<lparr>li_vitals = \<lparr>vt_ps = None, vt_probe = None\<rparr>, li_clock = 0, li_reset = 0, li_served = []\<rparr>"


text \<open>
  The ports are stored after they were probed, without another look: a probe from before an invalidation is stored
  after it, and is shown for five seconds.
\<close>

lemma probe_survives_invalidation:
  assumes "later - stored < PROBE_PORTS_TTL_MS"
  shows "fst (probe_ports later later after key
    (probe_store stored key (probe_ports_live before key) (invalidate_status_cache v))) = probe_ports_live before key"
  using assms by (simp add: probe_ports_def probe_store_def probe_cached_def)

section \<open>What the masked environment tells\<close>

text \<open>Two environments with the same values, but for the inner characters of sensitive ones.\<close>

definition same_unmasked :: "(string, string) dict \<Rightarrow> (string, string) dict \<Rightarrow> bool" where
  "same_unmasked m m' \<longleftrightarrow>
     list_all2 (\<lambda>(k, v) (k', v'). k = k' \<and> (v = v' \<or> is_sensitive k \<and> same_ends v v')) m m'"

lemma insort_key_map: "insort_key f (g x) (map g xs) = map g (insort_key (\<lambda>y. f (g y)) x xs)"
  by (induction xs) auto

lemma sort_key_map: "sort_key f (map g xs) = map g (sort_key (\<lambda>y. f (g y)) xs)"
  by (induction xs) (simp_all add: insort_key_map)

lemma masked_env_same: "same_unmasked m m' \<Longrightarrow> masked_env m = masked_env m'"
proof -
  assume same: "same_unmasked m m'"
  let ?g = "\<lambda>(k, v). (k, if is_sensitive k then mask_token v else v)"
  have eq: "masked_env n = sort_key fst (map ?g n)" for n
    by (simp add: masked_env_def sort_key_map comp_def case_prod_unfold)
  have "map ?g m = map ?g m'"
    using same unfolding same_unmasked_def
    by (induction rule: list_all2_induct) (auto simp: mask_same_ends split: prod.splits)
  then show ?thesis by (simp add: eq)
qed

lemma tokens_sensitive: "k \<in> set TOKEN_KEYS \<Longrightarrow> is_sensitive k"
  by (auto simp: TOKEN_KEYS_def is_sensitive_def SENSITIVE_MARKERS_def starts_with_def)

end
