(* ===== verification/Prompt.thy ===== *)
theory Prompt
  imports Render
begin

text \<open>
  The prompt that is handed to an agent (\<^verbatim>\<open>home/rdm/prompt.py\<close>). Its fixed texts are Russian, so a section is a
  constructor with what the code puts into it; the configuration blocks of the clients are ASCII and are written out.
\<close>

section \<open>The endpoints as data\<close>

definition shown_token :: "(string, string) dict \<Rightarrow> bool \<Rightarrow> string \<Rightarrow> string" where
  "shown_token env_map full key = (let t = dget_or env_map key [] in if full then t else mask_token t)"

definition mcp_url :: "string \<Rightarrow> int \<Rightarrow> string" where
  "mcp_url ingress_url port = ingress_url @ ''/p/'' @ int_str port @ ''/mcp''"

text \<open>A port that is missing or zero.\<close>

definition port_given :: "int option \<Rightarrow> int list" where
  "port_given p = (case p of None \<Rightarrow> [] | Some n \<Rightarrow> if n = 0 then [] else [n])"

definition endpoint_json :: "string \<Rightarrow> string \<Rightarrow> string \<Rightarrow> string \<Rightarrow> json" where
  "endpoint_json i url token note =
     JObj [(''id'', JStr i), (''url'', JStr url), (''token'', JStr token), (''note'', JStr note)]"

definition connection_payload :: "(string, string) dict \<Rightarrow> string \<Rightarrow> bool \<Rightarrow> int option \<Rightarrow> int option \<Rightarrow> json" where
  "connection_payload env_map ingress_url full rport gport =
     JObj [(''endpoints'', JArr
       (endpoint_json ''bridge'' (mcp_url ingress_url BRIDGE_PORT) (shown_token env_map full ''MCP_BEARER_TOKEN'')
          ''project tools: read/edit/write/bash'' #
        map (\<lambda>p. endpoint_json ''runner'' (mcp_url ingress_url p) (shown_token env_map full ''MCP_PUBLIC_TOKEN'')
          ''host commands: build/test/dev'') (port_given rport) @
        map (\<lambda>p. endpoint_json ''gateway'' (mcp_url ingress_url p) (shown_token env_map full ''GATEWAY_TOKEN'')
          ''owner MCP servers via gateway'') (port_given gport))),
       (''auth'', JObj [(''mode'', JStr ''bearer''), (''header'', JStr ''Authorization''), (''scheme'', JStr ''Bearer''),
         (''oauth'', JBool False)]),
       (''ingress_url'', JStr ingress_url)]"

section \<open>The clients\<close>

datatype token_mode = EnvMode | LiteralMode | PromptMode

text \<open>The lines to verify and the notes are Russian; only whether and how many there are is kept.\<close>

record client_spec =
  cs_display :: string
  cs_lang :: string
  cs_block :: string
  cs_mode :: token_mode
  cs_verify :: bool
  cs_notes :: nat
  cs_gateway :: string

definition URL_MARK :: string where
  "URL_MARK = ''__URL__''"

definition TOKEN_MARK :: string where
  "TOKEN_MARK = ''__TOKEN__''"

definition auth_member :: "string \<Rightarrow> string \<times> json" where
  "auth_member value = (''headers'', JObj [(''Authorization'', JStr (''Bearer '' @ value))])"

definition server_block :: "string \<Rightarrow> string \<Rightarrow> (string \<times> json) list \<Rightarrow> string" where
  "server_block outer name members = dumps (fmt_compact False) (JObj [(outer, JObj [(name, JObj members)])])"

text \<open>The two blocks of a client that reads its tokens from variables; \<open>f\<close> writes a reference to a variable.\<close>

definition env_client :: "string \<Rightarrow> string \<Rightarrow> bool \<Rightarrow> nat \<Rightarrow> (string \<Rightarrow> (string \<times> json) list) \<Rightarrow> client_spec" where
  "env_client display outer verify notes f =
     \<lparr>cs_display = display, cs_lang = ''json'', cs_block = server_block outer ''devbox'' (f ''DEVBOX_BRIDGE_TOKEN''),
      cs_mode = EnvMode, cs_verify = verify, cs_notes = notes,
      cs_gateway = server_block outer ''devbox-gateway'' (f ''DEVBOX_GATEWAY_TOKEN'')\<rparr>"

definition literal_client :: "string \<Rightarrow> string \<Rightarrow> bool \<Rightarrow> nat \<Rightarrow> (string \<times> json) list \<Rightarrow> client_spec" where
  "literal_client display outer verify notes members =
     \<lparr>cs_display = display, cs_lang = ''json'', cs_block = server_block outer ''devbox'' members,
      cs_mode = LiteralMode, cs_verify = verify, cs_notes = notes, cs_gateway = []\<rparr>"

definition typed :: "string \<Rightarrow> (string \<times> json) list" where
  "typed t = [(''type'', JStr t), (''url'', JStr URL_MARK)]"

definition plain_url :: "(string \<times> json) list" where
  "plain_url = [(''url'', JStr URL_MARK)]"

definition codex_block :: "string \<Rightarrow> string \<Rightarrow> string" where
  "codex_block server variable =
     (let q = (\<lambda>s. CHR 0x22 # s @ [CHR 0x22]) in
      ''[mcp_servers.'' @ server @ '']'' @ LF @ ''url = '' @ q URL_MARK @ LF @ ''bearer_token_env_var = '' @ q variable)"

definition vscode_block :: "string \<Rightarrow> string \<Rightarrow> string \<Rightarrow> string" where
  "vscode_block server input description =
     dumps (fmt_compact False) (JObj
       [(''inputs'', JArr [JObj [(''type'', JStr ''promptString''), (''id'', JStr input),
           (''description'', JStr description), (''password'', JBool True)]]),
        (''servers'', JObj [(server, JObj (typed ''http'' @ [auth_member (''${input:'' @ input @ ''}'')]))])])"

definition CLIENTS :: "(string \<times> client_spec) list" where
  "CLIENTS =
     [(''claude-code'', env_client ''Claude Code'' ''mcpServers'' True 1
         (\<lambda>v. typed ''http'' @ [auth_member (''${'' @ v @ ''}'')])),
      (''opencode'', env_client ''OpenCode'' ''mcp'' True 0
         (\<lambda>v. typed ''remote'' @ [(''enabled'', JBool True), (''oauth'', JBool False), auth_member (''{env:'' @ v @ ''}'')])),
      (''codex'', \<lparr>cs_display = ''Codex'', cs_lang = ''toml'', cs_block = codex_block ''devbox'' ''DEVBOX_BRIDGE_TOKEN'',
         cs_mode = EnvMode, cs_verify = True, cs_notes = 1, cs_gateway = codex_block ''devbox-gateway'' ''DEVBOX_GATEWAY_TOKEN''\<rparr>),
      (''cursor'', env_client ''Cursor'' ''mcpServers'' True 0 (\<lambda>v. plain_url @ [auth_member (''${env:'' @ v @ ''}'')])),
      (''vscode'', \<lparr>cs_display = ''VS Code'', cs_lang = ''json'',
         cs_block = vscode_block ''devbox'' ''devbox-bridge-token'' ''Devbox BRIDGE_TOKEN'', cs_mode = PromptMode, cs_verify = True,
         cs_notes = 0, cs_gateway = vscode_block ''devbox-gateway'' ''devbox-gateway-token'' ''Devbox GATEWAY_TOKEN''\<rparr>),
      (''cline'', literal_client ''Cline'' ''mcpServers'' True 0
         (typed ''streamableHttp'' @ [auth_member TOKEN_MARK, (''disabled'', JBool False)])),
      (''roo'', literal_client ''Roo Code'' ''mcpServers'' True 0
         (typed ''streamable-http'' @ [auth_member TOKEN_MARK, (''disabled'', JBool False)])),
      (''gemini'', env_client ''Gemini CLI'' ''mcpServers'' True 0
         (\<lambda>v. [(''httpUrl'', JStr URL_MARK), auth_member (''${'' @ v @ ''}'')])),
      (''zed'', literal_client ''Zed'' ''context_servers'' False 1 (plain_url @ [auth_member TOKEN_MARK])),
      (''factory'', env_client ''Factory'' ''mcpServers'' True 0
         (\<lambda>v. typed ''http'' @ [auth_member (''${'' @ v @ ''}''), (''oauth'', JBool False)])),
      (''kiro'', env_client ''Kiro'' ''mcpServers'' False 1
         (\<lambda>v. plain_url @ [(''type'', JStr ''http''), auth_member (''${'' @ v @ ''}'')])),
      (''windsurf'', env_client ''Windsurf'' ''mcpServers'' True 0 (\<lambda>v. plain_url @ [auth_member (''${env:'' @ v @ ''}'')]))]"

datatype connection_line = TitleLine string | PathLine string | FenceLine string | BlockLine string | GatewayExport string
  | GatewayCheck nat | BridgeExport string | VerifyLine string | NoteLine string nat | FallbackLine string string

text \<open>\<open>gurl\<close> and \<open>gtok\<close> are empty when there is no gateway; \<open>gtools\<close> is the number of its tools, if known.\<close>

definition connection_lines :: "client_spec \<Rightarrow> string \<Rightarrow> string \<Rightarrow> string \<Rightarrow> string \<Rightarrow> nat option \<Rightarrow> connection_line list" where
  "connection_lines spec url token gurl gtok gtools =
     (let block0 = py_replace URL_MARK url (cs_block spec);
          block = (if cs_mode spec = LiteralMode then py_replace TOKEN_MARK token block0 else block0);
          d = cs_display spec in
      [TitleLine d, PathLine d, FenceLine (cs_lang spec), BlockLine block, FenceLine []] @
      (if gurl \<noteq> [] \<and> cs_gateway spec \<noteq> [] then
         [FenceLine (cs_lang spec), BlockLine (py_replace URL_MARK gurl (cs_gateway spec)), FenceLine []] @
         (if cs_mode spec = EnvMode then [GatewayExport gtok] else []) @
         (case gtools of None \<Rightarrow> [] | Some n \<Rightarrow> [GatewayCheck n])
       else []) @
      (if cs_mode spec = EnvMode then [BridgeExport token] else []) @
      (if cs_verify spec then [VerifyLine d] else []) @
      map (NoteLine d) [0..<cs_notes spec] @
      [FallbackLine url token])"

section \<open>The sections\<close>

definition TASK_CLOSE :: string where
  "TASK_CLOSE = ''</task>''"

definition escape_task_close :: "string \<Rightarrow> string" where
  "escape_task_close text = py_replace TASK_CLOSE (''<'' @ [CHR 0x5C] @ ''/task>'') text"

record project_context =
  pc_dir :: string
  pc_mode :: string
  pc_toolchain :: string

text \<open>
  \<open>Accesses\<close>: the number, the lines of the chat block that are kept and the url in the pointer to the gateway.
  \<open>Project\<close>: the number, the directory, the mode and the toolchain shown. \<open>Task\<close>: the text in the tag, or
  \<^const>\<open>None\<close> for the text that stands for it, and the criteria.
\<close>

datatype prompt_section = Preamble | PreambleA | Bootstrap bool | Docs | DocsA | Accesses nat "chat_line list" string
  | Project nat string string string | Rules | RulesA | Task "string option" "string option" | Done bool
  | Connection "connection_line list"

definition accesses ::
  "(string, string) dict \<Rightarrow> string \<Rightarrow> bool \<Rightarrow> string \<Rightarrow> int option \<Rightarrow> int list \<Rightarrow> nat \<Rightarrow> int option \<Rightarrow> string \<Rightarrow> prompt_section" where
  "accesses env_map ingress_url full preview_url rport selfs number gport pointer =
     Accesses number (filter (\<lambda>l. l \<notin> {RepoLine, SkillLine, SandboxLine})
       (chat_block env_map ingress_url full preview_url rport selfs gport)) pointer"

definition project_section :: "nat \<Rightarrow> project_context \<Rightarrow> prompt_section" where
  "project_section number p = Project number (pc_dir p) (pc_mode p) (if pc_toolchain p = [] then ''-'' else pc_toolchain p)"

definition given_text :: "string \<Rightarrow> string option" where
  "given_text t = (let e = escape_task_close (strip t) in if e = [] then None else Some e)"

definition task_section :: "string \<Rightarrow> string \<Rightarrow> prompt_section" where
  "task_section task acceptance = Task (given_text task) (given_text acceptance)"

definition gateway_tools :: "(string \<times> string \<times> string list) list option \<Rightarrow> nat option" where
  "gateway_tools mcps =
     (case mcps of None \<Rightarrow> None | Some ms \<Rightarrow> if ms = [] then None else Some (sum_list (map (\<lambda>(_, _, ts). length ts) ms)))"

definition gateway_url :: "string \<Rightarrow> int option \<Rightarrow> string" where
  "gateway_url ingress_url gport = concat (map (mcp_url ingress_url) (port_given gport))"

definition universal_prompt ::
  "(string, string) dict \<Rightarrow> string \<Rightarrow> string \<Rightarrow> int option \<Rightarrow> int list \<Rightarrow> project_context option \<Rightarrow> string \<Rightarrow> string \<Rightarrow> bool \<Rightarrow>
    int option \<Rightarrow> prompt_section list" where
  "universal_prompt env_map ingress_url preview_url rport selfs profile task acceptance full gport =
     [Preamble, Bootstrap (port_given rport \<noteq> []), Docs,
      accesses env_map ingress_url full preview_url rport selfs 3 gport (gateway_url ingress_url gport)] @
     (case profile of None \<Rightarrow> [] | Some p \<Rightarrow> [project_section 4 p]) @
     [Rules, task_section task acceptance, Done True]"

definition client_prompt ::
  "client_spec \<Rightarrow> (string, string) dict \<Rightarrow> string \<Rightarrow> string \<Rightarrow> int option \<Rightarrow> int list \<Rightarrow> project_context option \<Rightarrow> string \<Rightarrow>
    string \<Rightarrow> bool \<Rightarrow> int option \<Rightarrow> nat option \<Rightarrow> prompt_section list" where
  "client_prompt spec env_map ingress_url preview_url rport selfs profile task acceptance full gport gtools =
     [PreambleA,
      Connection (connection_lines spec (mcp_url ingress_url BRIDGE_PORT) (shown_token env_map full ''MCP_BEARER_TOKEN'')
        (gateway_url ingress_url gport) (if port_given gport = [] then [] else shown_token env_map full ''GATEWAY_TOKEN'') gtools),
      RulesA, DocsA, accesses env_map ingress_url full preview_url rport selfs 4 gport []] @
     (case profile of None \<Rightarrow> [] | Some p \<Rightarrow> [project_section 5 p]) @
     [task_section task acceptance, Done False]"

text \<open>\<^const>\<open>None\<close> is the \<^verbatim>\<open>ValueError\<close> for an unknown client.\<close>

definition compose_prompt ::
  "(string, string) dict \<Rightarrow> string \<Rightarrow> string \<Rightarrow> int option \<Rightarrow> int list \<Rightarrow> project_context option \<Rightarrow> string \<Rightarrow> string \<Rightarrow> bool \<Rightarrow>
    string \<Rightarrow> int option \<Rightarrow> (string \<times> string \<times> string list) list option \<Rightarrow> prompt_section list option" where
  "compose_prompt env_map ingress_url preview_url rport selfs profile task acceptance full client gport mcps =
     (if client = ''universal'' then
        Some (universal_prompt env_map ingress_url preview_url rport selfs profile task acceptance full gport)
      else map_option (\<lambda>spec. client_prompt spec env_map ingress_url preview_url rport selfs profile task acceptance full
          gport (gateway_tools mcps)) (dget CLIENTS client))"

section \<open>The task stays in its tag\<close>

lemma py_replace_nil: "old \<noteq> [] \<Longrightarrow> py_replace old new [] = []"
  by (subst py_replace.simps) simp

lemma py_replace_hit:
  "old \<noteq> [] \<Longrightarrow> starts_with old (c # s) \<Longrightarrow> py_replace old new (c # s) = new @ py_replace old new (drop (length old) (c # s))"
  by (subst py_replace.simps) simp

lemma py_replace_miss:
  assumes "\<not> starts_with old (c # s)"
  shows "py_replace old new (c # s) = c # py_replace old new s"
proof (cases "py_partition old s")
  case (fields a f b)
  then have "py_partition old (c # s) = (c # a, f, b)" using assms by simp
  then show ?thesis
    by (subst py_replace.simps, subst (2) py_replace.simps) (use fields in simp)
qed

text \<open>A prefix without the first character of what is put in was there before.\<close>

lemma starts_with_replaced:
  assumes "starts_with p (py_replace old new s)" "h \<notin> set p" "old \<noteq> []" "new \<noteq> []" "hd new = h"
  shows "starts_with p s"
  using assms
proof (induction p arbitrary: s)
  case (Cons x p)
  show ?case
  proof (cases s)
    case Nil
    then show ?thesis using Cons.prems by (simp add: py_replace_nil)
  next
    case s: (Cons c r)
    show ?thesis
    proof (cases "starts_with old (c # r)")
      case True
      then show ?thesis using Cons.prems s by (cases new) (auto simp: py_replace_hit)
    next
      case False
      then show ?thesis using Cons s by (auto simp: py_replace_miss)
    qed
  qed
qed simp

lemma escaped_no_close: "\<not> contains_sub TASK_CLOSE (escape_task_close s)"
proof (induction s rule: length_induct)
  case (1 s)
  let ?new = "''<'' @ [CHR 0x5C] @ ''/task>''"
  note ih = 1[rule_format, unfolded escape_task_close_def]
  show ?case
  proof (cases s)
    case Nil
    then show ?thesis by (simp add: escape_task_close_def py_replace_nil TASK_CLOSE_def)
  next
    case (Cons c r)
    show ?thesis
    proof (cases "starts_with TASK_CLOSE (c # r)")
      case True
      have "\<not> contains_sub TASK_CLOSE (py_replace TASK_CLOSE ?new (drop (length TASK_CLOSE) (c # r)))"
        by (rule ih) (simp add: Cons TASK_CLOSE_def)
      moreover have "c = CHR ''<''" using True by (simp add: TASK_CLOSE_def)
      ultimately show ?thesis
        using True unfolding Cons escape_task_close_def by (subst py_replace_hit) (simp_all add: TASK_CLOSE_def)
    next
      case False
      have tl: "\<not> contains_sub TASK_CLOSE (py_replace TASK_CLOSE ?new r)" by (rule ih) (simp add: Cons)
      have "\<not> starts_with TASK_CLOSE (c # py_replace TASK_CLOSE ?new r)"
      proof
        assume "starts_with TASK_CLOSE (c # py_replace TASK_CLOSE ?new r)"
        then have c: "c = CHR ''<''" and "starts_with ''/task>'' (py_replace TASK_CLOSE ?new r)"
          by (auto simp: TASK_CLOSE_def)
        then have "starts_with ''/task>'' r"
          by (intro starts_with_replaced[of "''/task>''" TASK_CLOSE ?new r "CHR ''<''"]) (auto simp: TASK_CLOSE_def)
        with c False show False by (simp add: TASK_CLOSE_def)
      qed
      with tl False show ?thesis unfolding Cons escape_task_close_def by (simp add: py_replace_miss)
    qed
  qed
qed

text \<open>The end of the tag is not in the text of a section.\<close>

definition keeps_in_tag :: "prompt_section \<Rightarrow> bool" where
  "keeps_in_tag s = (case s of Task t a \<Rightarrow> list_all (\<lambda>x. case x of None \<Rightarrow> True | Some y \<Rightarrow> \<not> contains_sub TASK_CLOSE y) [t, a] | _ \<Rightarrow> True)"

lemma keeps_in_tag_simps [simp]:
  "keeps_in_tag (task_section task acceptance)" "keeps_in_tag (accesses m u f v r ss n g p)" "keeps_in_tag (project_section n p0)"
  by (simp_all add: keeps_in_tag_def task_section_def given_text_def Let_def escaped_no_close accesses_def project_section_def)

text \<open>
  C16. The text of a task cannot leave its tag: whatever task and criteria are given, the end of the tag does not occur in
  what the prompt puts between the tags, or after them as criteria, for any client; and there is exactly one such section.
\<close>

theorem task_stays_in_tag:
  assumes "compose_prompt m url preview rport selfs profile task acceptance full client gport mcps = Some ss"
  shows "list_all keeps_in_tag ss \<and> filter (\<lambda>s. \<exists>t a. s = Task t a) ss = [task_section task acceptance]"
proof -
  have scalars [simp]: "keeps_in_tag Preamble" "keeps_in_tag PreambleA" "keeps_in_tag (Bootstrap b)" "keeps_in_tag Docs"
    "keeps_in_tag DocsA" "keeps_in_tag Rules" "keeps_in_tag RulesA" "keeps_in_tag (Done b)" "keeps_in_tag (Connection ls)" for b ls
    by (simp_all add: keeps_in_tag_def)
  have tasks [simp]: "\<nexists>t a. accesses m url full preview rport selfs n gport p = Task t a" "\<nexists>t a. project_section n q = Task t a"
    "\<exists>t a. task_section task acceptance = Task t a" for n p q
    by (simp_all add: accesses_def project_section_def task_section_def)
  show ?thesis
    using assms by (auto simp: compose_prompt_def universal_prompt_def client_prompt_def split: if_splits option.splits)
qed

theorem task_stays_in_tag_witness:
  "list_all keeps_in_tag (universal_prompt [] [] [] None [] None (''a'' @ TASK_CLOSE) [] False None)"
proof -
  have "compose_prompt [] [] [] None [] None (''a'' @ TASK_CLOSE) [] False ''universal'' None None =
    Some (universal_prompt [] [] [] None [] None (''a'' @ TASK_CLOSE) [] False None)"
    by (simp add: compose_prompt_def)
  from task_stays_in_tag[OF this] show ?thesis by simp
qed

section \<open>What is shown without revealing\<close>

lemma shown_same_ends: "same_ends (dget_or m k []) (dget_or m' k []) \<Longrightarrow> shown_token m False k = shown_token m' False k"
  by (simp add: shown_token_def Let_def mask_same_ends)

end
