(* ===== verification/PluginProfiles.thy ===== *)
theory PluginProfiles
  imports Cockpit Snapshot
begin

text \<open>
  The profile commands of the plugin (\<^verbatim>\<open>stitch_devbox/service.py\<close>): listing, reading, writing with the snapshot of the
  exposed servers, deleting. What git says of its settings is a parameter; directories that have to be made are left out.
\<close>

section \<open>Commands\<close>

definition or_else :: "string \<Rightarrow> string \<Rightarrow> string" where
  "or_else a b = (if a = [] then b else a)"

record profile_row =
  pw_name :: string
  pw_mode :: string
  pw_dir :: string
  pw_active :: bool

definition profile_row_of :: "cli_os \<Rightarrow> world \<Rightarrow> string \<Rightarrow> string \<Rightarrow> profile_row" where
  "profile_row_of c w active name =
     (let row = \<lparr>pw_name = name, pw_mode = ''?'', pw_dir = [], pw_active = (name = active)\<rparr> in
      case find_path c w name of
        None \<Rightarrow> row
      | Some f \<Rightarrow> (case load_path w f of Inl _ \<Rightarrow> row | Inr p \<Rightarrow> row\<lparr>pw_mode := mode p, pw_dir := project_dir p\<rparr>))"

definition profiles_list :: "cli_os \<Rightarrow> world \<Rightarrow> profile_row list" where
  "profiles_list c w =
     (let active = dget_or (ef_as_map (ef_load (w_env w))) ''ACTIVE_PROFILE'' [] in
      map (profile_row_of c w active) (available (co_glob c) (co_dirs c)))"

text \<open>What is wrong with a profile: no JSON, no object, what building, the shell words, the rules, the snapshot or writing object to.\<close>

datatype put_error = NotJson | NotObject | NotBuilt profile_error | BadWords | Broken problem | NotPinnable snap_error
  | NotWritten profile_error

definition profile_problems :: "cli_os \<Rightarrow> world \<Rightarrow> string \<Rightarrow> put_error list" where
  "profile_problems c w f =
     (case loads (dget_or (w_files w) f []) of
        None \<Rightarrow> [NotJson]
      | Some j \<Rightarrow>
          if \<not> is_dict j then [NotObject]
          else (case load_path w f of
            Inl x \<Rightarrow> [NotBuilt x]
          | Inr p \<Rightarrow> (case validate (co_exists c) p of
              None \<Rightarrow> [BadWords]
            | Some ps \<Rightarrow> map Broken (filter (\<lambda>q. \<not> is_warn q) ps))))"

text \<open>The text, and the problems: it counts as valid when there are none.\<close>

definition profile_get :: "cli_os \<Rightarrow> world \<Rightarrow> string \<Rightarrow> (string \<times> put_error list) option" where
  "profile_get c w name =
     map_option (\<lambda>f. (dget_or (w_files w) f [], profile_problems c w f)) (find_path c w name)"

text \<open>\<open>sv_git\<close> is the value git has for a key, or the empty text.\<close>

record service_env =
  sv_cli :: cli_os
  sv_sha :: "string \<Rightarrow> string"
  sv_xdg :: "string option"
  sv_home :: string
  sv_git :: "string \<Rightarrow> string"

definition profile_defaults :: "service_env \<Rightarrow> string \<times> string" where
  "profile_defaults e = (sv_git e ''user.name'', sv_git e ''user.email'')"

text \<open>The last component of a path and what stands before it; \<^verbatim>\<open>snapshot_path\<close> of \<^verbatim>\<open>gateway/snapshot.py\<close>.\<close>

definition file_name :: "string \<Rightarrow> string" where
  "file_name p = rev (takeWhile (\<lambda>c. c \<noteq> CHR ''/'') (rev p))"

definition snapshot_path :: "string \<Rightarrow> string" where
  "snapshot_path p =
     (let n = file_name p in
      take (length p - length n) p @ take (length n - length (suffix_of n)) n @ ''.mcpsnap.json'')"

definition layers_of :: "service_env \<Rightarrow> world \<Rightarrow> profile \<Rightarrow> layer list" where
  "layers_of e w p = map (\<lambda>f. (f, dget (w_files w) f)) (layer_paths (sv_xdg e) (sv_home e) (project_dir p))"

definition snap_file_of :: "world \<Rightarrow> string \<Rightarrow> snap_file" where
  "snap_file_of w f = (case dget (w_files w) (snapshot_path f) of None \<Rightarrow> FileAbsent | Some t \<Rightarrow> FileText t)"

definition previous_exposed :: "world \<Rightarrow> string \<Rightarrow> exposed_mcp list option" where
  "previous_exposed w f = (case load_path w f of Inl _ \<Rightarrow> None | Inr p \<Rightarrow> Some (exposed_mcps p))"

definition put_path :: "service_env \<Rightarrow> string \<Rightarrow> world \<Rightarrow> string" where
  "put_path e name w =
     (case find_path (sv_cli e) w name of
        Some f \<Rightarrow> f | None \<Rightarrow> fst (new_path (co_isdir (sv_cli e)) (co_dirs (sv_cli e)) name))"

definition default_field :: "string \<Rightarrow> string \<Rightarrow> (string, json) dict \<Rightarrow> (string, json) dict" where
  "default_field key val d = (if truthy (obj_get d key) then d else dset key (JStr val) d)"

definition with_git :: "service_env \<Rightarrow> string \<Rightarrow> (string, json) dict \<Rightarrow> (string, json) dict" where
  "with_git e name d =
     default_field ''git_email'' (or_else (sv_git e ''user.email'') (name @ ''@devbox.local''))
       (default_field ''git_name'' (or_else (sv_git e ''user.name'') name) d)"

definition refresh_if_active :: "cli_os \<Rightarrow> string \<Rightarrow> unit act" where
  "refresh_if_active c name w =
     (if dget (ef_as_map (ef_load (w_env w))) ''ACTIVE_PROFILE'' = Some name then refresh_manifest c w else (Some (), w))"

definition with_file :: "string \<Rightarrow> string \<Rightarrow> world \<Rightarrow> world" where
  "with_file f t w = w\<lparr>w_files := dset f t (w_files w)\<rparr>"

definition put_write :: "service_env \<Rightarrow> string \<Rightarrow> string \<Rightarrow> json \<Rightarrow> bool \<Rightarrow> put_error list act" where
  "put_write e name f data changed w =
     (case write_raw (co_exists (sv_cli e)) data of
        Inl x \<Rightarrow> (Some [NotWritten x], w)
      | Inr t \<Rightarrow> andthen (if changed then refresh_if_active (sv_cli e) name else ret ()) (\<lambda>_. ret []) (with_file f t w))"

definition put_valid :: "service_env \<Rightarrow> string \<Rightarrow> string \<Rightarrow> json \<Rightarrow> profile \<Rightarrow> put_error list act" where
  "put_valid e name f data p w =
     (let changed = (previous_exposed w f \<noteq> Some (exposed_mcps p)) in
      if changed \<and> exposed_mcps p \<noteq> [] then
        (case save_snapshot (sv_sha e) (layers_of e w p) p of
           Inl x \<Rightarrow> (Some [NotPinnable x], w)
         | Inr (_, t) \<Rightarrow> put_write e name f data changed (with_file (snapshot_path f) t w))
      else put_write e name f data changed w)"

text \<open>The problems: the put is valid when there are none. \<^verbatim>\<open>validate\<close> runs outside of every \<^verbatim>\<open>try\<close> here.\<close>

definition service_profile_put :: "service_env \<Rightarrow> string \<Rightarrow> string \<Rightarrow> put_error list act" where
  "service_profile_put e name text w =
     (if \<not> name_ok name then (None, w)
      else case loads text of
        None \<Rightarrow> (Some [NotJson], w)
      | Some (JObj d) \<Rightarrow>
          (case build_top (JObj (with_git e name d)) of
             Inl x \<Rightarrow> (Some [NotBuilt x], w)
           | Inr p \<Rightarrow>
               (case validate (co_exists (sv_cli e)) p of
                  None \<Rightarrow> (None, w)
                | Some ps \<Rightarrow>
                    if \<not> list_all is_warn ps then (Some (map Broken (filter (\<lambda>q. \<not> is_warn q) ps)), w)
                    else put_valid e name (put_path e name w) (JObj (with_git e name d)) p w))
      | Some _ \<Rightarrow> (Some [NotObject], w))"

definition profile_delete :: "cli_os \<Rightarrow> string \<Rightarrow> unit act" where
  "profile_delete c name w =
     (if \<not> name_ok name then (None, w)
      else case find_path c w name of None \<Rightarrow> (None, w) | Some f \<Rightarrow> (Some (), w\<lparr>w_files := ddel f (w_files w)\<rparr>))"

section \<open>Parsed objects have no key twice\<close>

fun uniq_keys :: "json \<Rightarrow> bool" where
  "uniq_keys (JArr xs) \<longleftrightarrow> (\<forall>x \<in> set xs. uniq_keys x)"
| "uniq_keys (JObj d) \<longleftrightarrow> distinct (map fst d) \<and> (\<forall>p \<in> set d. uniq_keys (snd p))"
| "uniq_keys j \<longleftrightarrow> True"

lemma set_dset: "set (dset k v d) \<subseteq> insert (k, v) (set d)"
  by (induction d) auto

lemma uniq_dset: "uniq_keys (JObj d) \<Longrightarrow> uniq_keys v \<Longrightarrow> uniq_keys (JObj (dset k v d))"
  using set_dset[of k v d] by (auto simp: distinct_dset)

lemma uniq_dupdate: "uniq_keys (JObj d) \<Longrightarrow> \<forall>p \<in> set ms. uniq_keys (snd p) \<Longrightarrow> uniq_keys (JObj (dupdate d ms))"
proof (induction ms arbitrary: d)
  case (Cons m ms)
  obtain k v where m: "m = (k, v)" by (cases m)
  have "uniq_keys (JObj (dset k v d))" using Cons.prems by (intro uniq_dset) (auto simp: m)
  from Cons.IH[OF this] Cons.prems show ?case by (simp add: dupdate_def m)
qed (simp add: dupdate_def)

lemma uniq_plit: "plit s = Some (v, r) \<Longrightarrow> uniq_keys v"
  by (auto simp: plit_def pnum_def pnum_rest_def Let_def split: if_splits prod.splits)

lemma uniq_parsed:
  "pval s = Some (v, r) \<Longrightarrow> uniq_keys v"
  "pitems s = Some (xs, r) \<Longrightarrow> \<forall>x \<in> set xs. uniq_keys x"
  "pmembers s = Some (ms, r) \<Longrightarrow> \<forall>p \<in> set ms. uniq_keys (snd p)"
proof (induction s and s and s arbitrary: v r and xs r and ms r rule: pval_pitems_pmembers.induct)
  case (1 s)
  have obj: "uniq_keys (JObj [])" "\<forall>p \<in> set ms. uniq_keys (snd p) \<Longrightarrow> uniq_keys (JObj (dupdate [] ms))" for ms
    by simp (rule uniq_dupdate, simp)
  have mem: "uniq_keys (JObj (dupdate [] ms))"
    if "s = c # r0" "c = CHR 0x7B" "skip_ws r0 = d # r1" "d \<noteq> CHR 0x7D" "pmembers (d # r1) = Some (ms, r')" for c r0 d r1 ms r'
    by (rule obj(2), rule "1.IH"(2)[of c r0 d r1]) (use that in auto)
  show ?case
    using "1.prems" "1.IH"(1)
    by (auto simp: pval.simps[of s] obj(1) simp del: uniq_keys.simps(2) dest: uniq_plit dest!: mem split: list.splits if_splits)
next
  case (2 s)
  show ?case
    using "2.prems" "2.IH"
    by (auto simp: pitems.simps[of s] split: list.splits if_splits option.splits prod.splits)
next
  case (3 s)
  have more: "\<forall>p \<in> set ms. uniq_keys (snd p)"
    if "s = q # r0" "q = CHR 0x22" "pstr r0 = Some (k, r1)" "skip_ws r1 = c # r2" "c = CHR '':''" "length (skip_ws r2) < length s"
      "pval (skip_ws r2) = Some (v, r3)" "skip_ws r3 = e # r4" "e = CHR '',''" "length (skip_ws r4) < length s"
      "pmembers (skip_ws r4) = Some (ms, r')" for q r0 k r1 c r2 v r3 e r4 ms r'
    by (rule "3.IH"(2)[of q r0 "(k, r1)" k r1 c r2 "(v, r3)" v r3 e r4]) (use that in auto)
  have one: "uniq_keys v"
    if "s = q # r0" "q = CHR 0x22" "pstr r0 = Some (k, r1)" "skip_ws r1 = c # r2" "c = CHR '':''" "length (skip_ws r2) < length s"
      "pval (skip_ws r2) = Some (v, r3)" for q r0 k r1 c r2 v r3
    by (rule "3.IH"(1)[of q r0 "(k, r1)" k r1 c r2]) (use that in auto)
  show ?case
    using "3.prems" one more
    by (fastforce simp: pmembers.simps[of s] not_le split: list.splits if_splits option.splits prod.splits)
qed

lemma loads_uniq: "loads t = Some j \<Longrightarrow> uniq_keys j"
  by (auto simp: loads_def split: option.splits prod.splits if_splits dest: uniq_parsed(1))

section \<open>Paths of profiles and snapshots\<close>

lemma file_name_pre: "pre = [] \<or> last pre = CHR ''/'' \<Longrightarrow> CHR ''/'' \<notin> set b \<Longrightarrow> file_name (pre @ b) = b"
proof -
  assume pre: "pre = [] \<or> last pre = CHR ''/''" and b: "CHR ''/'' \<notin> set b"
  then have "takeWhile (\<lambda>c. c \<noteq> CHR ''/'') (rev b @ r) = rev b @ takeWhile (\<lambda>c. c \<noteq> CHR ''/'') r" for r
    by (intro takeWhile_append2) auto
  then have "takeWhile (\<lambda>c. c \<noteq> CHR ''/'') (rev b @ rev pre) = rev b"
    using pre b by (cases pre rule: rev_cases) auto
  then show ?thesis by (simp add: file_name_def)
qed

lemma path_join_pre: "\<exists>pre. (pre = [] \<or> last pre = CHR ''/'') \<and> (\<forall>b. starts_with ''/'' b \<or> path_join a b = pre @ b)"
proof -
  have "\<exists>a'. a = a' @ [CHR ''/'']" if "ends_with ''/'' a"
    using that append_take_drop_id[of "length a - 1" a, symmetric] by (auto simp: ends_with_def)
  then show ?thesis
    by (cases "a = []"; cases "ends_with ''/'' a") (auto simp: path_join_def intro: exI[of _ "[]"] exI[of _ "a @ ''/''"] exI[of _ a])
qed

lemma not_slash: "CHR ''/'' \<notin> set b \<Longrightarrow> \<not> starts_with ''/'' b"
  by (cases b) auto

lemma file_name_join: "CHR ''/'' \<notin> set b \<Longrightarrow> file_name (path_join a b) = b"
  using path_join_pre[of a] file_name_pre[of _ b] not_slash[of b] by metis

lemma name_ok_chars: "name_ok name \<Longrightarrow> name \<noteq> [] \<and> CHR ''/'' \<notin> set name"
proof -
  assume "name_ok name"
  moreover have "\<not> is_word (CHR ''/'')" by code_simp
  ultimately show ?thesis by (auto simp: name_ok_def list_all_iff)
qed

lemma suffix_json: "name \<noteq> [] \<Longrightarrow> suffix_of (name @ ''.json'') = ''.json''"
  by (simp add: suffix_of_def Let_def)

lemma profile_paths:
  assumes "name_ok name"
  shows "file_name (profile_file d name) = name @ ''.json''"
    "file_name (snapshot_path (profile_file d name)) = name @ ''.mcpsnap.json''"
    "snapshot_path (profile_file d name) = path_join d (name @ ''.mcpsnap.json'')"
proof -
  note n = name_ok_chars[OF assms]
  obtain pre where pre: "pre = [] \<or> last pre = CHR ''/''" "\<forall>b. starts_with ''/'' b \<or> path_join d b = pre @ b"
    using path_join_pre[of d] by blast
  have pj: "path_join d (name @ b) = pre @ name @ b" for b
  proof -
    have "\<not> starts_with ''/'' (name @ b)" using n by (cases name) auto
    then show ?thesis using pre(2) by blast
  qed
  show fn: "file_name (profile_file d name) = name @ ''.json''"
    unfolding profile_file_def pj using pre(1) n by (intro file_name_pre) auto
  show sp: "snapshot_path (profile_file d name) = path_join d (name @ ''.mcpsnap.json'')"
    unfolding snapshot_path_def Let_def fn unfolding profile_file_def pj using n by (simp add: suffix_json)
  show "file_name (snapshot_path (profile_file d name)) = name @ ''.mcpsnap.json''"
    unfolding sp pj using pre(1) n by (intro file_name_pre) auto
qed

lemma manifest_file_name: "file_name (manifest_path c) = ''rdm-manifest.json''"
  unfolding manifest_path_def by (rule file_name_join) simp

lemma layer_file_name: "x \<in> set (layer_paths xdg home dir) \<Longrightarrow> file_name x = ''opencode.json''"
  by (auto simp: layer_paths_def Let_def file_name_join)

lemma refresh_files:
  assumes "refresh_if_active c name w = (r, w')" "file_name x \<noteq> ''rdm-manifest.json''"
  shows "dget (w_files w') x = dget (w_files w) x"
proof -
  have "x \<noteq> manifest_path c" using assms(2) manifest_file_name[of c] by auto
  then show ?thesis
    using assms(1) by (auto simp: refresh_if_active_def refresh_manifest_def write_manifest_def write_file_def modify_def Let_def
        split: if_splits option.splits)
qed

lemma refresh_returns: "fst (refresh_if_active c name w) = Some ()"
  by (simp add: refresh_if_active_def refresh_manifest_def write_manifest_def write_file_def modify_def Let_def split: option.split)

section \<open>What a put leaves\<close>

lemma find_mem: "find P xs = Some x \<Longrightarrow> x \<in> set xs"
  by (induction xs) (auto split: if_splits)

lemma put_path_in: "co_dirs (sv_cli e) \<noteq> [] \<Longrightarrow> \<exists>d \<in> set (co_dirs (sv_cli e)). put_path e name w = profile_file d name"
  by (auto simp: put_path_def find_path_def find_profile_def new_path_def split: option.splits dest!: find_mem)

lemma find_kept: "find P xs = Some x \<Longrightarrow> (\<And>y. y \<in> set xs \<Longrightarrow> Q y \<longleftrightarrow> P y \<or> y = x) \<Longrightarrow> find Q xs = Some x"
  by (induction xs) (auto split: if_splits)

lemma find_added: "find P xs = None \<Longrightarrow> x \<in> set xs \<Longrightarrow> (\<And>y. y \<in> set xs \<Longrightarrow> Q y \<longleftrightarrow> P y \<or> y = x) \<Longrightarrow> find Q xs = Some x"
  by (induction xs) (auto split: if_splits)

lemma put_found:
  assumes "co_dirs (sv_cli e) \<noteq> []" "f = put_path e name w"
    and same: "\<And>d. profile_file d name \<noteq> f \<Longrightarrow> dget (w_files w') (profile_file d name) = dget (w_files w) (profile_file d name)"
    and new: "dget (w_files w') f = Some t"
  shows "find_path (sv_cli e) w' name = Some f"
proof -
  let ?fs = "map (\<lambda>d. profile_file d name) (co_dirs (sv_cli e))"
  have keys: "has_key (w_files w') y \<longleftrightarrow> has_key (w_files w) y \<or> y = f" if "y \<in> set ?fs" for y
    using that same new by (cases "y = f") (auto simp: has_key_def simp del: has_key_iff)
  have "f \<in> set ?fs" using put_path_in[OF assms(1), of name w] assms(2) by auto
  then show ?thesis
    using find_kept[of "has_key (w_files w)" ?fs f "has_key (w_files w')"] find_added[of "has_key (w_files w)" ?fs f "has_key (w_files w')"] keys
    by (cases "find_path (sv_cli e) w name") (simp_all add: assms(2) put_path_def find_path_def find_profile_def)
qed

lemma put_cases:
  assumes "service_profile_put e name text w = (Some [], w')"
  obtains d p where "name_ok name" "loads text = Some (JObj d)" "build_top (JObj (with_git e name d)) = Inr p"
    "valid_profile (co_exists (sv_cli e)) p" "put_valid e name (put_path e name w) (JObj (with_git e name d)) p w = (Some [], w')"
  using assms
  by (auto simp: service_profile_put_def valid_profile_def filter_empty_conv list_all_iff
      split: if_splits option.splits json.splits sum.splits)

text \<open>The files after a write: the profile, perhaps the manifest, and nothing else.\<close>

lemma put_write_files:
  assumes "put_write e name f data changed w = (Some [], w')"
  shows "file_name f \<noteq> ''rdm-manifest.json'' \<Longrightarrow>
      dget (w_files w') f = Some (dumps (fmt_indent2 False) data @ [CHR 0x0A])"
    "file_name x \<noteq> ''rdm-manifest.json'' \<Longrightarrow> x \<noteq> f \<Longrightarrow> dget (w_files w') x = dget (w_files w) x"
proof -
  from assms(1) obtain t where t: "write_raw (co_exists (sv_cli e)) data = Inr t"
    "andthen (if changed then refresh_if_active (sv_cli e) name else ret ()) (\<lambda>_. ret []) (with_file f t w) = (Some ([] :: put_error list), w')"
    by (auto simp: put_write_def split: sum.splits)
  have files: "dget (w_files w') x = dget (w_files (with_file f t w)) x" if "file_name x \<noteq> ''rdm-manifest.json''" for x
    using t(2) that by (auto simp: andthen_def ret_def refresh_files split: if_splits prod.splits option.splits)
  have "t = dumps (fmt_indent2 False) data @ [CHR 0x0A]"
    using t(1) by (auto simp: write_raw_def res_iff Let_def split: option.splits if_splits)
  then show "file_name f \<noteq> ''rdm-manifest.json'' \<Longrightarrow> dget (w_files w') f = Some (dumps (fmt_indent2 False) data @ [CHR 0x0A])"
    by (simp add: files with_file_def)
  show "file_name x \<noteq> ''rdm-manifest.json'' \<Longrightarrow> x \<noteq> f \<Longrightarrow> dget (w_files w') x = dget (w_files w) x"
    by (simp add: files with_file_def)
qed

lemma uniq_obj_get: "uniq_keys (JObj d) \<Longrightarrow> uniq_keys (obj_get d k)"
  by (cases "dget d k") (auto simp: obj_get_def dest: map_of_SomeD)

lemma server_env_uniq:
  assumes "server_snap sha n entry = Inr s" "uniq_keys entry"
  shows "distinct (map fst (sn_env s))"
proof -
  have "distinct (map fst env)" if "str_values j = Some env" "uniq_keys j" for j env
    using that by (cases j) (auto simp: str_values_def comp_def case_prod_unfold split: if_splits)
  moreover have "distinct (map fst (sorted_env env))" if "distinct (map fst env)" for env :: "(string \<times> string) list"
    using that by (simp add: sorted_env_def distinct_map)
  ultimately show ?thesis
    using assms uniq_obj_get by (fastforce simp: server_snap_def res_iff split: json.splits if_splits option.splits list.splits)
qed

lemma merged_uniq:
  assumes "merged_layers layers = Inr merged" "dget merged n = Some (entry, l)"
  shows "uniq_keys entry"
proof -
  let ?ok = "\<lambda>m :: (string, json \<times> string) dict. \<forall>p \<in> set m. uniq_keys (fst (snd p))"
  have ins: "?ok (fold (\<lambda>(name, entry). dset name (entry, lay)) mcp m)" if "?ok m" "uniq_keys (JObj mcp)" for mcp m lay
    using that
  proof (induction mcp arbitrary: m)
    case (Cons x mcp)
    obtain k v where x: "x = (k, v)" by (cases x)
    have "?ok (dset k (v, lay) m)" using Cons.prems set_dset[of k "(v, lay)" m] by (auto simp: x)
    from Cons.IH[OF this] Cons.prems show ?case by (simp add: x)
  qed simp
  have one: "?ok m'" if ml: "merge_layer la m = Inr m'" and okm: "?ok m" for la m m'
  proof -
    have "uniq_keys (JObj mcp)" if "loads t = Some (JObj d)" "obj_get d ''mcp'' = JObj mcp" for t d mcp
      using uniq_obj_get[OF loads_uniq[OF that(1)], of "''mcp''"] that(2) by simp
    note uniq_mcp = this
    consider "m' = m" | t d mcp where "loads t = Some (JObj d)" "obj_get d ''mcp'' = JObj mcp"
        "m' = fold (\<lambda>(name, entry). dset name (entry, fst la)) mcp m"
      using ml by (auto simp: merge_layer_def split: option.splits json.splits)
    then show ?thesis
    proof cases
      case 1
      show ?thesis unfolding 1 by (rule okm)
    next
      case (2 t d mcp)
      show ?thesis unfolding 2(3) by (rule ins[OF okm]) (use 2(1,2) uniq_mcp in blast)
    qed
  qed
  have "?ok m'" if "merge_from ls m = Inr m'" "?ok m" for ls m m'
    using that
  proof (induction ls arbitrary: m)
    case (Cons la ls)
    then obtain m1 where m1: "merge_layer la m = Inr m1" "merge_from ls m1 = Inr m'" by (auto simp: res_iff)
    from Cons.IH[OF m1(2) one[OF m1(1) Cons.prems(2)]] show ?case .
  qed simp
  from this[of layers "[]" merged] have "?ok merged" using assms(1) by (simp add: merged_layers_def)
  from this[rule_format, OF map_of_SomeD[OF assms(2)]] show ?thesis by simp
qed

text \<open>What is saved for the exposed servers of a valid profile passes the check of the gateway.\<close>

lemma saved_verifies:
  assumes "save_snapshot sha layers p = Inr (snap, t)" "valid_profile exists p"
  shows "load_verified sha layers p (FileText t) = Inr snap \<and> map fst snap = map em_name (exposed_mcps p)"
proof -
  have b: "build_snapshot sha layers p = Inr snap" using assms(1) by (auto simp: save_snapshot_def res_iff)
  from b obtain merged where m: "merged_layers layers = Inr merged" "map fst snap = map em_name (exposed_mcps p)"
    "list_all2 (\<lambda>e ns. build_one sha merged e = Inr ns) (exposed_mcps p) snap" by (rule build_snapshot_Inr)
  have "env_distinct snap"
    using m(3) unfolding env_distinct_def
    by (induction rule: list_all2_induct) (auto dest!: build_one_Inr intro: server_env_uniq merged_uniq[OF m(1)])
  moreover have "\<forall>(i, x) \<in> set (enum1 (exposed_mcps p)). valid_server_name (em_name x)"
    using valid_profile_sections(3)[OF assms(2)] by (auto simp: v_exposed_def warn v_exposed_one_def)
  then have "exposed_names p = map em_name (exposed_mcps p)" by (simp add: enum1_all exposed_names_def filter_id_conv)
  then have "distinct (map em_name (exposed_mcps p))"
    using valid_profile_sections(3)[OF assms(2)] by (simp add: v_exposed_def warn)
  ultimately show ?thesis using snapshot_roundtrip[OF assms(1)] m(2) by simp
qed

lemma exact_dset: "json_exact (JObj d) \<Longrightarrow> json_exact v \<Longrightarrow> json_exact (JObj (dset k v d))"
  using set_dset[of k v d] by (auto simp: distinct_dset)

lemma exact_with_git: "json_exact (JObj d) \<Longrightarrow> json_exact (JObj (with_git e name d))"
  unfolding with_git_def default_field_def by (auto simp del: json_exact.simps(3) intro!: exact_dset)

definition put_result :: "service_env \<Rightarrow> string \<Rightarrow> world \<Rightarrow> world \<Rightarrow> string \<Rightarrow> profile \<Rightarrow> bool" where
  "put_result e name w w' dir p \<longleftrightarrow>
     (let f = put_path e name w in
      name_ok name \<and> f = profile_file dir name \<and> dir \<in> set (co_dirs (sv_cli e)) \<and>
      find_path (sv_cli e) w' name = Some f \<and> load_path w' f = Inr p \<and> valid_profile (co_exists (sv_cli e)) p \<and>
      (previous_exposed w f = Some (exposed_mcps p) \<or> exposed_mcps p = [] \<or>
       (\<exists>snap. save_snapshot (sv_sha e) (layers_of e w' p) p = Inr (snap, save_text snap) \<and>
          dget (w_files w') (snapshot_path f) = Some (save_text snap))))"

lemma put_facts:
  assumes put: "service_profile_put e name text w = (Some [], w')"
    and dirs: "co_dirs (sv_cli e) \<noteq> []" and name: "name \<notin> {''opencode'', ''rdm-manifest''}"
    and exact: "case loads text of None \<Rightarrow> True | Some j \<Rightarrow> json_exact j"
  obtains dir p where "put_result e name w w' dir p"
proof -
  let ?c = "sv_cli e" and ?f = "put_path e name w"
  from put obtain d p where n: "name_ok name" and l: "loads text = Some (JObj d)"
    and b: "build_top (JObj (with_git e name d)) = Inr p" and v: "valid_profile (co_exists ?c) p"
    and pv: "put_valid e name ?f (JObj (with_git e name d)) p w = (Some [], w')" by (rule put_cases)
  let ?data = "JObj (with_git e name d)" and ?t = "dumps (fmt_indent2 False) (JObj (with_git e name d)) @ [CHR 0x0A]"
  let ?changed = "previous_exposed w ?f \<noteq> Some (exposed_mcps p) \<and> exposed_mcps p \<noteq> []"
  obtain dir where f: "?f = profile_file dir name" and dir: "dir \<in> set (co_dirs ?c)" using put_path_in[OF dirs] by blast
  note paths = profile_paths[OF n] and chars = name_ok_chars[OF n]
  have fn: "file_name ?f \<noteq> ''rdm-manifest.json''" "file_name ?f \<noteq> ''opencode.json''"
    using name paths(1) f by auto
  have sn: "file_name (snapshot_path ?f) \<noteq> ''rdm-manifest.json''" "file_name (snapshot_path ?f) \<noteq> ''opencode.json''"
    "snapshot_path ?f \<noteq> profile_file dr name" for dr
  proof -
    have "take 13 (rev (name @ ''.mcpsnap.json'')) = rev ''.mcpsnap.json''" by simp
    then have "name @ ''.mcpsnap.json'' \<noteq> ''rdm-manifest.json''" "name @ ''.mcpsnap.json'' \<noteq> ''opencode.json''" by auto
    then show "file_name (snapshot_path ?f) \<noteq> ''rdm-manifest.json''" "file_name (snapshot_path ?f) \<noteq> ''opencode.json''"
      by (simp_all add: f paths(2))
    have "file_name (snapshot_path ?f) \<noteq> file_name (profile_file dr name)" unfolding f paths(1,2) by simp
    then show "snapshot_path ?f \<noteq> profile_file dr name" by auto
  qed
  obtain w1 where w1: "put_write e name ?f ?data (previous_exposed w ?f \<noteq> Some (exposed_mcps p)) w1 = (Some [], w')"
    "\<And>x. x \<noteq> snapshot_path ?f \<Longrightarrow> dget (w_files w1) x = dget (w_files w) x"
    "?changed \<Longrightarrow> \<exists>snap t. save_snapshot (sv_sha e) (layers_of e w p) p = Inr (snap, t) \<and> dget (w_files w1) (snapshot_path ?f) = Some t"
  proof (cases ?changed)
    case True
    with pv obtain snap t where "save_snapshot (sv_sha e) (layers_of e w p) p = Inr (snap, t)"
      "put_write e name ?f ?data True (with_file (snapshot_path ?f) t w) = (Some [], w')"
      by (auto simp: put_valid_def split: sum.splits)
    with True show thesis by (intro that[of "with_file (snapshot_path ?f) t w"]) (auto simp: with_file_def)
  next
    case False
    with pv show thesis by (intro that[of w]) (auto simp: put_valid_def Let_def)
  qed
  note files = put_write_files[OF w1(1)]
  have "loads ?t = Some ?data"
    by (rule loads_dumps_ws[OF exact_with_git]) (use exact l in \<open>simp_all add: jws_def\<close>)
  then have load: "load_path w' ?f = Inr p" using files(1)[OF fn(1)] b by (simp add: load_path_def load_profile_def dget_or_def)
  have found: "find_path ?c w' name = Some ?f"
    using files(1)[OF fn(1)]
  proof (rule put_found[OF dirs refl, rotated])
    fix d assume "profile_file d name \<noteq> ?f"
    then show "dget (w_files w') (profile_file d name) = dget (w_files w) (profile_file d name)"
      using files(2)[of "profile_file d name"] w1(2)[of "profile_file d name"] sn(3)[of d] paths(1)[of d] fn(1) paths(1)[of dir] f by simp
  qed
  have "dget (w_files w') x = dget (w_files w) x" if "file_name x = ''opencode.json''" for x
  proof -
    have "x \<noteq> ?f" "x \<noteq> snapshot_path ?f" "file_name x \<noteq> ''rdm-manifest.json''" using that fn(2) sn(2) by auto
    then show ?thesis by (simp add: files(2) w1(2))
  qed
  then have layers: "layers_of e w' p = layers_of e w p"
    by (auto simp: layers_of_def dest: layer_file_name)
  have "\<exists>snap. save_snapshot (sv_sha e) (layers_of e w' p) p = Inr (snap, save_text snap) \<and>
      dget (w_files w') (snapshot_path ?f) = Some (save_text snap)" if ?changed
  proof -
    from w1(3)[OF that] obtain snap t where st: "save_snapshot (sv_sha e) (layers_of e w p) p = Inr (snap, t)"
      "dget (w_files w1) (snapshot_path ?f) = Some t" by blast
    moreover have "dget (w_files w') (snapshot_path ?f) = Some t"
      using files(2)[OF sn(1)] sn(3)[of dir] f st(2) by simp
    moreover have "t = save_text snap" using st(1) by (auto simp: save_snapshot_def res_iff)
    ultimately show ?thesis by (simp add: layers)
  qed
  then show thesis using n f dir found load v by (intro that[of dir p]) (auto simp: put_result_def Let_def)
qed

text \<open>
  C14. A profile that the plugin reports as stored is found under its name, reads back as a valid profile, and when it exposes
  servers that it did not expose before, the gateway starts on it: the snapshot that was written with it loads and
  agrees with the configuration of every exposed server. This holds for every name but those of the two other files
  that the program keeps as JSON, and for data whose numbers print as they are read.
\<close>

theorem profile_put_ready:
  assumes put: "service_profile_put e name text w = (Some [], w')"
    and dirs: "co_dirs (sv_cli e) \<noteq> []" and name: "name \<notin> {''opencode'', ''rdm-manifest''}"
    and exact: "case loads text of None \<Rightarrow> True | Some j \<Rightarrow> json_exact j"
  shows "\<exists>f p. find_path (sv_cli e) w' name = Some f \<and> load_path w' f = Inr p \<and> valid_profile (co_exists (sv_cli e)) p \<and>
    (exposed_mcps p = [] \<or> previous_exposed w f = Some (exposed_mcps p) \<or>
     (\<exists>snap. load_verified (sv_sha e) (layers_of e w' p) p (snap_file_of w' f) = Inr snap \<and>
        map fst snap = map em_name (exposed_mcps p)))"
proof -
  from put dirs name exact obtain dir p where "put_result e name w w' dir p" by (rule put_facts)
  then show ?thesis using saved_verifies[of "sv_sha e" "layers_of e w' p" p] by (auto simp: put_result_def Let_def snap_file_of_def)
qed

text \<open>The stems of the files \<^verbatim>\<open>*.json\<close> of a directory.\<close>

definition json_stems :: "(string, string) dict \<Rightarrow> string \<Rightarrow> string list option" where
  "json_stems files d =
     Some (map (\<lambda>f. let n = file_name f in take (length n - length (suffix_of n)) n)
       (filter (\<lambda>f. ends_with ''.json'' (file_name f) \<and> path_join d (file_name f) = f) (dkeys files)))"

text \<open>
  C39. The snapshot that a put writes beside the profile is itself listed as a profile: \<^verbatim>\<open>available\<close> takes every file
  that ends in \<^verbatim>\<open>.json\<close>, and the snapshot of a profile is one, though it cannot be loaded as a profile.
\<close>

theorem snapshot_listed_as_profile:
  assumes "service_profile_put e name text w = (Some [], w')"
    and "co_dirs (sv_cli e) \<noteq> []" "name \<notin> {''opencode'', ''rdm-manifest''}"
    and "case loads text of None \<Rightarrow> True | Some j \<Rightarrow> json_exact j"
    and new: "load_path w' (put_path e name w) = Inr p" "exposed_mcps p \<noteq> []"
      "previous_exposed w (put_path e name w) \<noteq> Some (exposed_mcps p)" and vis: "\<not> starts_with ''_'' name"
  shows "name @ ''.mcpsnap'' \<in> set (available (json_stems (w_files w')) (co_dirs (sv_cli e))) \<and>
    (\<exists>x. load_path w' (snapshot_path (put_path e name w)) = Inl x)"
proof -
  from assms(1-4) obtain dir p0 where "put_result e name w w' dir p0" by (rule put_facts)
  then obtain snap where n: "name_ok name" and f: "put_path e name w = profile_file dir name" and dir: "dir \<in> set (co_dirs (sv_cli e))"
    and v: "valid_profile (co_exists (sv_cli e)) p" and sv: "save_snapshot (sv_sha e) (layers_of e w' p) p = Inr (snap, save_text snap)"
    and sn: "dget (w_files w') (snapshot_path (profile_file dir name)) = Some (save_text snap)"
    using new by (auto simp: put_result_def Let_def)
  let ?f = "snapshot_path (profile_file dir name)" and ?n = "name @ ''.mcpsnap.json''"
  have fn: "file_name ?f = ?n" "path_join dir ?n = ?f" by (rule profile_paths(2)[OF n], rule profile_paths(3)[OF n, symmetric])
  have "suffix_of ?n = ''.json''" using suffix_json[of "name @ ''.mcpsnap''"] by simp
  moreover have "ends_with ''.json'' ?n" by (simp add: ends_with_def)
  moreover have "?f \<in> set (dkeys (w_files w'))" using map_of_SomeD[OF sn] by force
  ultimately have "name @ ''.mcpsnap'' \<in> set (the (json_stems (w_files w') dir))"
    using fn by (force simp: json_stems_def Let_def)
  moreover have "\<not> starts_with ''_'' (name @ ''.mcpsnap'')" using vis name_ok_chars[OF n] by (cases name) auto
  ultimately have "name @ ''.mcpsnap'' \<in> set (available (json_stems (w_files w')) (co_dirs (sv_cli e)))"
    using dir by (auto simp: available_iff json_stems_def)
  note listed = this
  have "load_verified (sv_sha e) (layers_of e w' p) p (FileText (save_text snap)) = Inr snap"
    using saved_verifies[OF sv v] by simp
  then obtain d where d: "loads (save_text snap) = Some (JObj d)" "''servers'' \<in> fst ` set d"
    by (auto simp: load_verified_def load_snapshot_def same_keys_def res_iff split: option.splits json.splits if_splits)
  then obtain v where "(''servers'', v) \<in> set d" by auto
  moreover have "dget TOP_KEYS (norm_key ''servers'') = None" by code_simp
  ultimately obtain ks where "fields_of (JObj d) TOP_KEYS ''profile'' = Inl (UnknownKeys ''profile'' ks)"
    using fields_of_unknown by blast
  then have "load_path w' ?f = Inl (UnknownKeys ''profile'' ks)" by (simp add: load_path_def dget_or_def sn load_profile_def d build_top_def)
  then show ?thesis using f listed by auto
qed

definition put_data :: "(string, json) dict" where
  "put_data = [(''project_dir'', JStr ''/w''), (''git_name'', JStr ''d''), (''git_email'', JStr ''d@e''),
     (''exposed_mcps'', JArr [JObj [(''name'', JStr ''ctx''), (''mode'', JStr ''readonly''), (''tool_allow'', JArr [JStr ''q''])]])]"

definition put_env :: service_env where
  "put_env = \<lparr>sv_cli = demo_cli, sv_sha = (\<lambda>_. ''00''), sv_xdg = Some ''/g'', sv_home = ''/h'', sv_git = (\<lambda>_. [])\<rparr>"

definition put_world :: world where
  "put_world = demo_world\<lparr>w_files := [(''/g/opencode/opencode.json'', the (snd (hd sample_layers)))]\<rparr>"

lemma put_build:
  obtains p where "build_top (JObj put_data) = Inr p" "exposed_mcps p = exposed_mcps exposing_profile" "project_dir p = ''/w''"
    "validate (\<lambda>_. True) p = Some [W19]"
proof -
  have "case build_top (JObj put_data) of Inl _ \<Rightarrow> False
      | Inr p \<Rightarrow> exposed_mcps p = exposed_mcps exposing_profile \<and> project_dir p = ''/w'' \<and> validate (\<lambda>_. True) p = Some [W19]"
    by code_simp
  then show ?thesis using that by (auto split: sum.splits)
qed

lemma put_parts:
  "with_git put_env ''srv'' put_data = put_data" "put_path put_env ''srv'' put_world = ''/p/srv.json''"
  "previous_exposed put_world ''/p/srv.json'' = None"
proof -
  show "with_git put_env ''srv'' put_data = put_data"
    by (simp add: with_git_def default_field_def put_data_def obj_get_def truthy_def)
  have pf: "profile_file ''/p'' ''srv'' = ''/p/srv.json''" by code_simp
  have "loads [] = None" by code_simp
  then show "previous_exposed put_world ''/p/srv.json'' = None"
    by (simp add: previous_exposed_def load_path_def put_world_def dget_or_def load_profile_def)
  have "find_path demo_cli put_world ''srv'' = None"
    by (simp add: find_path_def find_profile_def demo_cli_def put_world_def pf)
  then show "put_path put_env ''srv'' put_world = ''/p/srv.json''"
    by (simp add: put_path_def put_env_def new_path_def demo_cli_def pf)
qed

lemma put_saves:
  assumes "project_dir p = ''/w''" "exposed_mcps p = exposed_mcps exposing_profile"
  shows "\<exists>t. save_snapshot (\<lambda>_. ''00'') (layers_of put_env put_world p) p = Inr (sample_snapshot, t)"
proof -
  have "layer_paths (Some ''/g'') ''/h'' ''/w'' = [''/g/opencode/opencode.json'', ''/w/opencode.json'', ''/w/.opencode/opencode.json'']"
    by code_simp
  then have "layers_of put_env put_world p = [(''/g/opencode/opencode.json'', snd (hd sample_layers)), (''/w/opencode.json'', None),
      (''/w/.opencode/opencode.json'', None)]"
    by (simp add: layers_of_def put_env_def assms(1) put_world_def sample_layers_def)
  moreover have "build_snapshot (\<lambda>_. ''00'') [(''/g/opencode/opencode.json'', snd (hd sample_layers)), (''/w/opencode.json'', None),
      (''/w/.opencode/opencode.json'', None)] exposing_profile = Inr sample_snapshot"
    by code_simp
  ultimately show ?thesis using assms(2) by (simp add: save_snapshot_def build_snapshot_def)
qed

lemma put_done:
  obtains w' p where "service_profile_put put_env ''srv'' (dumps (fmt_indent2 False) (JObj put_data)) put_world = (Some [], w')"
    "load_path w' ''/p/srv.json'' = Inr p" "exposed_mcps p \<noteq> []"
proof -
  obtain p where p: "build_top (JObj put_data) = Inr p" "exposed_mcps p = exposed_mcps exposing_profile" "project_dir p = ''/w''"
    "validate (\<lambda>_. True) p = Some [W19]" by (rule put_build)
  obtain t where t: "save_snapshot (\<lambda>_. ''00'') (layers_of put_env put_world p) p = Inr (sample_snapshot, t)"
    using put_saves[OF p(3,2)] by blast
  have c: "sv_sha put_env = (\<lambda>_. ''00'')" "sv_cli put_env = demo_cli" "co_exists demo_cli = (\<lambda>_. True)"
    by (simp_all add: put_env_def demo_cli_def)
  have l: "loads (dumps (fmt_indent2 False) (JObj put_data)) = Some (JObj put_data)"
    by (rule loads_dumps) (simp_all add: put_data_def)
  have n: "name_ok ''srv''" by code_simp
  have ex: "exposed_mcps p \<noteq> []" by (simp add: p(2) exposing_profile_def)
  have wr: "write_raw (\<lambda>_. True) (JObj put_data) = Inr (dumps (fmt_indent2 False) (JObj put_data) @ [CHR 0x0A])"
    by (simp add: write_raw_def p)
  let ?w1 = "with_file (snapshot_path ''/p/srv.json'') t put_world"
  let ?w2 = "with_file ''/p/srv.json'' (dumps (fmt_indent2 False) (JObj put_data) @ [CHR 0x0A]) ?w1"
  obtain w' where "refresh_if_active demo_cli ''srv'' ?w2 = (Some (), w')"
    using refresh_returns[of demo_cli "''srv''" ?w2] by (cases "refresh_if_active demo_cli ''srv'' ?w2") auto
  then have pw: "put_write put_env ''srv'' ''/p/srv.json'' (JObj put_data) True ?w1 = (Some [], w')"
    by (simp add: put_write_def c wr andthen_def ret_def)
  have pv: "put_valid put_env ''srv'' ''/p/srv.json'' (JObj put_data) p put_world = (Some [], w')"
    unfolding put_valid_def put_parts c by (simp add: ex t pw)
  have "service_profile_put put_env ''srv'' (dumps (fmt_indent2 False) (JObj put_data)) put_world = (Some [], w')"
    using pv by (simp add: service_profile_put_def n l put_parts p c)
  moreover have "file_name ''/p/srv.json'' \<noteq> ''rdm-manifest.json''" by code_simp
  note put_write_files(1)[OF pw this]
  moreover have "loads (dumps (fmt_indent2 False) (JObj put_data) @ [CHR 0x0A]) = Some (JObj put_data)"
    by (rule loads_dumps_ws) (simp_all add: put_data_def jws_def)
  ultimately show ?thesis using that[of w' p] ex p(1) by (simp add: load_path_def dget_or_def load_profile_def)
qed

theorem profile_put_ready_witness:
  "\<exists>w' f p snap. find_path demo_cli w' ''srv'' = Some f \<and> load_path w' f = Inr p \<and> valid_profile (\<lambda>_. True) p \<and>
     (exposed_mcps p = [] \<or> previous_exposed put_world f = Some (exposed_mcps p) \<or>
      load_verified (\<lambda>_. ''00'') (layers_of put_env w' p) p (snap_file_of w' f) = Inr snap)"
proof -
  obtain w' where w': "service_profile_put put_env ''srv'' (dumps (fmt_indent2 False) (JObj put_data)) put_world = (Some [], w')"
    by (rule put_done)
  have l: "loads (dumps (fmt_indent2 False) (JObj put_data)) = Some (JObj put_data)" "json_exact (JObj put_data)"
    by (rule loads_dumps) (simp_all add: put_data_def)
  have c: "sv_sha put_env = (\<lambda>_. ''00'')" "sv_cli put_env = demo_cli" "co_exists demo_cli = (\<lambda>_. True)" "co_dirs demo_cli \<noteq> []"
    by (simp_all add: put_env_def demo_cli_def)
  have "co_dirs (sv_cli put_env) \<noteq> []" "''srv'' \<notin> {''opencode'', ''rdm-manifest''}" by (simp_all add: c)
  from profile_put_ready[OF w' this] l show ?thesis unfolding c by (simp only: option.case simp_thms) blast
qed

theorem snapshot_listed_as_profile_witness:
  "\<exists>w'. ''srv.mcpsnap'' \<in> set (available (json_stems (w_files w')) [''/p'']) \<and>
     service_profile_put put_env ''srv'' (dumps (fmt_indent2 False) (JObj put_data)) put_world = (Some [], w')"
proof -
  obtain w' p where w': "service_profile_put put_env ''srv'' (dumps (fmt_indent2 False) (JObj put_data)) put_world = (Some [], w')"
    and p: "load_path w' ''/p/srv.json'' = Inr p" "exposed_mcps p \<noteq> []" by (rule put_done)
  have l: "loads (dumps (fmt_indent2 False) (JObj put_data)) = Some (JObj put_data)" "json_exact (JObj put_data)"
    by (rule loads_dumps) (simp_all add: put_data_def)
  have c: "co_dirs (sv_cli put_env) = [''/p'']" by (simp add: put_env_def demo_cli_def)
  have "''srv.mcpsnap'' \<in> set (available (json_stems (w_files w')) (co_dirs (sv_cli put_env)))"
    using snapshot_listed_as_profile[OF w', of p] l p by (simp add: c put_parts starts_with_def)
  with w' show ?thesis by (auto simp: c)
qed

section \<open>The keys of the git fields\<close>

lemma fields_of_last:
  assumes "fields_of (JObj (d @ [(k, v)])) TOP_KEYS loc = Inr vals" "dget TOP_KEYS (norm_key k) = Some n"
  shows "dget vals n = Some v"
  using assms by (auto simp: fields_of_def fields_loop_spec map_filter_append split: if_splits)

text \<open>
  The keys of a profile are read without regard to case and underscores, but the defaults are put in unless the exact
  key is there: a profile that gives its mail address as \<^verbatim>\<open>GitEmail\<close> loses it to the default.
\<close>

lemma put_overrides_git_email:
  assumes "''git_email'' \<notin> fst ` set d" "build_top (JObj (with_git e name d)) = Inr q"
  shows "git_email q = or_else (sv_git e ''user.email'') (name @ ''@devbox.local'')"
proof -
  let ?v = "JStr (or_else (sv_git e ''user.email'') (name @ ''@devbox.local''))"
  let ?d1 = "default_field ''git_name'' (or_else (sv_git e ''user.name'') name) d"
  have "''git_email'' \<notin> fst ` set ?d1"
    using assms(1) set_dset[of "''git_name''" "JStr (or_else (sv_git e ''user.name'') name)" d] by (auto simp: default_field_def)
  then have w: "with_git e name d = ?d1 @ [(''git_email'', ?v)]"
    by (simp add: with_git_def default_field_def[of "''git_email''"] obj_get_def truthy_def dset_new map_of_eq_None_iff[THEN iffD2])
  have k: "dget TOP_KEYS (norm_key ''git_email'') = Some ''git_email''" by code_simp
  from assms(2) obtain vals where "fields_of (JObj (with_git e name d)) TOP_KEYS ''profile'' = Inr vals" "build_profile vals = Inr q"
    by (auto simp: build_top_def rbind_Inr_iff)
  moreover from this(1) have "dget vals ''git_email'' = Some ?v" unfolding w by (rule fields_of_last[OF _ k])
  ultimately show ?thesis by (auto simp: build_profile_def rbind_Inr_iff str_of_def dget_or_def py_str_def)
qed

end
