(* ===== verification/Service.thy ===== *)
theory Service
  imports Bridge Vitals Prompt PluginProfiles
begin

text \<open>
  The commands of the stitch-devbox plugin (\<^verbatim>\<open>stitch_devbox/service.py\<close>) over the payload builders, the commands of
  the host side and the action queue. A command gives its result, or \<^const>\<open>None\<close> for an exception that reaches the
  caller, and the state it leaves. What git, the public address and the clock give are parameters; texts of messages
  are constructors.
\<close>

section \<open>The environment of the plugin\<close>

definition REAL_ENV_TEMP :: "string list" where
  "REAL_ENV_TEMP = [''TEMP'', ''TMP'']"

text \<open>\<open>real\<close> are the values the system knows for the user, \<open>home\<close> the home directory by the scoped environment.\<close>

definition adopt_drive :: "(string, string) dict \<Rightarrow> string \<Rightarrow> (string, string) dict \<Rightarrow> (string, string) dict" where
  "adopt_drive real profile environ =
     (if dget_or real ''HOMEDRIVE'' [] \<noteq> [] \<and> dget_or real ''HOMEPATH'' [] \<noteq> []
      then dset ''HOMEPATH'' (dget_or real ''HOMEPATH'' []) (dset ''HOMEDRIVE'' (dget_or real ''HOMEDRIVE'' []) environ)
      else (case py_partition '':'' profile of (drive, _, rest) \<Rightarrow>
        if rest = [] then environ else dset ''HOMEPATH'' rest (dset ''HOMEDRIVE'' (drive @ '':'') environ)))"

definition adopt_real_home ::
  "string list \<Rightarrow> bool \<Rightarrow> (string, string) dict \<Rightarrow> string \<Rightarrow> (string, string) dict \<Rightarrow> (string, string) dict" where
  "adopt_real_home capabilities windows real home environ =
     (let profile = or_else (dget_or real ''USERPROFILE'' []) (dget_or real ''HOME'' []) in
      if ''host_driver'' \<in> set capabilities \<or> profile = [] \<or> profile = home then environ
      else let env1 = dset ''HOME'' profile environ in
        if \<not> windows then env1
        else fold (\<lambda>k e. if dget_or real k [] = [] then e else dset k (dget_or real k []) e) REAL_ENV_TEMP
          (adopt_drive real profile (dset ''USERPROFILE'' profile env1)))"

section \<open>What is shown\<close>

definition service_status :: "cli_os \<Rightarrow> moment \<Rightarrow> world \<Rightarrow> vitals \<Rightarrow> status \<times> vitals" where
  "service_status c m w v = (case build_status c m 0 w v of (s, v1) \<Rightarrow> (s\<lparr>st_env := []\<rparr>, v1))"

definition health_check :: "cli_os \<Rightarrow> world \<Rightarrow> json" where
  "health_check c w =
     JObj [(''ok'', JBool True), (''active_profile'', JStr (dget_or (ef_as_map (ef_load (w_env w))) ''ACTIVE_PROFILE'' [])),
       (''repo'', JStr (parent_dir (co_home c)))]"

text \<open>A card: its id, the key of its title, its value (\<^const>\<open>None\<close> is the dash), its tone and the key of a hint.\<close>

record card =
  cd_id :: string
  cd_title :: string
  cd_value :: "string option"
  cd_tone :: string
  cd_hint :: "string option"

definition hint :: "string \<Rightarrow> string" where
  "hint i = ''stitch-devbox.hint.'' @ i"

definition port_card :: "string \<Rightarrow> bool option \<Rightarrow> card" where
  "port_card i state =
     (case state of
        None \<Rightarrow> \<lparr>cd_id = i, cd_title = i, cd_value = Some ''off'', cd_tone = ''warn'', cd_hint = None\<rparr>
      | Some up \<Rightarrow> \<lparr>cd_id = i, cd_title = i, cd_value = Some (if up then ''up'' else ''down''),
          cd_tone = (if up then ''ok'' else ''down''), cd_hint = (if up then None else Some (hint i))\<rparr>)"

definition overview_cards :: "status \<Rightarrow> card list" where
  "overview_cards s =
     (let profile = dget_or (st_env s) ''ACTIVE_PROFILE'' []; recorded = fst (st_services s); alive = snd (st_services s);
          down = (0 < recorded \<and> alive = 0) in
      [\<lparr>cd_id = ''profile'', cd_title = ''profile'', cd_value = (if profile = [] then None else Some profile),
         cd_tone = (if profile = [] then ''warn'' else ''ok''), cd_hint = (if profile = [] then Some (hint ''profile'') else None)\<rparr>,
       port_card ''ingress'' (dget (st_ports s) ''ingress''), port_card ''bridge'' (dget (st_ports s) ''bridge''),
       port_card ''runner'' (dget (st_ports s) ''runner''),
       \<lparr>cd_id = ''watchdog'', cd_title = ''watchdog'', cd_value = Some (if st_watchdog s then ''on'' else ''off''),
         cd_tone = (if st_watchdog s then ''ok'' else ''warn''), cd_hint = (if st_watchdog s then None else Some (hint ''watchdog''))\<rparr>,
       \<lparr>cd_id = ''host_services'', cd_title = ''hostServices'', cd_value = Some (nat_str alive @ ''/'' @ nat_str recorded),
         cd_tone = (if down then ''warn'' else ''ok''), cd_hint = (if down then Some (hint ''hostServices'') else None)\<rparr>])"

record gateway_view =
  gv_enabled :: bool
  gv_up :: bool
  gv_port :: "int option"
  gv_calls :: nat
  gv_errors :: nat
  gv_exposed :: "exposed_mcp list"

definition gateway_block :: "cli_os \<Rightarrow> status \<Rightarrow> string option \<Rightarrow> world \<Rightarrow> gateway_view" where
  "gateway_block c s events w =
     (let profile = load_active_profile c (st_env s) w;
          exposed = (case profile of None \<Rightarrow> [] | Some p \<Rightarrow> exposed_mcps p);
          es = filter (\<lambda>e. obj_get e ''kind'' = JStr ''gateway'') (read_events events) in
      \<lparr>gv_enabled = exposed \<noteq> [], gv_up = exposed \<noteq> [] \<and> dget_or (st_ports s) ''gateway'' False,
       gv_port = (case profile of None \<Rightarrow> None | Some p \<Rightarrow> gateway_port_for p), gv_calls = length es,
       gv_errors = length (filter (\<lambda>e. obj_get e ''status'' = JStr ''error'') es), gv_exposed = exposed\<rparr>)"

definition overview :: "cli_os \<Rightarrow> moment \<Rightarrow> string option \<Rightarrow> world \<Rightarrow> vitals \<Rightarrow> (card list \<times> gateway_view) \<times> vitals" where
  "overview c m events w v =
     (case build_status c m 0 w v of (s, v1) \<Rightarrow> ((overview_cards s, gateway_block c s events w), v1))"

definition service_exposure :: "cli_os \<Rightarrow> world \<Rightarrow> json" where
  "service_exposure c w = (case exposure_payload c w of None \<Rightarrow> JObj [(''profile'', JNull)] | Some j \<Rightarrow> j)"

definition service_manifest :: "cli_os \<Rightarrow> world \<Rightarrow> json" where
  "service_manifest c w = JObj (dict_or_empty (read_json (dget (w_files w) (manifest_path c))))"

text \<open>\<^verbatim>\<open>max(1, min(limit, cap))\<close>\<close>

definition bounded :: "int \<Rightarrow> int \<Rightarrow> nat" where
  "bounded cap limit = nat (max 1 (min limit cap))"

definition log_groups :: "(string \<times> string \<times> string list) list \<Rightarrow> (string \<times> string list) list" where
  "log_groups entries = fold (\<lambda>(src, _, ls) d. dset src (dget_or d src [] @ ls) d) entries []"

definition service_logs ::
  "(string \<Rightarrow> string list) \<Rightarrow> (string \<Rightarrow> string option) \<Rightarrow> string \<Rightarrow> string \<Rightarrow> int \<Rightarrow> (string \<times> string list) list option" where
  "service_logs glob text source needle limit =
     map_option (\<lambda>es. map (\<lambda>(n, ls). (n, last_n (bounded 500 limit) ls)) (log_groups es)) (collect_logs glob text source (lower needle))"

text \<open>The files that \<^verbatim>\<open>logs_text\<close> puts into its text, each with its last lines.\<close>

definition logs_text :: "(string \<Rightarrow> string list) \<Rightarrow> (string \<Rightarrow> string option) \<Rightarrow> int \<Rightarrow> (string \<times> string \<times> string list) list option" where
  "logs_text glob text limit =
     map_option (\<lambda>es. map (\<lambda>(n, f, ls). (n, f, last_n 40 ls)) (last_n (bounded 300 limit) es)) (collect_logs glob text [] [])"

section \<open>Actions\<close>

datatype command = CmdStart "string option" bool | CmdDown | CmdUse string | CmdStopHost | CmdIngress bool | CmdWatchdogStop
  | CmdFullDown | CmdTokens | CmdDoctor

fun fn_name :: "command \<Rightarrow> string" where
  "fn_name (CmdStart _ _) = ''_start''"
| "fn_name CmdDown = ''_down''"
| "fn_name (CmdUse _) = ''apply_use''"
| "fn_name CmdStopHost = ''_stop_host''"
| "fn_name (CmdIngress _) = ''_ingress''"
| "fn_name CmdWatchdogStop = ''_watchdog_control''"
| "fn_name CmdFullDown = ''_full_down''"
| "fn_name CmdTokens = ''_issue_tokens''"
| "fn_name CmdDoctor = ''_doctor''"

fun payload_key :: "command \<Rightarrow> string" where
  "payload_key (CmdStart _ _) = ''output''"
| "payload_key CmdTokens = ''chatBlock''"
| "payload_key CmdDoctor = ''report''"
| "payload_key _ = []"

fun run_command :: "cli_os \<Rightarrow> string list \<Rightarrow> int \<Rightarrow> command \<Rightarrow> int act" where
  "run_command c fresh doc (CmdStart n b) = cli_start c n b True"
| "run_command c fresh doc CmdDown = cli_down c"
| "run_command c fresh doc (CmdUse n) = apply_use c n"
| "run_command c fresh doc CmdStopHost = cli_stop_host c"
| "run_command c fresh doc (CmdIngress b) = cli_ingress c b"
| "run_command c fresh doc CmdWatchdogStop = Cli.watchdog_control c False"
| "run_command c fresh doc CmdFullDown = cli_full_down c"
| "run_command c fresh doc CmdTokens = issue_tokens c fresh"
| "run_command c fresh doc CmdDoctor = ret doc"

text \<open>The callable of the queue; \<open>output\<close> is what the command printed. The caches are dropped also when it raises.\<close>

definition command_runner :: "cli_os \<Rightarrow> string list \<Rightarrow> int \<Rightarrow> string \<Rightarrow> command \<Rightarrow> world \<Rightarrow> vitals \<Rightarrow> action_outcome \<times> world \<times> vitals" where
  "command_runner c fresh doc output cmd w v =
     (case run_command c fresh doc cmd w of (r, w1) \<Rightarrow>
        (case r of
           None \<Rightarrow> Raised
         | Some rc \<Rightarrow> if payload_key cmd = [] then ReturnedInt rc
             else ReturnedDict [(''exit'', JInt rc), (payload_key cmd, JStr output)],
         w1, invalidate_status_cache v))"

record service =
  se_queue :: "queue option"
  se_commands :: "(string \<times> command) list"

definition queue_submit :: "string \<Rightarrow> command \<Rightarrow> service \<Rightarrow> string option \<times> service" where
  "queue_submit i cmd s =
     (case submit i (fn_name cmd) (case se_queue s of None \<Rightarrow> new_queue | Some q \<Rightarrow> q) of
        (None, q) \<Rightarrow> (None, s\<lparr>se_queue := Some q\<rparr>)
      | (Some a, q) \<Rightarrow> (Some a, s\<lparr>se_queue := Some q, se_commands := se_commands s @ [(a, cmd)]\<rparr>))"

definition stack_start :: "string \<Rightarrow> string \<Rightarrow> bool \<Rightarrow> service \<Rightarrow> string option \<times> service" where
  "stack_start i name preview = queue_submit i (CmdStart (if name = [] then None else Some name) preview)"

definition stack_down :: "string \<Rightarrow> service \<Rightarrow> string option \<times> service" where
  "stack_down i = queue_submit i CmdDown"

definition stop_host_services_action :: "string \<Rightarrow> service \<Rightarrow> string option \<times> service" where
  "stop_host_services_action i = queue_submit i CmdStopHost"

definition stack_full_down :: "string \<Rightarrow> service \<Rightarrow> string option \<times> service" where
  "stack_full_down i = queue_submit i CmdFullDown"

definition issue_tokens_action :: "string \<Rightarrow> service \<Rightarrow> string option \<times> service" where
  "issue_tokens_action i = queue_submit i CmdTokens"

definition run_doctor_action :: "string \<Rightarrow> service \<Rightarrow> string option \<times> service" where
  "run_doctor_action i = queue_submit i CmdDoctor"

definition watchdog_stop_action :: "string \<Rightarrow> service \<Rightarrow> string option \<times> service" where
  "watchdog_stop_action i = queue_submit i CmdWatchdogStop"

definition profile_use :: "string \<Rightarrow> string \<Rightarrow> service \<Rightarrow> string option option \<times> service" where
  "profile_use i name s = (if name = [] then (None, s) else apfst Some (queue_submit i (CmdUse name) s))"

definition ingress_control :: "string \<Rightarrow> string \<Rightarrow> service \<Rightarrow> string option option \<times> service" where
  "ingress_control i action s =
     (case dget [(''up'', True), (''down'', False)] action of
        None \<Rightarrow> (None, s) | Some b \<Rightarrow> apfst Some (queue_submit i (CmdIngress b) s))"

text \<open>Why the start of the watchdog is refused.\<close>

datatype watchdog_answer = Accepted | StackDown | NotRunning

text \<open>\<open>wait\<close> is what happens to the host while the command sleeps.\<close>

definition watchdog_start ::
  "cli_os \<Rightarrow> moment \<Rightarrow> moment \<Rightarrow> (host \<Rightarrow> host) \<Rightarrow> world \<Rightarrow> vitals \<Rightarrow> watchdog_answer option \<times> world \<times> vitals" where
  "watchdog_start c m m2 wait w v =
     (case build_status c m 0 w v of (s, v1) \<Rightarrow>
        if \<not> list_ex (\<lambda>k. dget_or (st_ports s) k False) [''ingress'', ''bridge'', ''runner''] then (Some StackDown, w, v1)
        else (case on_host c (\<lambda>e. start_watchdog e (ef_as_map (ef_load (w_env w)))) w of
          (None, w1) \<Rightarrow> (None, w1, v1)
        | (Some _, w1) \<Rightarrow>
            let w2 = w1\<lparr>w_host := wait (w_host w1)\<rparr> in
            (case build_status c m2 0 w2 v1 of (s2, v2) \<Rightarrow>
               if st_watchdog s2 then (Some Accepted, w2, v2)
               else (Some NotRunning, w2\<lparr>w_host := stop_watchdog (os_of c w2) (w_host w2)\<rparr>, v2))))"

text \<open>The wait for the cockpit: a probe every 200 milliseconds until it answers or the time is over.\<close>

function wait_up :: "(int \<Rightarrow> bool) \<Rightarrow> int \<Rightarrow> int \<Rightarrow> bool" where
  "wait_up connects now deadline =
     (if connects now then True else if deadline \<le> now then False else wait_up connects (now + 200) deadline)"
  by pat_completeness auto
termination by (relation "measure (\<lambda>(_, now, deadline). nat (deadline - now))") auto

declare wait_up.simps [simp del]

definition COCKPIT_WAIT_MS :: int where
  "COCKPIT_WAIT_MS = 5000"

text \<open>\<open>token\<close> is the bootstrap token that is written; \<^const>\<open>None\<close> raises.\<close>

definition cockpit_open :: "cli_os \<Rightarrow> string \<Rightarrow> string \<Rightarrow> (int \<Rightarrow> bool) \<Rightarrow> int \<Rightarrow> string act" where
  "cockpit_open c state_dir token connects now w =
     (case on_host c (\<lambda>e. start_ui e state_dir (ef_as_map (ef_load (w_env w)))) w of
        (None, w1) \<Rightarrow> (None, w1)
      | (Some _, w1) \<Rightarrow>
          if \<not> wait_up connects now (now + COCKPIT_WAIT_MS) then (None, w1)
          else (Some (''http://127.0.0.1:'' @ int_str COCKPIT_PORT @ ''/?t='' @ token), w1))"

section \<open>Handing over\<close>

text \<open>The block, and whether it is masked.\<close>

definition handoff_block :: "cli_os \<Rightarrow> bool \<Rightarrow> world \<Rightarrow> chat_line list \<times> bool" where
  "handoff_block c reveal w =
     (let env_map = ef_as_map (ef_load (w_env w)) in
      (chat_block env_map (co_url c env_map) reveal (dget_or env_map ''PUBLIC_PREVIEW_URL'' []) (runner_port_of c env_map w)
         (self_authed_of c env_map w) (active_gateway_port c env_map w), \<not> reveal))"

definition gateway_mcps :: "cli_os \<Rightarrow> (string, string) dict \<Rightarrow> int option \<Rightarrow> world \<Rightarrow> (string \<times> string \<times> string list) list option" where
  "gateway_mcps c env_map gport w =
     (case gport of
        None \<Rightarrow> None
      | Some _ \<Rightarrow> map_option (\<lambda>p. map (\<lambda>m. (em_name m, em_mode m, em_tool_allow m)) (exposed_mcps p)) (load_active_profile c env_map w))"

definition prompt_of :: "cli_os \<Rightarrow> string \<Rightarrow> string \<Rightarrow> bool \<Rightarrow> string \<Rightarrow> world \<Rightarrow> prompt_section list option" where
  "prompt_of c task acceptance reveal client w =
     (let env_map = ef_as_map (ef_load (w_env w)); gport = active_gateway_port c env_map w in
      compose_prompt env_map (co_url c env_map) (dget_or env_map ''PUBLIC_PREVIEW_URL'' []) (runner_port_of c env_map w)
        (self_authed_of c env_map w)
        (map_option (\<lambda>p. \<lparr>pc_dir = project_dir p, pc_mode = mode p, pc_toolchain = toolchain p\<rparr>) (load_active_profile c env_map w))
        task acceptance reveal client gport (gateway_mcps c env_map gport w))"

definition agent_connection :: "cli_os \<Rightarrow> bool \<Rightarrow> world \<Rightarrow> json" where
  "agent_connection c reveal w =
     (let env_map = ef_as_map (ef_load (w_env w)) in
      connection_payload env_map (co_url c env_map) reveal (runner_port_of c env_map w) (active_gateway_port c env_map w))"

definition agent_ready :: "cli_os \<Rightarrow> ports_up \<Rightarrow> world \<Rightarrow> (string \<times> bool) list" where
  "agent_ready c ports w =
     (let env_map = ef_as_map (ef_load (w_env w)); up = (\<lambda>k. dget_or ports k False) in
      [(''profile'', dget_or env_map ''ACTIVE_PROFILE'' [] \<noteq> []), (''bridge'', up ''bridge''),
       (''ingress'', up ''ingress'' \<and> co_url c env_map \<noteq> []), (''runner'', up ''runner''),
       (''gateway'', active_gateway_port c env_map w \<noteq> None \<and> up ''gateway'')])"

text \<open>The prompt, whether it is masked, what is ready and the endpoints; an unknown client raises first.\<close>

definition agent_prompt ::
  "cli_os \<Rightarrow> moment \<Rightarrow> string \<Rightarrow> string \<Rightarrow> bool \<Rightarrow> string \<Rightarrow> world \<Rightarrow> vitals \<Rightarrow>
    (prompt_section list \<times> bool \<times> (string \<times> bool) list \<times> json) option \<times> vitals" where
  "agent_prompt c m task acceptance reveal client w v =
     (case prompt_of c task acceptance reveal client w of
        None \<Rightarrow> (None, v)
      | Some ss \<Rightarrow> (case build_status c m 0 w v of (s, v1) \<Rightarrow>
          (Some (ss, \<not> reveal, agent_ready c (st_ports s) w, agent_connection c reveal w), v1)))"

section \<open>The check of the connection\<close>

text \<open>What the bridge answers to a message: a status that is an error, no answer, or the session it names and its body.\<close>

datatype probe_reply = Status int | NoAnswer | Body "string option" string

datatype check_error = UrlUnknown | TokenEmpty | BadStatus int | NoConnection | BadText | BadResponse json

datatype check = Failed check_error | Connected nat string int

text \<open>\<^const>\<open>None\<close> is an exception that is not caught.\<close>

definition probe_post :: "probe_reply \<Rightarrow> check_error + string option \<times> json" where
  "probe_post r =
     (case r of
        Status n \<Rightarrow> Inl (BadStatus n)
      | NoAnswer \<Rightarrow> Inl NoConnection
      | Body session body \<Rightarrow>
          (case (if strip body = [] then Some (JObj []) else loads body) of
             None \<Rightarrow> Inl BadText
           | Some (JObj d) \<Rightarrow> if has_key d ''error'' then Inl (BadResponse (JObj d)) else Inr (session, dget_or d ''result'' (JObj []))
           | Some j \<Rightarrow> Inl (BadResponse j)))"

text \<open>\<^verbatim>\<open>x.get(key, default)\<close> and \<^verbatim>\<open>len(x)\<close>, which raise for other values.\<close>

definition member :: "json \<Rightarrow> string \<Rightarrow> json \<Rightarrow> json option" where
  "member j key missing = (case j of JObj d \<Rightarrow> Some (dget_or d key missing) | _ \<Rightarrow> None)"

definition len_of :: "json \<Rightarrow> nat option" where
  "len_of j = (case j of JArr xs \<Rightarrow> Some (length xs) | JObj d \<Rightarrow> Some (length d) | JStr s \<Rightarrow> Some (length s) | _ \<Rightarrow> None)"

definition init_message :: json where
  "init_message = JObj [(''jsonrpc'', JStr ''2.0''), (''id'', JInt 1), (''method'', JStr ''initialize''),
     (''params'', JObj [(''protocolVersion'', JStr ''2025-06-18''), (''capabilities'', JObj []),
       (''clientInfo'', JObj [(''name'', JStr ''stitch-connection-check''), (''version'', JStr ''1.0'')])])]"

definition list_message :: json where
  "list_message = JObj [(''jsonrpc'', JStr ''2.0''), (''id'', JInt 2), (''method'', JStr ''tools/list''), (''params'', JObj [])]"

text \<open>\<open>send\<close> posts a message under a session, \<open>st\<close> is \<^verbatim>\<open>str\<close> of a value that is not a string, \<open>ms\<close> the time both posts took.\<close>

definition probe_bridge :: "(json \<Rightarrow> string option \<Rightarrow> probe_reply) \<Rightarrow> (json \<Rightarrow> string) \<Rightarrow> int \<Rightarrow> check option" where
  "probe_bridge send st ms =
     (case probe_post (send init_message None) of
        Inl er \<Rightarrow> Some (Failed er)
      | Inr (session, init) \<Rightarrow>
          (case probe_post (send list_message (if session = Some [] then None else session)) of
             Inl er \<Rightarrow> Some (Failed er)
           | Inr (_, tools) \<Rightarrow>
               Option.bind (Option.bind (member tools ''tools'' (JArr [])) len_of) (\<lambda>n.
               Option.bind (Option.bind (member init ''serverInfo'' (JObj [])) (\<lambda>i. member i ''name'' (JStr []))) (\<lambda>name.
               Some (Connected n (case name of JStr s \<Rightarrow> s | _ \<Rightarrow> st name) ms)))))"

definition connection_check ::
  "cli_os \<Rightarrow> (string \<Rightarrow> string \<Rightarrow> json \<Rightarrow> string option \<Rightarrow> probe_reply) \<Rightarrow> (json \<Rightarrow> string) \<Rightarrow> int \<Rightarrow> world \<Rightarrow> check option" where
  "connection_check c send st ms w =
     (let env_map = ef_as_map (ef_load (w_env w)); url = co_url c env_map; token = dget_or env_map ''MCP_BEARER_TOKEN'' [] in
      if url = [] then Some (Failed UrlUnknown)
      else if token = [] then Some (Failed TokenEmpty)
      else probe_bridge (send (mcp_url url BRIDGE_PORT) token) st ms)"

section \<open>The batch\<close>

text \<open>The five reads of a refresh; an error of the bridge that is not handled ends the batch.\<close>

definition poll ::
  "cli_os \<Rightarrow> moment \<Rightarrow> control_env \<Rightarrow> queue option \<Rightarrow> world \<Rightarrow> vitals \<Rightarrow> job_control \<Rightarrow>
    ((card list \<times> gateway_view) \<times> (bool \<times> action_row list \<times> (string \<times> string \<times> string) option) \<times>
      (live_row list \<times> bool \<times> bool) \<times> (live_row list \<times> bool) \<times> event list) option \<times> vitals \<times> job_control" where
  "poll c m k q w v jc =
     (case overview c m (cv_events k) w v of (ov, v1) \<Rightarrow>
      (case jobs_live k jc of
         (Inl _, jc1) \<Rightarrow> (None, v1, jc1)
       | (Inr js, jc1) \<Rightarrow>
           (case control_permissions k jc1 of
              (Inl _, jc2) \<Rightarrow> (None, v1, jc2)
            | (Inr ps, jc2) \<Rightarrow>
                (Some (ov, action_status (cv_str k) (cv_time k) q (cv_events k), js, ps, events_tail 100 (cv_events k)), v1, jc2))))"

section \<open>What is handed over without revealing\<close>

lemma same_unmasked_get:
  assumes "same_unmasked m m'"
  shows "same_ends (dget_or m k []) (dget_or m' k [])" "is_sensitive k \<or> dget_or m k [] = dget_or m' k []"
  using assms unfolding same_unmasked_def
  by (induction rule: list_all2_induct) (auto simp: same_ends_def dget_or_def split: prod.splits)

lemma same_open_keys:
  assumes "same_unmasked m m'"
  shows "dget_or m ''ACTIVE_PROFILE'' [] = dget_or m' ''ACTIVE_PROFILE'' []" "dget_or m ''UI_PORT'' [] = dget_or m' ''UI_PORT'' []"
    "dget_or m ''PUBLIC_PREVIEW_URL'' [] = dget_or m' ''PUBLIC_PREVIEW_URL'' []"
proof -
  have "\<not> is_sensitive ''ACTIVE_PROFILE''" "\<not> is_sensitive ''UI_PORT''" "\<not> is_sensitive ''PUBLIC_PREVIEW_URL''" by code_simp+
  then show "dget_or m ''ACTIVE_PROFILE'' [] = dget_or m' ''ACTIVE_PROFILE'' []" "dget_or m ''UI_PORT'' [] = dget_or m' ''UI_PORT'' []"
    "dget_or m ''PUBLIC_PREVIEW_URL'' [] = dget_or m' ''PUBLIC_PREVIEW_URL'' []"
    using same_unmasked_get(2)[OF assms] by blast+
qed

text \<open>What depends on the environment only through the name of the active profile.\<close>

lemma same_profile:
  assumes "same_unmasked m m'" "w_files w' = w_files w"
  shows "load_active_profile c m' w' = load_active_profile c m w" "runner_port_of c m' w' = runner_port_of c m w"
    "self_authed_of c m' w' = self_authed_of c m w" "active_gateway_port c m' w' = active_gateway_port c m w"
    "gateway_mcps c m' g w' = gateway_mcps c m g w"
proof -
  have "load_path w' = load_path w" "find_path c w' = find_path c w"
    by (rule ext, simp add: load_path_def find_path_def assms(2))+
  then show p: "load_active_profile c m' w' = load_active_profile c m w"
    unfolding load_active_profile_def by (simp only: same_open_keys(1)[OF assms(1)])
  show "runner_port_of c m' w' = runner_port_of c m w" "self_authed_of c m' w' = self_authed_of c m w"
    "active_gateway_port c m' w' = active_gateway_port c m w" "gateway_mcps c m' g w' = gateway_mcps c m g w"
    by (simp_all add: runner_port_of_def self_authed_of_def active_gateway_port_def gateway_mcps_def p cong: option.case_cong)
qed

lemma same_shown: "same_unmasked m m' \<Longrightarrow> shown_token m False k = shown_token m' False k"
  by (rule shown_same_ends[OF same_unmasked_get(1)])

lemma same_block: "same_unmasked m m' \<Longrightarrow> chat_block m url False pv r ss g = chat_block m' url False pv r ss g"
  using same_unmasked_get(1) same_open_keys(2) by (intro chat_block_masked) blast+

lemma same_prompt:
  "same_unmasked m m' \<Longrightarrow> compose_prompt m url pv r ss pr t a False cl g ms = compose_prompt m' url pv r ss pr t a False cl g ms"
  by (simp add: compose_prompt_def universal_prompt_def client_prompt_def accesses_def same_block[of m m'] same_shown[of m m'])

text \<open>
  C15. Nothing that is handed over without revealing tells more of a token than its first and last four characters: two
  states of the host side whose environment files differ only inside of sensitive values of eight or more characters
  give the same masked environment, the same handoff block, the same prompt for every client and task and the same
  endpoints.
\<close>

theorem unrevealed_same:
  assumes "same_unmasked (ef_as_map (ef_load (w_env w))) (ef_as_map (ef_load (w_env w')))" "w_files w' = w_files w"
    and "co_url c (ef_as_map (ef_load (w_env w))) = co_url c (ef_as_map (ef_load (w_env w')))"
  shows "masked_env (ef_as_map (ef_load (w_env w))) = masked_env (ef_as_map (ef_load (w_env w'))) \<and>
    handoff_block c False w = handoff_block c False w' \<and>
    prompt_of c task acceptance False client w = prompt_of c task acceptance False client w' \<and>
    agent_connection c False w = agent_connection c False w'"
  using masked_env_same[OF assms(1)]
  by (simp add: handoff_block_def prompt_of_def agent_connection_def connection_payload_def Let_def same_profile[OF assms(1,2)]
      same_open_keys[OF assms(1)] assms(3) same_block[OF assms(1)] same_prompt[OF assms(1)] same_shown[OF assms(1)])

definition token_world :: "string \<Rightarrow> world" where
  "token_world t = demo_world\<lparr>w_env := Some (''GATEWAY_TOKEN='' @ t @ [CHR 0x0A])\<rparr>"

theorem unrevealed_same_witness:
  "handoff_block demo_cli False (token_world ''abcdXefgh'') = handoff_block demo_cli False (token_world ''abcdYYefgh'')"
proof -
  have m: "ef_as_map (ef_load (w_env (token_world ''abcdXefgh''))) = [(''GATEWAY_TOKEN'', ''abcdXefgh'')]"
    "ef_as_map (ef_load (w_env (token_world ''abcdYYefgh''))) = [(''GATEWAY_TOKEN'', ''abcdYYefgh'')]"
    by code_simp+
  have "is_sensitive ''GATEWAY_TOKEN''" by (rule tokens_sensitive) (simp add: TOKEN_KEYS_def)
  then have "same_unmasked [(''GATEWAY_TOKEN'', ''abcdXefgh'')] [(''GATEWAY_TOKEN'', ''abcdYYefgh'')]"
    by (simp add: same_unmasked_def same_ends_def)
  moreover have "w_files (token_world ''abcdYYefgh'') = w_files (token_world ''abcdXefgh'')" by (simp add: token_world_def)
  ultimately show ?thesis
    using unrevealed_same[of "token_world ''abcdXefgh''" "token_world ''abcdYYefgh''" demo_cli, unfolded m] by (simp add: demo_cli_def)
qed

section \<open>What the commands report\<close>

text \<open>The start of the watchdog reports what is so: it runs, or nothing is left of it, or nothing was done.\<close>

lemma watchdog_start_reports:
  assumes "watchdog_start c m m2 wait w v = (Some a, w', v')"
  shows "case a of Accepted \<Rightarrow> watchdog_alive (os_of c w') (w_host w')
    | NotRunning \<Rightarrow> read_entries (os_of c w') (watchdog_pids_path (os_of c w')) (w_host w') = []
    | StackDown \<Rightarrow> w' = w"
  using assms
  by (auto simp: watchdog_start_def build_status_def Let_def os_of_def stop_watchdog_def stop_recorded_def read_entries_def remove_file_def
      split: prod.splits if_splits option.splits)

lemma strip_nonempty: "c \<in> set s \<Longrightarrow> \<not> is_ws c \<Longrightarrow> strip s \<noteq> []"
proof
  assume c: "c \<in> set s" "\<not> is_ws c" and "strip s = []"
  then have "\<forall>x \<in> set (dropWhile is_ws s). is_ws x" by (simp add: strip_by_def rstrip_by_def lstrip_by_def)
  moreover have "dropWhile is_ws s \<noteq> []" using c by auto
  ultimately show False using hd_dropWhile[of is_ws s] by (meson hd_in_set)
qed

text \<open>An answer in the form of an event stream, which the request says it accepts, is not read.\<close>

lemma event_stream_answer_fails: "probe_post (Body s (''event: message'' @ [CHR 0x0A] @ rest)) = Inl BadText"
proof -
  have "loads (''event: message'' @ [CHR 0x0A] @ rest) = None"
    by (simp add: loads_def jws_def pval.simps plit_def pnum_def pnum_rest_def int_lexeme_def starts_with_def is_digit_def Let_def)
  moreover have "strip (''event: message'' @ [CHR 0x0A] @ rest) \<noteq> []"
    by (rule strip_nonempty[of "CHR ''e''"]) (simp_all add: is_ws_def)
  ultimately show ?thesis by (simp add: probe_post_def)
qed

text \<open>A result that is null ends the check with an exception that nobody catches.\<close>

lemma null_result_raises:
  assumes "send init_message None = Body s1 (dumps (fmt_default False) (JObj [(''result'', JObj [])]))"
    and "send list_message (if s1 = Some [] then None else s1) = Body s2 (dumps (fmt_default False) (JObj [(''result'', JNull)]))"
  shows "probe_bridge send st ms = None"
proof -
  have dump: "\<exists>r. dumps (fmt_default False) (JObj [(k, j)]) = CHR 0x7B # r" for k j
    by (simp add: dumps_def bracket_def)
  have b: "strip (dumps (fmt_default False) (JObj [(k, j)])) \<noteq> []" "loads (dumps (fmt_default False) (JObj [(k, j)])) = Some (JObj [(k, j)])"
    if "json_exact j" for k j
  proof -
    obtain r where r: "dumps (fmt_default False) (JObj [(k, j)]) = CHR 0x7B # r" using dump by blast
    show "strip (dumps (fmt_default False) (JObj [(k, j)])) \<noteq> []"
      by (rule strip_nonempty[of "CHR 0x7B"]) (simp_all add: r is_ws_def)
  qed (use that in \<open>simp add: loads_dumps\<close>)
  show ?thesis by (simp add: probe_bridge_def assms probe_post_def b member_def dget_or_def has_key_def)
qed

end
