(* ===== verification/Spec2Isabelle.thy ===== *)
theory Spec2Isabelle
  imports ProfileValidate Render Redact ProxyServer Jobs AuditChain GatewayServer Upstream Handover Cockpit Bridge Service
begin

text \<open>
  A verification library of the remote-devbox-mcp sources.
\<close>

section \<open>The ingress and the port policy\<close>

lemma closed_not_forwarded:
  assumes "list_all (upstream_ok w cfg) us" "cfg_mode cfg = ''ingress''"
    and "g \<notin> set (cfg_self_authed cfg)" "\<not> is_port_allowed (cfg_policy cfg) g"
  shows "\<forall>u \<in> set us. case u of UpHttp _ p _ \<Rightarrow> p \<noteq> g | UpRaw _ p _ \<Rightarrow> p \<noteq> g"
proof
  fix u assume "u \<in> set us"
  then have "upstream_ok w cfg u" using assms(1) by (simp add: list_all_iff)
  then show "case u of UpHttp _ p _ \<Rightarrow> p \<noteq> g | UpRaw _ p _ \<Rightarrow> p \<noteq> g"
    using assms(2-4) unfolding upstream_ok_def destination_ok_def by (cases u) auto
qed



section \<open>The backend of the gateway\<close>

text \<open>A profile that the rules accept, whose background command listens on the port behind the gateway.\<close>

definition backend_profile :: profile where
  "backend_profile = sample_profile\<lparr>runner_commands := [\<lparr>rc_name = ''dev'', rc_cmd = [''vite''], rc_description = [], rc_args = [],
     rc_background = True, rc_port = Some 8795, rc_timeout = None\<rparr>]\<rparr>"

lemma backend_profile_valid: "valid_profile (\<lambda>_. True) backend_profile"
  by code_simp

lemma gateway_env_no_token: "dget (gateway_env e port) ''GATEWAY_TOKEN'' = None"
proof -
  have "fst ` set (child_base d) \<subseteq> set CHILD_ENV_KEYS" for d by (auto simp: child_base_def)
  moreover have "''GATEWAY_TOKEN'' \<notin> set CHILD_ENV_KEYS" by (simp add: CHILD_ENV_KEYS_def)
  ultimately have "''GATEWAY_TOKEN'' \<notin> fst ` set (child_base (oe_environ e))" by blast
  then have "dget (child_base (oe_environ e)) ''GATEWAY_TOKEN'' = None" by (simp add: map_of_eq_None_iff)
  then show ?thesis by (simp add: gateway_env_def)
qed

text \<open>
  The port rules and the start of the gateway do not compose: a valid profile can open the port behind the
  gateway to the tunnel (the rules for the gateway do not look at the ports of runner commands), and the gateway that
  listens there, started with the reduced environment, never has a token to check, so it answers every request.
\<close>

theorem gateway_backend_open:
  "valid_profile (\<lambda>_. True) backend_profile \<and> exposed_mcps backend_profile \<noteq> [] \<and>
   is_port_allowed (compute_port_policy backend_profile) (port_or (gateway_port backend_profile) DEFAULT_GATEWAY_PORT + 1) \<and>
   auth_ok (ge\<lparr>ge_token := dget_or (gateway_env e port) ''GATEWAY_TOKEN'' []\<rparr>) rq"
proof (intro conjI backend_profile_valid)
  show "exposed_mcps backend_profile \<noteq> []" by (simp add: backend_profile_def sample_profile_def)
  show "is_port_allowed (compute_port_policy backend_profile) (port_or (gateway_port backend_profile) DEFAULT_GATEWAY_PORT + 1)"
    by code_simp
  show "auth_ok (ge\<lparr>ge_token := dget_or (gateway_env e port) ''GATEWAY_TOKEN'' []\<rparr>) rq"
    by (simp add: auth_ok_def dget_or_def gateway_env_no_token)
qed

end
